(* ===== verification/Prelude.thy ===== *)
theory Prelude
  imports Main "HOL-Library.List_Lexorder" "HOL-Library.Char_ord" "HOL-Library.Product_Lexorder"
begin

text \<open>
  Shared vocabulary of the development: the collections of proof hints, the
  list functions that stand for the SQL aggregates (\<open>MAX\<close>, \<open>COALESCE\<close>) and
  the generic list lemmas that more than one component uses.

  Go strings and byte slices are both modelled by \<open>string\<close>, a list of 8-bit
  characters; \<open>length\<close> is Go's \<open>len\<close>.  The order on strings imported here
  (lexicographic on character codes) is Go's \<open><\<close> on strings and SQLite's
  default \<open>BINARY\<close> collation.  Go's 64-bit \<open>int\<close> and \<open>int64\<close> version numbers
  and row ids are \<open>int\<close>: they only grow by one per stored row.  Where a value
  of unbounded size enters from outside (parsing), the 64-bit range is checked
  explicitly.
\<close>

named_theorems row_simps "closed forms of the row-level operations"

section \<open>Result values\<close>

definition is_ok :: "'e + 'a \<Rightarrow> bool" where
  "is_ok r = (case r of Inl _ \<Rightarrow> False | Inr _ \<Rightarrow> True)"

lemma is_ok_simps [simp]: "is_ok (Inr x)" "\<not> is_ok (Inl e)"
  by (simp_all add: is_ok_def)

lemma is_ok_iff: "is_ok r \<longleftrightarrow> (\<exists>x. r = Inr x)"
  by (cases r) auto

section \<open>Aggregates\<close>

text \<open>\<open>MAX(column)\<close> over the selected rows: \<open>None\<close> is SQL's \<open>NULL\<close>.\<close>

fun sql_max :: "int list \<Rightarrow> int option" where
  "sql_max [] = None"
| "sql_max (x # xs) = (case sql_max xs of None \<Rightarrow> Some x | Some m \<Rightarrow> Some (max x m))"

fun coalesce :: "'a option \<Rightarrow> 'a \<Rightarrow> 'a" where
  "coalesce None d = d"
| "coalesce (Some x) d = x"

lemma sql_max_None [simp]: "sql_max xs = None \<longleftrightarrow> xs = []"
  by (cases xs) (auto split: option.splits)

lemma sql_max_in: "sql_max xs = Some m \<Longrightarrow> m \<in> set xs"
  by (induction xs arbitrary: m) (auto split: option.splits simp: max_def)

lemma sql_max_ge: "x \<in> set xs \<Longrightarrow> \<exists>m. sql_max xs = Some m \<and> x \<le> m"
  by (induction xs) (auto split: option.splits)

lemma sql_max_append:
  "sql_max (xs @ [y]) = Some (case sql_max xs of None \<Rightarrow> y | Some m \<Rightarrow> max m y)"
  by (induction xs) (auto split: option.splits)

lemma coalesce_max_ge:
  assumes "x \<in> set xs"
  shows "x \<le> coalesce (sql_max xs) d"
  using sql_max_ge [OF assms] by auto

lemma coalesce_max_in:
  assumes "xs \<noteq> []"
  shows "coalesce (sql_max xs) d \<in> set xs"
  using assms by (cases "sql_max xs") (auto dest: sql_max_in)

text \<open>The next value of an \<open>AUTOINCREMENT\<close> key: no statement of the store deletes
  from a table with such a key, so the largest row id ever used is the largest
  row id present.\<close>

definition next_id :: "int list \<Rightarrow> int" where
  "next_id ids = coalesce (sql_max ids) 0 + 1"

lemma next_id_fresh: "x \<in> set ids \<Longrightarrow> x < next_id ids"
  using coalesce_max_ge [of x ids 0] by (simp add: next_id_def)

lemma next_id_notin [simp]: "next_id ids \<notin> set ids"
  using next_id_fresh by fastforce

lemma next_id_notin_image [simp]: "next_id (map f xs) \<notin> f ` set xs"
  using next_id_notin [of "map f xs"] by (simp del: next_id_notin)

lemma next_id_fresh_map: "x \<in> set xs \<Longrightarrow> f x \<noteq> next_id (map f xs)"
  using next_id_notin_image [of f xs] by (metis imageI)

section \<open>Lists\<close>

lemma distinct_map_filter: "distinct (map f xs) \<Longrightarrow> distinct (map f (filter P xs))"
  by (induction xs) auto

lemma distinct_map_unique:
  "distinct (map f xs) \<Longrightarrow> x \<in> set xs \<Longrightarrow> y \<in> set xs \<Longrightarrow> f x = f y \<Longrightarrow> x = y"
  by (metis distinct_map inj_onD)

lemma map_update_same:
  assumes "\<And>x. x \<in> set xs \<Longrightarrow> f (g x) = f x"
  shows "map f (map g xs) = map f xs"
  using assms by (induction xs) auto

text \<open>\<open>SELECT ... LIMIT 1\<close> and \<open>QueryRow\<close>: the first matching row.\<close>

definition first_row :: "('a \<Rightarrow> bool) \<Rightarrow> 'a list \<Rightarrow> 'a option" where
  "first_row P xs = List.find P xs"

lemma first_row_None [simp]: "first_row P xs = None \<longleftrightarrow> (\<forall>x\<in>set xs. \<not> P x)"
  by (auto simp: first_row_def find_None_iff)

lemma first_row_Some: "first_row P xs = Some x \<Longrightarrow> x \<in> set xs \<and> P x"
  by (auto simp: first_row_def find_Some_iff)

lemma first_row_unique:
  assumes "x \<in> set xs" "P x" "\<And>y. y \<in> set xs \<Longrightarrow> P y \<Longrightarrow> y = x"
  shows "first_row P xs = Some x"
proof (cases "first_row P xs")
  case None
  with assms(1,2) show ?thesis by auto
next
  case (Some y)
  then have "y \<in> set xs" "P y" by (auto dest: first_row_Some)
  then have "y = x" by (rule assms(3))
  with Some show ?thesis by simp
qed

lemma first_row_append:
  "first_row P (xs @ ys) = (case first_row P xs of None \<Rightarrow> first_row P ys | Some x \<Rightarrow> Some x)"
  by (induction xs) (auto simp: first_row_def)

lemma first_row_cong:
  "(\<And>x. x \<in> set xs \<Longrightarrow> P x = Q x) \<Longrightarrow> first_row P xs = first_row Q xs"
  by (induction xs) (auto simp: first_row_def)

text \<open>Positions of a list, as Go's \<open>for i, x := range xs\<close> numbers them.\<close>

definition numbered :: "'a list \<Rightarrow> (int \<times> 'a) list" where
  "numbered xs = zip (map int [0..<length xs]) xs"

lemma numbered_simps [simp]: "numbered [] = []" "length (numbered xs) = length xs"
  by (simp_all add: numbered_def)

lemma map_snd_numbered [simp]: "map snd (numbered xs) = xs"
  by (simp add: numbered_def)

lemma distinct_fst_numbered: "distinct (map fst (numbered xs))"
  by (simp add: numbered_def distinct_map)

lemma sorted_fst_numbered: "sorted (map fst (numbered xs))"
  by (simp add: numbered_def sorted_iff_nth_mono)

lemma set_numbered: "(i, x) \<in> set (numbered xs) \<longleftrightarrow> (\<exists>n < length xs. i = int n \<and> x = xs ! n)"
  by (force simp: numbered_def set_zip)

end
