(* ===== verification/GoErrors.thy ===== *)
theory GoErrors
  imports GoStrings
begin

text \<open>
  Go's error values as the server builds them: the sentinel errors of
  \<open>store.go\<close>, \<open>auth.go\<close> and \<open>api.go\<close>, the \<open>fmt.Errorf("%w: ...")\<close>
  wrappers around a sentinel, the two typed errors \<open>lintError\<close> and
  \<open>ConflictRecordedError\<close>, and the opaque errors of the database driver and
  the operating system.  \<open>errors_is\<close> and \<open>as_recorded\<close> follow the
  \<open>Unwrap\<close> chain as \<open>errors.Is\<close> and \<open>errors.As\<close> do.
\<close>

datatype sentinel =
    ErrLint | ErrNotFound | ErrInvalid | ErrConflict
  | ErrUnauthorized | ErrForbidden | ErrTooLarge | ErrIncompatibleProtocol

fun sentinel_text :: "sentinel \<Rightarrow> string" where
  "sentinel_text ErrLint = ''lint''"
| "sentinel_text ErrNotFound = ''not found''"
| "sentinel_text ErrInvalid = ''invalid''"
| "sentinel_text ErrConflict = ''conflict''"
| "sentinel_text ErrUnauthorized = ''missing or invalid bearer token''"
| "sentinel_text ErrForbidden = ''forbidden''"
| "sentinel_text ErrTooLarge = ''request body too large''"
| "sentinel_text ErrIncompatibleProtocol = ''incompatible subscriber protocol version''"

text \<open>\<open>Deadlock\<close> is no Go error: it marks a call that would wait for the store's
  one connection while the caller itself holds it, and so never returns.\<close>

datatype gerror =
    Sentinel sentinel
  | Wrapf sentinel string
  | LintError string string int string
  | ConflictRecordedError int gerror
  | Opaque string
  | Deadlock

fun error_text :: "gerror \<Rightarrow> string" where
  "error_text (Sentinel s) = sentinel_text s"
| "error_text (Wrapf s msg) = sentinel_text s @ '': '' @ msg"
| "error_text (LintError c f v reason) = reason"
| "error_text (ConflictRecordedError i e) = error_text e"
| "error_text (Opaque msg) = msg"
| "error_text Deadlock = []"

fun errors_is :: "gerror \<Rightarrow> sentinel \<Rightarrow> bool" where
  "errors_is (Sentinel s) t = (s = t)"
| "errors_is (Wrapf s msg) t = (s = t)"
| "errors_is (LintError c f v reason) t = (t = ErrLint)"
| "errors_is (ConflictRecordedError i e) t = errors_is e t"
| "errors_is (Opaque msg) t = False"
| "errors_is Deadlock t = False"

fun as_recorded :: "gerror \<Rightarrow> int option" where
  "as_recorded (ConflictRecordedError i e) = Some i"
| "as_recorded _ = None"

fun as_lint_error :: "gerror \<Rightarrow> (string \<times> string \<times> int \<times> string) option" where
  "as_lint_error (LintError c f v reason) = Some (c, f, v, reason)"
| "as_lint_error (ConflictRecordedError i e) = as_lint_error e"
| "as_lint_error _ = None"

lemma as_lint_error_is_lint: "as_lint_error e = Some x \<Longrightarrow> errors_is e ErrLint"
  by (induction e rule: as_lint_error.induct) auto

end
