(* ===== verification/GoMonad.thy ===== *)
theory GoMonad
  imports Main
begin

text \<open>
  Go's control flow for code that has an environment, a state and an error result: an
  action takes both and returns an error or a value with the state after it.  The
  weakest-precondition rules, one per construct, carry the proofs about every component
  that is written with it.
\<close>

type_synonym ('e, 's, 'x, 'a) act = "'e \<Rightarrow> 's \<Rightarrow> ('x + 'a) \<times> 's"

definition ret :: "'a \<Rightarrow> ('e, 's, 'x, 'a) act" where
  "ret x = (\<lambda>e s. (Inr x, s))"

definition fail :: "'x \<Rightarrow> ('e, 's, 'x, 'a) act" where
  "fail err = (\<lambda>e s. (Inl err, s))"

text \<open>\<open>x, err := m; if err != nil { return err }; k(x)\<close>.\<close>

definition bindT :: "('e, 's, 'x, 'a) act \<Rightarrow> ('a \<Rightarrow> ('e, 's, 'x, 'b) act) \<Rightarrow> ('e, 's, 'x, 'b) act" where
  "bindT m k = (\<lambda>e s. case m e s of (Inl x, s') \<Rightarrow> (Inl x, s') | (Inr a, s') \<Rightarrow> k a e s')"

text \<open>\<open>x, err := m\<close>, with \<open>err\<close> inspected by the continuation.\<close>

definition tryT :: "('e, 's, 'x, 'a) act \<Rightarrow> ('x + 'a \<Rightarrow> ('e, 's, 'y, 'b) act) \<Rightarrow> ('e, 's, 'y, 'b) act" where
  "tryT m k = (\<lambda>e s. case m e s of (r, s') \<Rightarrow> k r e s')"

definition lift_result :: "'x + 'a \<Rightarrow> ('e, 's, 'x, 'a) act" where
  "lift_result r = (\<lambda>e s. (r, s))"

text \<open>\<open>for _, x := range xs { if err := f(x); err != nil { return err } }\<close>.\<close>

fun for_each :: "('a \<Rightarrow> ('e, 's, 'x, unit) act) \<Rightarrow> 'a list \<Rightarrow> ('e, 's, 'x, unit) act" where
  "for_each f [] = ret ()"
| "for_each f (x # xs) = bindT (f x) (\<lambda>_. for_each f xs)"

text \<open>\<open>wp m E N e s\<close>: run in \<open>s\<close>, \<open>m\<close> ends with an error and a session that
  satisfy \<open>E\<close>, or with a value and a session that satisfy \<open>N\<close>.\<close>

definition wp ::
  "('e, 's, 'x, 'a) act \<Rightarrow> ('x \<Rightarrow> 's \<Rightarrow> bool) \<Rightarrow> ('a \<Rightarrow> 's \<Rightarrow> bool) \<Rightarrow> 'e \<Rightarrow> 's \<Rightarrow> bool"
where
  "wp m E N e s = (case m e s of (Inl x, s') \<Rightarrow> E x s' | (Inr a, s') \<Rightarrow> N a s')"

named_theorems wp_intros "weakest precondition rules, one per construct"

lemma wp_ret [wp_intros]: "N x s \<Longrightarrow> wp (ret x) E N e s"
  by (simp add: wp_def ret_def)

lemma wp_fail [wp_intros]: "E x s \<Longrightarrow> wp (fail x) E N e s"
  by (simp add: wp_def fail_def)

lemma wp_bindT [wp_intros]:
  "wp m E (\<lambda>a s'. wp (k a) E N e s') e s \<Longrightarrow> wp (bindT m k) E N e s"
  by (auto simp: wp_def bindT_def split: prod.splits sum.splits)

lemma wp_tryT [wp_intros]:
  "wp m (\<lambda>x s'. wp (k (Inl x)) E N e s') (\<lambda>a s'. wp (k (Inr a)) E N e s') e s \<Longrightarrow> wp (tryT m k) E N e s"
  by (auto simp: wp_def tryT_def split: prod.splits sum.splits)

lemma wp_if [wp_intros]:
  "(b \<Longrightarrow> wp m E N e s) \<Longrightarrow> (\<not> b \<Longrightarrow> wp m' E N e s) \<Longrightarrow> wp (if b then m else m') E N e s"
  by simp

lemma wp_case_option [wp_intros]:
  "(x = None \<Longrightarrow> wp m E N e s) \<Longrightarrow> (\<And>a. x = Some a \<Longrightarrow> wp (f a) E N e s)
   \<Longrightarrow> wp (case x of None \<Rightarrow> m | Some a \<Rightarrow> f a) E N e s"
  by (cases x) auto

lemma wp_case_sum [wp_intros]:
  "(\<And>x. r = Inl x \<Longrightarrow> wp (f x) E N e s) \<Longrightarrow> (\<And>a. r = Inr a \<Longrightarrow> wp (g a) E N e s)
   \<Longrightarrow> wp (case r of Inl x \<Rightarrow> f x | Inr a \<Rightarrow> g a) E N e s"
  by (cases r) auto

lemma wp_lift_result [wp_intros]:
  "(\<And>x. r = Inl x \<Longrightarrow> E x s) \<Longrightarrow> (\<And>a. r = Inr a \<Longrightarrow> N a s) \<Longrightarrow> wp (lift_result r) E N e s"
  by (cases r) (auto simp: wp_def lift_result_def)

lemma lift_result_Inr: "lift_result (Inr x) = ret x"
  by (simp add: lift_result_def ret_def)

lemma wp_conseq:
  "wp m E' N' e s \<Longrightarrow> (\<And>x s'. E' x s' \<Longrightarrow> E x s') \<Longrightarrow> (\<And>a s'. N' a s' \<Longrightarrow> N a s') \<Longrightarrow> wp m E N e s"
  by (auto simp: wp_def split: prod.splits sum.splits)

lemma wp_conj:
  "wp m E N e s \<Longrightarrow> wp m E' N' e s \<Longrightarrow> wp m (\<lambda>x s'. E x s' \<and> E' x s') (\<lambda>a s'. N a s' \<and> N' a s') e s"
  by (auto simp: wp_def split: prod.splits sum.splits)

lemma wpD_ok: "wp m E N e s \<Longrightarrow> m e s = (Inr a, s') \<Longrightarrow> N a s'"
  by (simp add: wp_def)

lemma wpD_err: "wp m E N e s \<Longrightarrow> m e s = (Inl x, s') \<Longrightarrow> E x s'"
  by (simp add: wp_def)

lemma wp_for_each_from:
  assumes step: "\<And>ys x zs s'. xs = ys @ x # zs \<Longrightarrow> I ys s' \<Longrightarrow> wp (f x) E (\<lambda>_. I (ys @ [x])) e s'"
    and split: "xs = pre @ rest" and start: "I pre s"
    and post: "\<And>s'. I xs s' \<Longrightarrow> N () s'"
  shows "wp (for_each f rest) E N e s"
  using split start
proof (induction rest arbitrary: pre s)
  case Nil
  with post show ?case by (auto intro!: wp_intros)
next
  case (Cons x rest)
  have "wp (for_each f rest) E N e s'" if "I (pre @ [x]) s'" for s'
    using Cons.IH [of "pre @ [x]"] Cons.prems(1) that by simp
  with step [OF Cons.prems] show ?case
    by (auto intro!: wp_bindT elim!: wp_conseq)
qed

text \<open>The loop rule: an invariant over the elements already handled.\<close>

lemma wp_for_each:
  assumes "\<And>ys x zs s'. xs = ys @ x # zs \<Longrightarrow> I ys s' \<Longrightarrow> wp (f x) E (\<lambda>_. I (ys @ [x])) e s'"
    and "I [] s" and "\<And>s'. I xs s' \<Longrightarrow> N () s'"
  shows "wp (for_each f xs) E N e s"
  by (rule wp_for_each_from [where xs = xs and I = I and pre = "[]"]) (use assms in auto)

lemma wp_elim:
  assumes "wp m E N e s"
  obtains (err) x s' where "m e s = (Inl x, s')" "E x s'"
    | (ok) a s' where "m e s = (Inr a, s')" "N a s'"
  using assms by (cases "m e s"; cases "fst (m e s)") (auto simp: wp_def)

lemma wpI:
  assumes "\<And>x s'. m e s = (Inl x, s') \<Longrightarrow> E x s'" "\<And>a s'. m e s = (Inr a, s') \<Longrightarrow> N a s'"
  shows "wp m E N e s"
  using assms by (auto simp: wp_def split: prod.splits sum.splits)

end
