(* ===== verification/GoTx.thy ===== *)
theory GoTx
  imports GoErrors GoMonad
begin

text \<open>
  How the store's methods run against \<open>database/sql\<close>.  A method is a function
  of its environment and of the session with the database; it returns a value or
  an error and the session after it.  The session holds the committed database,
  the working copy of an open transaction, whether the pool's single connection
  (\<open>SetMaxOpenConns(1)\<close>) is held by a transaction, and a counter of the calls
  made so far.  The environment decides for every call, by its number, whether the
  driver fails it (\<open>driver_err\<close>), what the clock reads and what the random
  source returns: a theorem about every environment covers a failure of any
  statement, of \<open>Begin\<close> and of \<open>Commit\<close>.
\<close>

record env =
  driver_err :: "nat \<Rightarrow> string option"
  clock_at :: "nat \<Rightarrow> string"
  entropy :: "nat \<Rightarrow> string + string"

record 'd sess =
  committed :: 'd
  pending :: 'd
  busy :: bool
  calls :: nat

type_synonym ('d, 'a) go = "(env, 'd sess, gerror, 'a) act"

section \<open>Calls on the driver\<close>

definition tick :: "'d sess \<Rightarrow> 'd sess" where
  "tick s = s\<lparr>calls := Suc (calls s)\<rparr>"

definition driver :: "('d sess \<Rightarrow> (string + 'a) \<times> 'd sess) \<Rightarrow> ('d, 'a) go" where
  "driver f = (\<lambda>e s.
     case driver_err e (calls s) of
       Some msg \<Rightarrow> (Inl (Opaque msg), tick s)
     | None \<Rightarrow>
         (case f (tick s) of
            (Inl msg, s') \<Rightarrow> (Inl (Opaque msg), s')
          | (Inr x, s') \<Rightarrow> (Inr x, s')))"

definition get_time :: "('d, string) go" where
  "get_time = (\<lambda>e s. (Inr (clock_at e (calls s)), tick s))"

definition rand_read :: "('d, string) go" where
  "rand_read = (\<lambda>e s.
     case entropy e (calls s) of Inl m \<Rightarrow> (Inl (Opaque m), tick s) | Inr bs \<Rightarrow> (Inr bs, tick s))"

definition err_tx_done :: string where
  "err_tx_done = ''sql: transaction has already been committed or rolled back''"

text \<open>The pool has one connection: a call outside a transaction waits for it.\<close>

definition on_pool :: "('d, 'a) go \<Rightarrow> ('d, 'a) go" where
  "on_pool m = (\<lambda>e s. if busy s then (Inl Deadlock, s) else m e s)"

definition in_tx :: "('d, 'a) go \<Rightarrow> ('d, 'a) go" where
  "in_tx m = (\<lambda>e s. if busy s then m e s else (Inl (Opaque err_tx_done), s))"

definition tx_begin :: "('d, unit) go" where
  "tx_begin = on_pool (driver (\<lambda>s. (Inr (), s\<lparr>pending := committed s, busy := True\<rparr>)))"

definition tx_query :: "('d \<Rightarrow> 'a) \<Rightarrow> ('d, 'a) go" where
  "tx_query q = in_tx (driver (\<lambda>s. (Inr (q (pending s)), s)))"

definition run_update :: "('d \<Rightarrow> string + 'a \<times> 'd) \<Rightarrow> 'd sess \<Rightarrow> (string + 'a) \<times> 'd sess" where
  "run_update u s =
     (case u (pending s) of
        Inl msg \<Rightarrow> (Inl msg, s)
      | Inr (x, d) \<Rightarrow> (Inr x, s\<lparr>pending := d\<rparr>))"

definition tx_exec :: "('d \<Rightarrow> string + 'a \<times> 'd) \<Rightarrow> ('d, 'a) go" where
  "tx_exec u = in_tx (driver (run_update u))"

text \<open>\<open>Commit\<close> ends the transaction and frees the connection whether it succeeds or not;
  when it fails nothing of the transaction is in the database.\<close>

definition tx_commit :: "('d, unit) go" where
  "tx_commit = in_tx (\<lambda>e s.
     case driver_err e (calls s) of
       Some msg \<Rightarrow> (Inl (Opaque msg), (tick s)\<lparr>busy := False\<rparr>)
     | None \<Rightarrow> (Inr (), (tick s)\<lparr>committed := pending s, busy := False\<rparr>))"

text \<open>\<open>tx, err := s.db.Begin(); ...; defer tx.Rollback()\<close>: the body commits or is undone.\<close>

definition transaction :: "('d, 'a) go \<Rightarrow> ('d, 'a) go" where
  "transaction body = bindT tx_begin (\<lambda>_ e s.
     case body e s of (r, s') \<Rightarrow> (r, s'\<lparr>busy := False\<rparr>))"

text \<open>A statement or query outside a transaction.\<close>

definition db_query :: "('d \<Rightarrow> 'a) \<Rightarrow> ('d, 'a) go" where
  "db_query q = on_pool (driver (\<lambda>s. (Inr (q (committed s)), s)))"

definition db_exec :: "('d \<Rightarrow> string + 'a \<times> 'd) \<Rightarrow> ('d, 'a) go" where
  "db_exec u = on_pool (driver (\<lambda>s.
     case u (committed s) of
       Inl msg \<Rightarrow> (Inl msg, s)
     | Inr (x, d) \<Rightarrow> (Inr x, s\<lparr>committed := d\<rparr>)))"

section \<open>Weakest preconditions\<close>

text \<open>Some call fails for a reason outside the program.\<close>

definition faulty :: "env \<Rightarrow> bool" where
  "faulty e \<longleftrightarrow> (\<exists>n m. driver_err e n = Some m \<or> entropy e n = Inl m)"

lemma wp_get_time [wp_intros]:
  "(\<And>t. N t (tick s)) \<Longrightarrow> wp get_time E N e s"
  by (simp add: wp_def get_time_def)

lemma wp_rand_read [wp_intros]:
  "(\<And>m. faulty e \<Longrightarrow> E (Opaque m) (tick s)) \<Longrightarrow> (\<And>n bs. entropy e n = Inr bs \<Longrightarrow> N bs (tick s))
   \<Longrightarrow> wp rand_read E N e s"
  by (auto simp: wp_def rand_read_def faulty_def split: sum.splits)

lemma wp_tx_query [wp_intros]:
  "busy s \<Longrightarrow> (\<And>m. faulty e \<Longrightarrow> E (Opaque m) (tick s)) \<Longrightarrow> N (q (pending s)) (tick s)
   \<Longrightarrow> wp (tx_query q) E N e s"
  by (auto simp: wp_def tx_query_def in_tx_def driver_def tick_def faulty_def split: option.splits)

lemma wp_tx_exec [wp_intros]:
  "busy s \<Longrightarrow> (\<And>m. faulty e \<Longrightarrow> E (Opaque m) (tick s))
   \<Longrightarrow> (\<And>m. u (pending s) = Inl m \<Longrightarrow> E (Opaque m) (tick s))
   \<Longrightarrow> (\<And>x d. u (pending s) = Inr (x, d) \<Longrightarrow> N x ((tick s)\<lparr>pending := d\<rparr>)) \<Longrightarrow> wp (tx_exec u) E N e s"
  by (auto simp: wp_def tx_exec_def in_tx_def driver_def run_update_def tick_def faulty_def
        split: option.splits sum.splits prod.splits)

lemma wp_tx_commit [wp_intros]:
  "busy s \<Longrightarrow> (\<And>m. faulty e \<Longrightarrow> E (Opaque m) ((tick s)\<lparr>busy := False\<rparr>))
   \<Longrightarrow> N () ((tick s)\<lparr>committed := pending s, busy := False\<rparr>) \<Longrightarrow> wp tx_commit E N e s"
  by (auto simp: wp_def tx_commit_def in_tx_def tick_def faulty_def split: option.splits)

lemma wp_db_query [wp_intros]:
  "\<not> busy s \<Longrightarrow> (\<And>m. faulty e \<Longrightarrow> E (Opaque m) (tick s)) \<Longrightarrow> N (q (committed s)) (tick s)
   \<Longrightarrow> wp (db_query q) E N e s"
  by (auto simp: wp_def db_query_def on_pool_def driver_def tick_def faulty_def split: option.splits)

lemma wp_db_exec [wp_intros]:
  "\<not> busy s \<Longrightarrow> (\<And>m. faulty e \<Longrightarrow> E (Opaque m) (tick s))
   \<Longrightarrow> (\<And>m. u (committed s) = Inl m \<Longrightarrow> E (Opaque m) (tick s))
   \<Longrightarrow> (\<And>x d. u (committed s) = Inr (x, d) \<Longrightarrow> N x ((tick s)\<lparr>committed := d\<rparr>)) \<Longrightarrow> wp (db_exec u) E N e s"
  by (auto simp: wp_def db_exec_def on_pool_def driver_def tick_def faulty_def
        split: option.splits sum.splits prod.splits)

lemma wp_transaction [wp_intros]:
  "\<not> busy s \<Longrightarrow> (\<And>m. faulty e \<Longrightarrow> E (Opaque m) (tick s))
   \<Longrightarrow> wp body (\<lambda>x s'. E x (s'\<lparr>busy := False\<rparr>)) (\<lambda>a s'. N a (s'\<lparr>busy := False\<rparr>)) e
          ((tick s)\<lparr>pending := committed s, busy := True\<rparr>)
   \<Longrightarrow> wp (transaction body) E N e s"
  by (auto simp: wp_def transaction_def bindT_def tx_begin_def on_pool_def driver_def tick_def faulty_def
        split: option.splits sum.splits prod.splits)

section \<open>Sessions\<close>

definition idle :: "'d \<Rightarrow> nat \<Rightarrow> 'd sess" where
  "idle d n = \<lparr>committed = d, pending = d, busy = False, calls = n\<rparr>"

lemma tick_sel [simp]:
  "committed (tick s) = committed s" "pending (tick s) = pending s"
  "busy (tick s) = busy s" "calls (tick s) = Suc (calls s)"
  by (simp_all add: tick_def)

lemma idle_sel [simp]:
  "committed (idle d n) = d" "busy (idle d n) = False" "calls (idle d n) = n"
  by (simp_all add: idle_def)

text \<open>An environment in which nothing fails, for examples.\<close>

definition calm :: "string \<Rightarrow> string \<Rightarrow> env" where
  "calm t bs = \<lparr>driver_err = (\<lambda>_. None), clock_at = (\<lambda>_. t), entropy = (\<lambda>_. Inr bs)\<rparr>"

lemma calm_not_faulty [simp]: "\<not> faulty (calm t bs)"
  by (simp add: faulty_def calm_def)

end
