(* ===== verification/Db.thy ===== *)
theory Db
  imports GoTx
begin

text \<open>
  The tables of \<open>knowledge-server/store/store.go\<close> (the \<open>schema\<close> constant) and
  the statements that change them.  Each table is the list of its rows in the
  order they were inserted; a statement either fails with a constraint error and
  leaves the database alone, or returns the new database.  The constraints are
  those the schema declares: primary keys, \<open>UNIQUE\<close>, \<open>CHECK\<close>, foreign keys,
  the two partial unique indexes and the two triggers on \<open>conflicts\<close>.
\<close>

section \<open>Rows\<close>

record collection_row =
  c_name :: string
  c_delivery :: string
  c_in_release :: int

record doc_row =
  d_id :: int
  d_collection :: string
  d_family :: string
  d_version :: int
  d_title :: string
  d_status :: string
  d_owner :: string
  d_audience :: string
  d_tier :: string
  d_triggers :: string
  d_body :: string
  d_editor :: string
  d_created :: string

record link_row =
  l_doc :: int
  l_position :: int
  l_relation :: string
  l_collection :: string
  l_family :: string
  l_version :: int

record release_row =
  r_id :: int
  r_hash :: string
  r_created :: string

record release_doc_row =
  rd_release :: int
  rd_doc :: int
  rd_path :: string
  rd_sha :: string

record heartbeat_row =
  h_host :: string
  h_release :: int
  h_ok :: int
  h_error :: string
  h_seen :: string

record resync_row =
  q_host :: string
  q_requested :: string

record token_row =
  t_host :: string
  t_hash :: string
  t_created :: string

record conflict_row =
  x_id :: int
  x_kind :: string
  x_status :: string
  x_collection :: string
  x_family :: string
  x_other_collection :: string
  x_other_family :: string
  x_base :: int
  x_their :: int
  x_attempts :: int
  x_attempted :: string
  x_detail :: string
  x_opened_by :: string
  x_opened_at :: string
  x_resolved_by :: string
  x_resolved_at :: string
  x_resolution :: string
  x_winning :: int

record db =
  collections :: "collection_row list"
  doc_versions :: "doc_row list"
  doc_links :: "link_row list"
  releases :: "release_row list"
  release_docs :: "release_doc_row list"
  heartbeats :: "heartbeat_row list"
  resync_requests :: "resync_row list"
  host_tokens :: "token_row list"
  conflicts :: "conflict_row list"

type_synonym 'a store = "(db, 'a) go"

text \<open>The database \<open>Open\<close> creates: the schema's two seeded collections.\<close>

definition initial_db :: db where
  "initial_db =
     \<lparr>collections =
        [\<lparr>c_name = ''kernel'', c_delivery = ''push'', c_in_release = 1\<rparr>,
         \<lparr>c_name = ''docs'', c_delivery = ''trigger'', c_in_release = 1\<rparr>],
      doc_versions = [], doc_links = [], releases = [], release_docs = [],
      heartbeats = [], resync_requests = [], host_tokens = [], conflicts = []\<rparr>"

section \<open>Keys\<close>

definition doc_family :: "doc_row \<Rightarrow> string \<times> string" where
  "doc_family d = (d_collection d, d_family d)"

definition doc_key :: "doc_row \<Rightarrow> string \<times> string \<times> int" where
  "doc_key d = (d_collection d, d_family d, d_version d)"

definition link_target :: "link_row \<Rightarrow> string \<times> string \<times> string \<times> int" where
  "link_target l = (l_relation l, l_collection l, l_family l, l_version l)"

definition conflict_slot :: "conflict_row \<Rightarrow> string \<times> string \<times> string" where
  "conflict_slot x = (x_kind x, x_collection x, x_family x)"

definition family_rows :: "db \<Rightarrow> string \<Rightarrow> string \<Rightarrow> doc_row list" where
  "family_rows db c f = filter (\<lambda>d. d_collection d = c \<and> d_family d = f) (doc_versions db)"

text \<open>\<open>SELECT COALESCE(MAX(version), 0) FROM doc_versions WHERE collection = ? AND family_id = ?\<close>.\<close>

definition max_version :: "db \<Rightarrow> string \<Rightarrow> string \<Rightarrow> int" where
  "max_version db c f = coalesce (sql_max (map d_version (family_rows db c f))) 0"

definition count_collections :: "db \<Rightarrow> string \<Rightarrow> int" where
  "count_collections db c = int (length (filter (\<lambda>r. c_name r = c) (collections db)))"

section \<open>Statements on \<open>doc_versions\<close> and \<open>doc_links\<close>\<close>

definition constraint_failed :: string where
  "constraint_failed = ''constraint failed''"

text \<open>The schema's constraints on a row to be inserted.\<close>

definition doc_insert_ok :: "db \<Rightarrow> doc_row \<Rightarrow> bool" where
  "doc_insert_ok db d =
     (list_ex (\<lambda>c. c_name c = d_collection d) (collections db)
      \<and> (d_status d = ''draft'' \<or> d_status d = ''active'' \<or> d_status d = ''superseded'')
      \<and> list_all (\<lambda>w. doc_key w \<noteq> doc_key d) (doc_versions db)
      \<and> (d_status d = ''active'' \<longrightarrow>
           list_all (\<lambda>w. \<not> (doc_family w = doc_family d \<and> d_status w = ''active'')) (doc_versions db)))"

text \<open>\<open>INSERT INTO doc_versions ...\<close>; the row gets the next id, which is \<open>LastInsertId\<close>.\<close>

definition insert_doc :: "doc_row \<Rightarrow> db \<Rightarrow> string + int \<times> db" where
  "insert_doc d db =
     (let i = next_id (map d_id (doc_versions db)); d' = d\<lparr>d_id := i\<rparr>
      in if doc_insert_ok db d' then Inr (i, db\<lparr>doc_versions := doc_versions db @ [d']\<rparr>)
         else Inl constraint_failed)"

text \<open>\<open>UPDATE doc_versions SET status = 'superseded' WHERE collection = ? AND family_id = ?
  AND status = 'active'\<close>.\<close>

definition supersede_row :: "string \<Rightarrow> string \<Rightarrow> doc_row \<Rightarrow> doc_row" where
  "supersede_row c f d =
     (if d_collection d = c \<and> d_family d = f \<and> d_status d = ''active''
      then d\<lparr>d_status := ''superseded''\<rparr> else d)"

definition supersede_active :: "string \<Rightarrow> string \<Rightarrow> db \<Rightarrow> string + unit \<times> db" where
  "supersede_active c f db =
     Inr ((), db\<lparr>doc_versions := map (supersede_row c f) (doc_versions db)\<rparr>)"

definition link_insert_ok :: "db \<Rightarrow> link_row \<Rightarrow> bool" where
  "link_insert_ok db l =
     (list_ex (\<lambda>d. d_id d = l_doc l) (doc_versions db)
      \<and> 0 \<le> l_position l
      \<and> (l_relation l = ''reference'' \<or> l_relation l = ''supersedes'')
      \<and> 0 < l_version l
      \<and> list_all (\<lambda>w. \<not> (l_doc w = l_doc l \<and> l_position w = l_position l)) (doc_links db)
      \<and> list_all (\<lambda>w. \<not> (l_doc w = l_doc l \<and> link_target w = link_target l)) (doc_links db))"

definition insert_link :: "link_row \<Rightarrow> db \<Rightarrow> string + unit \<times> db" where
  "insert_link l db =
     (if link_insert_ok db l then Inr ((), db\<lparr>doc_links := doc_links db @ [l]\<rparr>)
      else Inl constraint_failed)"

section \<open>Statements on \<open>releases\<close> and \<open>release_docs\<close>\<close>

definition insert_release :: "string \<Rightarrow> string \<Rightarrow> db \<Rightarrow> string + int \<times> db" where
  "insert_release h created db =
     (let i = next_id (map r_id (releases db))
      in Inr (i, db\<lparr>releases := releases db @ [\<lparr>r_id = i, r_hash = h, r_created = created\<rparr>]\<rparr>))"

definition release_doc_insert_ok :: "db \<Rightarrow> release_doc_row \<Rightarrow> bool" where
  "release_doc_insert_ok db r =
     (list_ex (\<lambda>x. r_id x = rd_release r) (releases db)
      \<and> list_ex (\<lambda>d. d_id d = rd_doc r) (doc_versions db)
      \<and> list_all (\<lambda>w. \<not> (rd_release w = rd_release r \<and> rd_doc w = rd_doc r)) (release_docs db))"

definition insert_release_doc :: "release_doc_row \<Rightarrow> db \<Rightarrow> string + unit \<times> db" where
  "insert_release_doc r db =
     (if release_doc_insert_ok db r then Inr ((), db\<lparr>release_docs := release_docs db @ [r]\<rparr>)
      else Inl constraint_failed)"

section \<open>Statements on \<open>conflicts\<close>\<close>

definition conflict_insert_ok :: "db \<Rightarrow> conflict_row \<Rightarrow> bool" where
  "conflict_insert_ok db x =
     ((x_kind x = ''edit'' \<or> x_kind x = ''claim'' \<or> x_kind x = ''policy'')
      \<and> (x_status x = ''open'' \<or> x_status x = ''resolved'')
      \<and> 1 \<le> x_attempts x
      \<and> (x_status x = ''open'' \<longrightarrow>
           list_all (\<lambda>w. \<not> (x_status w = ''open'' \<and> conflict_slot w = conflict_slot x)) (conflicts db)))"

definition insert_conflict :: "conflict_row \<Rightarrow> db \<Rightarrow> string + int \<times> db" where
  "insert_conflict x db =
     (let i = next_id (map x_id (conflicts db)); x' = x\<lparr>x_id := i\<rparr>
      in if conflict_insert_ok db x' then Inr (i, db\<lparr>conflicts := conflicts db @ [x']\<rparr>)
         else Inl constraint_failed)"

text \<open>\<open>UPDATE conflicts SET ... WHERE ...\<close>: the trigger \<open>conflicts_no_rewrite\<close> aborts the
  statement when a selected row is resolved.\<close>

definition update_conflicts ::
  "(conflict_row \<Rightarrow> bool) \<Rightarrow> (conflict_row \<Rightarrow> conflict_row) \<Rightarrow> db \<Rightarrow> string + unit \<times> db" where
  "update_conflicts P g db =
     (if list_ex (\<lambda>x. P x \<and> x_status x = ''resolved'') (conflicts db)
      then Inl ''resolved conflicts are immutable''
      else Inr ((), db\<lparr>conflicts := map (\<lambda>x. if P x then g x else x) (conflicts db)\<rparr>))"

section \<open>Statements on the host tables\<close>

text \<open>\<open>INSERT ... ON CONFLICT (host) DO UPDATE SET ...\<close>.\<close>

definition upsert :: "('r \<Rightarrow> string) \<Rightarrow> 'r \<Rightarrow> 'r list \<Rightarrow> 'r list" where
  "upsert key r rs =
     (if list_ex (\<lambda>w. key w = key r) rs then map (\<lambda>w. if key w = key r then r else w) rs
      else rs @ [r])"

definition upsert_heartbeat :: "heartbeat_row \<Rightarrow> db \<Rightarrow> string + unit \<times> db" where
  "upsert_heartbeat h db = Inr ((), db\<lparr>heartbeats := upsert h_host h (heartbeats db)\<rparr>)"

definition upsert_resync :: "resync_row \<Rightarrow> db \<Rightarrow> string + unit \<times> db" where
  "upsert_resync r db = Inr ((), db\<lparr>resync_requests := upsert q_host r (resync_requests db)\<rparr>)"

definition delete_resync :: "string \<Rightarrow> db \<Rightarrow> string + unit \<times> db" where
  "delete_resync h db =
     Inr ((), db\<lparr>resync_requests := filter (\<lambda>r. q_host r \<noteq> h) (resync_requests db)\<rparr>)"

text \<open>\<open>token_hash\<close> is \<open>UNIQUE\<close>: the digest of another host's token is refused.\<close>

definition upsert_token :: "token_row \<Rightarrow> db \<Rightarrow> string + unit \<times> db" where
  "upsert_token t db =
     (if list_ex (\<lambda>w. t_hash w = t_hash t \<and> t_host w \<noteq> t_host t) (host_tokens db)
      then Inl constraint_failed
      else Inr ((), db\<lparr>host_tokens := upsert t_host t (host_tokens db)\<rparr>))"

text \<open>\<open>DELETE FROM host_tokens WHERE host = ?\<close> with \<open>RowsAffected\<close>.\<close>

definition delete_token :: "string \<Rightarrow> db \<Rightarrow> string + int \<times> db" where
  "delete_token h db =
     Inr (int (length (filter (\<lambda>t. t_host t = h) (host_tokens db))),
          db\<lparr>host_tokens := filter (\<lambda>t. t_host t \<noteq> h) (host_tokens db)\<rparr>)"

end
