(* ===== verification/Utf8.thy ===== *)
theory Utf8
  imports GoStrings
begin

text \<open>
  UTF-8 as Go's \<open>unicode/utf8\<close> reads and writes it.  \<open>runes s\<close> is the
  sequence of runes a \<open>range\<close> loop over the string visits, each with the bytes
  it was decoded from; an ill-formed byte is the rune \<open>RuneError\<close> (65533) of
  width one.
\<close>

definition rune_error :: nat where
  "rune_error = 65533"

definition in_range :: "nat \<Rightarrow> nat \<Rightarrow> char \<Rightarrow> bool" where
  "in_range lo hi c = (lo \<le> of_char c \<and> of_char c \<le> hi)"

definition cont_bits :: "char \<Rightarrow> nat" where
  "cont_bits c = of_char c - 128"

text \<open>A sequence of two, three or four bytes whose first byte is \<open>b\<close>.\<close>

definition decode2 :: "nat \<Rightarrow> string \<Rightarrow> nat \<times> nat" where
  "decode2 b cs =
     (case cs of
        c1 # _ \<Rightarrow> if in_range 128 191 c1 then ((b - 192) * 64 + cont_bits c1, 2) else (rune_error, 1)
      | _ \<Rightarrow> (rune_error, 1))"

definition decode3 :: "nat \<Rightarrow> string \<Rightarrow> nat \<times> nat" where
  "decode3 b cs =
     (case cs of
        c1 # c2 # _ \<Rightarrow>
          if in_range (if b = 224 then 160 else 128) (if b = 237 then 159 else 191) c1
             \<and> in_range 128 191 c2
          then ((b - 224) * 4096 + cont_bits c1 * 64 + cont_bits c2, 3)
          else (rune_error, 1)
      | _ \<Rightarrow> (rune_error, 1))"

definition decode4 :: "nat \<Rightarrow> string \<Rightarrow> nat \<times> nat" where
  "decode4 b cs =
     (case cs of
        c1 # c2 # c3 # _ \<Rightarrow>
          if in_range (if b = 240 then 144 else 128) (if b = 244 then 143 else 191) c1
             \<and> in_range 128 191 c2 \<and> in_range 128 191 c3
          then ((b - 240) * 262144 + cont_bits c1 * 4096 + cont_bits c2 * 64 + cont_bits c3, 4)
          else (rune_error, 1)
      | _ \<Rightarrow> (rune_error, 1))"

fun decode_rune :: "string \<Rightarrow> nat \<times> nat" where
  "decode_rune [] = (rune_error, 0)"
| "decode_rune (c # cs) =
     (let b = of_char c :: nat in
      if b < 128 then (b, 1)
      else if 194 \<le> b \<and> b \<le> 223 then decode2 b cs
      else if 224 \<le> b \<and> b \<le> 239 then decode3 b cs
      else if 240 \<le> b \<and> b \<le> 244 then decode4 b cs
      else (rune_error, 1))"

lemma decode_rune_parts_width:
  "1 \<le> snd (decode2 b cs)" "1 \<le> snd (decode3 b cs)" "1 \<le> snd (decode4 b cs)"
  by (auto simp: decode2_def decode3_def decode4_def split: list.splits)

lemma decode_rune_width: "1 \<le> snd (decode_rune (c # cs))"
  using decode_rune_parts_width by (auto simp: Let_def)

function runes :: "string \<Rightarrow> (nat \<times> string) list" where
  "runes [] = []"
| "runes (c # cs) =
     (let (r, w) = decode_rune (c # cs)
      in (r, take w (c # cs)) # runes (drop w (c # cs)))"
  by pat_completeness auto
termination
proof (relation "measure length")
  fix c cs x r w
  assume "x = decode_rune (c # cs)" and "(r, w) = x"
  then have "1 \<le> w" using decode_rune_width [of c cs] by (metis snd_conv)
  then show "(drop w (c # cs), c # cs) \<in> measure length" by simp
qed auto

declare decode_rune.simps [simp del] runes.simps(2) [simp del]

text \<open>Decoding loses no byte.\<close>

lemma concat_runes: "concat (map snd (runes s)) = s"
proof (induction s rule: runes.induct)
  case (2 c cs)
  obtain r w where rw: "decode_rune (c # cs) = (r, w)" by (cases "decode_rune (c # cs)")
  with 2 [of "(r, w)" r w] show ?case by (simp add: runes.simps(2))
qed simp

definition is_ascii :: "string \<Rightarrow> bool" where
  "is_ascii s = list_all (\<lambda>c. (of_char c :: nat) < 128) s"

lemma is_ascii_simps [simp]:
  "is_ascii []" "is_ascii (c # s) \<longleftrightarrow> (of_char c :: nat) < 128 \<and> is_ascii s"
  "is_ascii (s @ t) \<longleftrightarrow> is_ascii s \<and> is_ascii t"
  by (simp_all add: is_ascii_def)

lemma runes_ascii_Cons:
  "(of_char c :: nat) < 128 \<Longrightarrow> runes (c # s) = (of_char c, [c]) # runes s"
  by (simp add: runes.simps(2) decode_rune.simps)

lemma runes_ascii_append:
  "is_ascii s \<Longrightarrow> runes (s @ t) = map (\<lambda>c. (of_char c, [c])) s @ runes t"
  by (induction s) (auto simp: runes_ascii_Cons)

lemma runes_ascii: "is_ascii s \<Longrightarrow> runes s = map (\<lambda>c. (of_char c, [c])) s"
  using runes_ascii_append [of s "[]"] by simp

section \<open>Well-formed text\<close>

text \<open>\<open>utf8.EncodeRune\<close>.\<close>

definition encode_rune :: "nat \<Rightarrow> string" where
  "encode_rune r =
     (if r < 128 then [char_of r]
      else if r < 2048 then [char_of (192 + r div 64), char_of (128 + r mod 64)]
      else if r < 65536 then
        [char_of (224 + r div 4096), char_of (128 + r div 64 mod 64), char_of (128 + r mod 64)]
      else [char_of (240 + r div 262144), char_of (128 + r div 4096 mod 64),
            char_of (128 + r div 64 mod 64), char_of (128 + r mod 64)])"

lemma decode2_ok:
  assumes "decode2 b cs = (r, w)" "\<not> (r = rune_error \<and> w = 1)"
  obtains c1 t where "cs = c1 # t" "in_range 128 191 c1" "r = (b - 192) * 64 + cont_bits c1" "w = 2"
proof (cases cs)
  case (Cons c1 t)
  with assms that show ?thesis by (auto simp: decode2_def split: if_splits)
qed (use assms in \<open>auto simp: decode2_def\<close>)

lemma decode3_ok:
  assumes "decode3 b cs = (r, w)" "\<not> (r = rune_error \<and> w = 1)"
  obtains c1 c2 t where "cs = c1 # c2 # t"
    "in_range (if b = 224 then 160 else 128) (if b = 237 then 159 else 191) c1" "in_range 128 191 c2"
    "r = (b - 224) * 4096 + cont_bits c1 * 64 + cont_bits c2" "w = 3"
proof -
  consider "cs = []" | c1 where "cs = [c1]" | c1 c2 t where "cs = c1 # c2 # t"
    by (metis list.exhaust)
  then show ?thesis
  proof cases
    case (3 c1 c2 t)
    let ?P = "in_range (if b = 224 then 160 else 128) (if b = 237 then 159 else 191) c1 \<and> in_range 128 191 c2"
    show ?thesis
    proof (cases ?P)
      case True
      then have "(r, w) = ((b - 224) * 4096 + cont_bits c1 * 64 + cont_bits c2, 3)"
        using assms(1) 3 unfolding decode3_def by (simp only: list.case if_True simp_thms)
      with True 3 that show ?thesis by blast
    next
      case False
      then have "(r, w) = (rune_error, 1)"
        using assms(1) 3 unfolding decode3_def by (simp only: list.case if_False)
      with assms(2) show ?thesis by simp
    qed
  qed (use assms in \<open>auto simp: decode3_def\<close>)
qed
lemma decode4_ok:
  assumes "decode4 b cs = (r, w)" "\<not> (r = rune_error \<and> w = 1)"
  obtains c1 c2 c3 t where "cs = c1 # c2 # c3 # t"
    "in_range (if b = 240 then 144 else 128) (if b = 244 then 143 else 191) c1"
    "in_range 128 191 c2" "in_range 128 191 c3"
    "r = (b - 240) * 262144 + cont_bits c1 * 4096 + cont_bits c2 * 64 + cont_bits c3" "w = 4"
proof -
  consider "cs = []" | c1 where "cs = [c1]" | c1 c2 where "cs = [c1, c2]" | c1 c2 c3 t where "cs = c1 # c2 # c3 # t"
    by (metis list.exhaust)
  then show ?thesis
  proof cases
    case (4 c1 c2 c3 t)
    let ?P = "in_range (if b = 240 then 144 else 128) (if b = 244 then 143 else 191) c1
             \<and> in_range 128 191 c2 \<and> in_range 128 191 c3"
    show ?thesis
    proof (cases ?P)
      case True
      then have "(r, w) = ((b - 240) * 262144 + cont_bits c1 * 4096 + cont_bits c2 * 64 + cont_bits c3, 4)"
        using assms(1) 4 unfolding decode4_def by (simp only: list.case if_True simp_thms)
      with True 4 that show ?thesis by blast
    next
      case False
      then have "(r, w) = (rune_error, 1)"
        using assms(1) 4 unfolding decode4_def by (simp only: list.case if_False)
      with assms(2) show ?thesis by simp
    qed
  qed (use assms in \<open>auto simp: decode4_def\<close>)
qed

lemma cont_bits_less: "in_range lo 191 c \<Longrightarrow> cont_bits c < 64"
  unfolding in_range_def cont_bits_def by linarith

lemma in_range_mono: "in_range lo hi c \<Longrightarrow> lo' \<le> lo \<Longrightarrow> hi \<le> hi' \<Longrightarrow> in_range lo' hi' c"
  by (simp add: in_range_def)

lemma cont_char: "in_range 128 191 c \<Longrightarrow> char_of (128 + cont_bits c) = c"
  by (simp add: in_range_def cont_bits_def)

lemma base64_digit:
  fixes a x :: nat
  assumes "x < 64"
  shows "(a * 64 + x) div 64 = a" "(a * 64 + x) mod 64 = x"
  using assms by simp_all

lemma base64_digits3:
  fixes a x y :: nat
  assumes "x < 64" "y < 64" "r = a * 4096 + x * 64 + y"
  shows "r div 4096 = a" "r div 64 mod 64 = x" "r mod 64 = y"
proof -
  have r: "r = (a * 64 + x) * 64 + y" using assms(3) by simp
  then have d: "r div 64 = a * 64 + x" using base64_digit(1) [OF assms(2)] by simp
  show "r mod 64 = y" unfolding r by (rule base64_digit(2) [OF assms(2)])
  show "r div 64 mod 64 = x" using d base64_digit(2) [OF assms(1)] by simp
  have "r div 4096 = r div 64 div 64" by (simp flip: div_mult2_eq)
  then show "r div 4096 = a" using d base64_digit(1) [OF assms(1)] by simp
qed

lemma base64_digits4:
  fixes a x y z :: nat
  assumes "x < 64" "y < 64" "z < 64" "r = a * 262144 + x * 4096 + y * 64 + z"
  shows "r div 262144 = a" "r div 4096 mod 64 = x" "r div 64 mod 64 = y" "r mod 64 = z"
proof -
  have r: "r = (a * 4096 + x * 64 + y) * 64 + z" using assms(4) by simp
  then have d: "r div 64 = a * 4096 + x * 64 + y" using base64_digit(1) [OF assms(3)] by simp
  note three = base64_digits3 [OF assms(1,2) d]
  show "r mod 64 = z" unfolding r by (rule base64_digit(2) [OF assms(3)])
  show "r div 64 mod 64 = y" by (rule three(3))
  have "r div 4096 = r div 64 div 64" "r div 262144 = r div 64 div 4096"
    by (simp_all flip: div_mult2_eq)
  then show "r div 4096 mod 64 = x" "r div 262144 = a" using three(1,2) by simp_all
qed

text \<open>A well-formed sequence is read alike whatever follows it, and encodes back.\<close>

lemma decode_rune_stable:
  assumes "decode_rune (c # cs) = (r, w)" "\<not> (r = rune_error \<and> w = 1)"
  shows "decode_rune (take w (c # cs) @ t) = (r, w)" and "length (take w (c # cs)) = w"
    and "encode_rune r = take w (c # cs)"
proof -
  let ?b = "of_char c :: nat"
  consider "?b < 128" "r = ?b" "w = 1"
    | "194 \<le> ?b" "?b \<le> 223" "decode2 ?b cs = (r, w)"
    | "224 \<le> ?b" "?b \<le> 239" "decode3 ?b cs = (r, w)"
    | "240 \<le> ?b" "?b \<le> 244" "decode4 ?b cs = (r, w)"
    using assms by (auto simp: decode_rune.simps Let_def split: if_splits)
  then have "decode_rune (take w (c # cs) @ t) = (r, w) \<and> length (take w (c # cs)) = w
      \<and> encode_rune r = take w (c # cs)"
  proof cases
    case 1
    then show ?thesis by (simp add: decode_rune.simps encode_rune_def)
  next
    case 2
    from decode2_ok [OF 2(3) assms(2)] obtain c1 t1 where *: "cs = c1 # t1" "in_range 128 191 c1"
      "r = (?b - 192) * 64 + cont_bits c1" "w = 2" .
    have k: "cont_bits c1 < 64" using *(2) by (rule cont_bits_less)
    have "r div 64 = ?b - 192" "r mod 64 = cont_bits c1"
      unfolding *(3) by (rule base64_digit [OF k])+
    moreover have "128 \<le> r" "r < 2048" using *(3) 2(1,2) k by linarith+
    ultimately have "encode_rune r = [c, c1]"
      using 2(1) cont_char [OF *(2)] by (simp add: encode_rune_def)
    with 2(1,2) * show ?thesis by (simp add: decode_rune.simps decode2_def)
  next
    case 3
    from decode3_ok [OF 3(3) assms(2)] obtain c1 c2 t1 where *: "cs = c1 # c2 # t1"
      "in_range (if ?b = 224 then 160 else 128) (if ?b = 237 then 159 else 191) c1"
      "in_range 128 191 c2"
      "r = (?b - 224) * 4096 + cont_bits c1 * 64 + cont_bits c2" "w = 3" .
    have r1: "in_range 128 191 c1" using *(2) by (rule in_range_mono) auto
    have k: "cont_bits c1 < 64" "cont_bits c2 < 64" using r1 *(3) by (auto intro: cont_bits_less)
    have big: "?b = 224 \<Longrightarrow> 32 \<le> cont_bits c1" using *(2) unfolding in_range_def cont_bits_def by auto
    have "2048 \<le> r" "r < 65536" using big k *(4) 3(1,2) by linarith+
    with base64_digits3 [OF k *(4)] have "encode_rune r = [c, c1, c2]"
      using 3(1) cont_char [OF r1] cont_char [OF *(3)] by (simp add: encode_rune_def)
    with 3(1,2) * show ?thesis by (simp add: decode_rune.simps decode3_def)
  next
    case 4
    from decode4_ok [OF 4(3) assms(2)] obtain c1 c2 c3 t1 where *: "cs = c1 # c2 # c3 # t1"
      "in_range (if ?b = 240 then 144 else 128) (if ?b = 244 then 143 else 191) c1"
      "in_range 128 191 c2" "in_range 128 191 c3"
      "r = (?b - 240) * 262144 + cont_bits c1 * 4096 + cont_bits c2 * 64 + cont_bits c3" "w = 4" .
    have r1: "in_range 128 191 c1" using *(2) by (rule in_range_mono) auto
    have k: "cont_bits c1 < 64" "cont_bits c2 < 64" "cont_bits c3 < 64"
      using r1 *(3,4) by (auto intro: cont_bits_less)
    have big: "?b = 240 \<Longrightarrow> 16 \<le> cont_bits c1" using *(2) unfolding in_range_def cont_bits_def by auto
    have "65536 \<le> r" using big k *(5) 4(1,2) by linarith
    with base64_digits4 [OF k *(5)] have "encode_rune r = [c, c1, c2, c3]"
      using 4(1) cont_char [OF r1] cont_char [OF *(3)] cont_char [OF *(4)] by (simp add: encode_rune_def)
    with 4(1,2) * show ?thesis by (simp add: decode_rune.simps decode4_def)
  qed
  then show "decode_rune (take w (c # cs) @ t) = (r, w)" and "length (take w (c # cs)) = w"
    and "encode_rune r = take w (c # cs)" by blast+
qed

definition valid_utf8 :: "string \<Rightarrow> bool" where
  "valid_utf8 s = list_all (\<lambda>(r, bs). \<not> (r = rune_error \<and> length bs = 1)) (runes s)"

lemma valid_utf8_Nil [simp]: "valid_utf8 []"
  by (simp add: valid_utf8_def)

lemma valid_utf8_step:
  assumes "valid_utf8 (c # cs)" "decode_rune (c # cs) = (r, w)"
  shows "\<not> (r = rune_error \<and> w = 1)" and "length (take w (c # cs)) = w"
    and "runes (c # cs) = (r, take w (c # cs)) # runes (drop w (c # cs))"
    and "valid_utf8 (drop w (c # cs))"
proof -
  from assms(2) show r: "runes (c # cs) = (r, take w (c # cs)) # runes (drop w (c # cs))"
    by (simp add: runes.simps(2))
  with assms(1) show "valid_utf8 (drop w (c # cs))" by (simp add: valid_utf8_def)
  from assms(1) r have "\<not> (r = rune_error \<and> length (take w (c # cs)) = 1)"
    by (simp add: valid_utf8_def)
  then show nv: "\<not> (r = rune_error \<and> w = 1)" by auto
  show "length (take w (c # cs)) = w" by (rule decode_rune_stable(2) [OF assms(2) nv])
qed

lemma runes_append: "valid_utf8 s \<Longrightarrow> runes (s @ t) = runes s @ runes t"
proof (induction s rule: runes.induct)
  case (2 c cs)
  obtain r w where rw: "decode_rune (c # cs) = (r, w)" by (cases "decode_rune (c # cs)")
  note st = valid_utf8_step [OF "2.prems" rw]
  have w: "w \<le> length (c # cs)" using st(2) by simp
  have z: "w - length (c # cs) = 0" using w by simp
  have tk: "take w ((c # cs) @ t) = take w (c # cs)"
    by (simp only: take_append z take_0 append_Nil2)
  have dr: "drop w ((c # cs) @ t) = drop w (c # cs) @ t"
    by (simp only: drop_append z drop_0)
  have "decode_rune (take w (c # cs) @ (drop w (c # cs) @ t)) = (r, w)"
    by (rule decode_rune_stable(1) [OF rw st(1)])
  then have "decode_rune ((c # cs) @ t) = (r, w)"
    by (simp only: append.assoc [symmetric] append_take_drop_id)
  then have "decode_rune (c # (cs @ t)) = (r, w)" by simp
  then have "runes ((c # cs) @ t) = (r, take w ((c # cs) @ t)) # runes (drop w ((c # cs) @ t))"
    by (simp add: runes.simps(2))
  also have "\<dots> = (r, take w (c # cs)) # runes (drop w (c # cs) @ t)"
    by (simp only: tk dr)
  also have "\<dots> = (r, take w (c # cs)) # runes (drop w (c # cs)) @ runes t"
    using "2.IH" [OF rw [symmetric] refl] st(4) by simp
  also have "\<dots> = runes (c # cs) @ runes t" using st(3) by simp
  finally show ?case .
qed simp

lemma valid_utf8_append [simp]: "valid_utf8 s \<Longrightarrow> valid_utf8 t \<Longrightarrow> valid_utf8 (s @ t)"
  using runes_append [of s t] by (simp add: valid_utf8_def)

lemma valid_utf8_ascii: "is_ascii s \<Longrightarrow> valid_utf8 s"
  by (auto simp: valid_utf8_def runes_ascii is_ascii_def list_all_iff rune_error_def)

lemma runes_chunk:
  assumes "valid_utf8 s" "(r, bs) \<in> set (runes s)"
  shows "runes bs = [(r, bs)] \<and> encode_rune r = bs \<and> valid_utf8 bs \<and> bs \<noteq> []"
  using assms
proof (induction s rule: runes.induct)
  case (2 c cs)
  obtain q w where rw: "decode_rune (c # cs) = (q, w)" by (cases "decode_rune (c # cs)")
  note st = valid_utf8_step [OF "2.prems"(1) rw]
  show ?case
  proof (cases "(r, bs) = (q, take w (c # cs))")
    case True
    have d: "decode_rune (take w (c # cs) @ []) = (q, w)" "encode_rune q = take w (c # cs)"
      by (rule decode_rune_stable(1) [OF rw st(1)], rule decode_rune_stable(3) [OF rw st(1)])
    have ne: "take w (c # cs) \<noteq> []" using st(2) decode_rune_width [of c cs] rw by auto
    then obtain x xs where x: "take w (c # cs) = x # xs" by (cases "take w (c # cs)") auto
    have len: "length (x # xs) = w" using st(2) unfolding x .
    have dx: "decode_rune (x # xs) = (q, w)" using d(1) unfolding x by simp
    have "runes (x # xs) = [(q, x # xs)]"
      using len dx by (simp add: runes.simps(2))
    moreover from this have "valid_utf8 (x # xs)" using st(1) len by (simp add: valid_utf8_def)
    moreover have "r = q" "bs = x # xs" using True x by simp_all
    ultimately show ?thesis using d(2) x by simp
  next
    case False
    with "2.prems" st(3) have "(r, bs) \<in> set (runes (drop w (c # cs)))" by auto
    with "2.IH" [OF rw [symmetric] refl st(4)] show ?thesis by blast
  qed
qed simp

end
