(* ===== verification/GoRunes.thy ===== *)
theory GoRunes
  imports Utf8
begin

text \<open>
  The \<open>strings\<close> functions that depend on UTF-8 and on Unicode white space,
  and quoting.
\<close>

section \<open>White space: \<open>strings.TrimSpace\<close> and \<open>strings.Fields\<close>\<close>

text \<open>\<open>unicode.IsSpace\<close>.\<close>

definition is_space :: "nat \<Rightarrow> bool" where
  "is_space r = (r = 32 \<or> (9 \<le> r \<and> r \<le> 13) \<or> r = 133 \<or> r = 160 \<or> r = 5760
                 \<or> (8192 \<le> r \<and> r \<le> 8202) \<or> r = 8232 \<or> r = 8233 \<or> r = 8239
                 \<or> r = 8287 \<or> r = 12288)"

definition trim_space :: "string \<Rightarrow> string" where
  "trim_space s =
     concat (map snd
       (rev (dropWhile (\<lambda>(r, _). is_space r)
         (rev (dropWhile (\<lambda>(r, _). is_space r) (runes s))))))"

fun fields_of :: "string \<Rightarrow> (nat \<times> string) list \<Rightarrow> string list" where
  "fields_of w [] = (if w = [] then [] else [w])"
| "fields_of w ((r, bs) # rs) =
     (if is_space r then (if w = [] then fields_of [] rs else w # fields_of [] rs)
      else fields_of (w @ bs) rs)"

definition fields :: "string \<Rightarrow> string list" where
  "fields s = fields_of [] (runes s)"

text \<open>A word of visible ASCII characters: one field, and nothing to trim.\<close>

definition is_word :: "string \<Rightarrow> bool" where
  "is_word s = (s \<noteq> [] \<and> list_all (\<lambda>c. 32 < (of_char c :: nat) \<and> (of_char c :: nat) < 127) s)"

lemma is_word_ascii: "is_word s \<Longrightarrow> is_ascii s"
  by (auto simp: is_word_def is_ascii_def list_all_iff)

lemma visible_not_space: "32 < r \<Longrightarrow> r < 127 \<Longrightarrow> \<not> is_space r"
  by (auto simp: is_space_def)

lemma fields_of_visible:
  "list_all (\<lambda>c. 32 < (of_char c :: nat) \<and> (of_char c :: nat) < 127) s \<Longrightarrow>
   fields_of w (map (\<lambda>c. (of_char c, [c])) s @ rs) = fields_of (w @ s) rs"
  by (induction s arbitrary: w) (auto simp: visible_not_space)

lemma fields_two_words:
  assumes "is_word a" "is_word b"
  shows "fields (a @ '' '' @ b @ [CHR 0x0A]) = [a, b]"
proof -
  have "runes (a @ '' '' @ b @ [CHR 0x0A]) =
      map (\<lambda>c. (of_char c, [c])) a @ (32, '' '') # map (\<lambda>c. (of_char c, [c])) b @ [(10, [CHR 0x0A])]"
    using assms by (simp add: runes_ascii is_word_ascii)
  then show ?thesis
    using assms by (simp add: fields_def fields_of_visible is_word_def is_space_def)
qed

lemma fields_word: "is_word a \<Longrightarrow> fields a = [a]"
  using fields_of_visible [of a "[]" "[]"] by (simp add: fields_def runes_ascii is_word_ascii is_word_def)

lemma fields_of_nonempty: "f \<in> set (fields_of w rs) \<Longrightarrow> f \<noteq> []"
  by (induction w rs rule: fields_of.induct) (auto split: if_splits)

lemma fields_nonempty: "f \<in> set (fields s) \<Longrightarrow> f \<noteq> []"
  by (auto simp: fields_def dest: fields_of_nonempty)

lemma trim_space_word: "is_word s \<Longrightarrow> trim_space s = s"
proof -
  assume w: "is_word s"
  let ?m = "map (\<lambda>c. (of_char c :: nat, [c])) s"
  have "\<forall>x \<in> set ?m. \<not> (\<lambda>(r, _). is_space r) x"
    using w by (auto simp: is_word_def list_all_iff visible_not_space)
  then have "dropWhile (\<lambda>(r, _). is_space r) ?m = ?m"
    and "dropWhile (\<lambda>(r, _). is_space r) (rev ?m) = rev ?m"
    by (metis (no_types, lifting) dropWhile_eq_self_iff hd_in_set)
       (metis (no_types, lifting) \<open>\<forall>x \<in> set ?m. \<not> (\<lambda>(r, _). is_space r) x\<close>
          dropWhile_eq_self_iff hd_in_set set_rev)
  moreover have "concat (map snd ?m) = s"
    by (induction s) auto
  ultimately show ?thesis
    using w by (simp add: trim_space_def runes_ascii is_word_ascii)
qed

text \<open>Trimming never lengthens a string, and a string of white space trims to nothing.\<close>

lemma length_concat_sublist:
  fixes xs :: "(nat \<times> string) list"
  shows "length (concat (map snd (rev (dropWhile P (rev (dropWhile Q xs)))))) \<le> length (concat (map snd xs))"
proof -
  have le: "length (concat (map snd (dropWhile R ys))) \<le> length (concat (map snd ys))"
    for R :: "nat \<times> string \<Rightarrow> bool" and ys
    by (induction ys) auto
  have "length (concat (map snd (rev zs))) = length (concat (map snd zs))" for zs :: "(nat \<times> string) list"
    by (induction zs) auto
  then show ?thesis using le [of P "rev (dropWhile Q xs)"] le [of Q xs] by simp
qed

lemma length_trim_space: "length (trim_space s) \<le> length s"
  using length_concat_sublist [of _ _ "runes s"] by (simp add: trim_space_def concat_runes)

section \<open>Quoting\<close>

text \<open>
  The \<open>%q\<close> verb (\<open>strconv.Quote\<close>), exact on ASCII text.  Bytes of
  multi-byte runes are copied, which is what \<open>Quote\<close> does for printable runes;
  the texts it is applied to only appear in error details.
\<close>

definition quote_char :: "char \<Rightarrow> string" where
  "quote_char c =
     (let b = of_char c :: nat in
      if c = CHR 0x22 then [CHR 0x5C, c]
      else if c = CHR 0x5C then [CHR 0x5C, c]
      else if b = 7 then [CHR 0x5C, CHR ''a'']
      else if b = 8 then [CHR 0x5C, CHR ''b'']
      else if b = 12 then [CHR 0x5C, CHR ''f'']
      else if b = 10 then [CHR 0x5C, CHR ''n'']
      else if b = 13 then [CHR 0x5C, CHR ''r'']
      else if b = 9 then [CHR 0x5C, CHR ''t'']
      else if b = 11 then [CHR 0x5C, CHR ''v'']
      else if b < 32 \<or> b = 127 then [CHR 0x5C, CHR ''x''] @ hex_encode [c]
      else [c])"

definition go_quote :: "string \<Rightarrow> string" where
  "go_quote s = CHR 0x22 # concat (map quote_char s) @ [CHR 0x22]"

end
