(* ===== verification/Json.thy ===== *)
theory Json
  imports GoRunes
begin

text \<open>
  \<open>encoding/json\<close>: the values, \<open>Marshal\<close>'s text for them and the decoder.
  The decoder works on the rune sequence of its input; an ill-formed byte inside a
  string becomes U+FFFD, as in Go.  Numbers keep their literal text, because the
  server decodes them into 64-bit integers only (\<open>1.0\<close> is refused there).
\<close>

datatype json =
    JNull
  | JBool bool
  | JNum string
  | JStr string
  | JArr "json list"
  | JObj "(string \<times> json) list"

type_synonym chunk = "nat \<times> string"

section \<open>Encoding\<close>

definition utf8_error :: string where
  "utf8_error = [CHR 0xEF, CHR 0xBF, CHR 0xBD]"

definition backslash :: char where
  "backslash = CHR 0x5C"

definition dquote :: char where
  "dquote = CHR 0x22"

text \<open>\<open>appendString\<close> with HTML escaping, one rune at a time.\<close>

fun json_esc :: "chunk \<Rightarrow> string" where
  "json_esc (r, bs) =
     (if r < 128 then
        (if r = 34 \<or> r = 92 then backslash # bs
         else if r = 8 then [backslash, CHR ''b'']
         else if r = 12 then [backslash, CHR ''f'']
         else if r = 10 then [backslash, CHR ''n'']
         else if r = 13 then [backslash, CHR ''r'']
         else if r = 9 then [backslash, CHR ''t'']
         else if r < 32 \<or> r = 60 \<or> r = 62 \<or> r = 38 then backslash # ''u00'' @ hex_encode bs
         else bs)
      else if r = rune_error \<and> length bs = 1 then backslash # ''ufffd''
      else if r = 8232 then backslash # ''u2028''
      else if r = 8233 then backslash # ''u2029''
      else bs)"

definition json_quote :: "string \<Rightarrow> string" where
  "json_quote s = dquote # concat (map json_esc (runes s)) @ [dquote]"

fun print_json :: "json \<Rightarrow> string" where
  "print_json JNull = ''null''"
| "print_json (JBool b) = (if b then ''true'' else ''false'')"
| "print_json (JNum n) = n"
| "print_json (JStr s) = json_quote s"
| "print_json (JArr xs) = ''['' @ join '','' (map print_json xs) @ '']''"
| "print_json (JObj kvs) =
     ''{'' @ join '','' (map (\<lambda>(k, v). json_quote k @ '':'' @ print_json v) kvs) @ ''}''"

section \<open>Decoding\<close>

definition is_ws :: "chunk \<Rightarrow> bool" where
  "is_ws c = (fst c = 32 \<or> fst c = 9 \<or> fst c = 10 \<or> fst c = 13)"

definition skip_ws :: "chunk list \<Rightarrow> chunk list" where
  "skip_ws cs = dropWhile is_ws cs"

definition hex_val :: "nat \<Rightarrow> nat option" where
  "hex_val r =
     (if 48 \<le> r \<and> r \<le> 57 then Some (r - 48)
      else if 97 \<le> r \<and> r \<le> 102 then Some (r - 87)
      else if 65 \<le> r \<and> r \<le> 70 then Some (r - 55)
      else None)"

fun hex4 :: "chunk list \<Rightarrow> (nat \<times> chunk list) option" where
  "hex4 (a # b # c # d # rest) =
     (case (hex_val (fst a), hex_val (fst b), hex_val (fst c), hex_val (fst d)) of
        (Some p, Some q, Some r, Some s) \<Rightarrow> Some (p * 4096 + q * 256 + r * 16 + s, rest)
      | _ \<Rightarrow> None)"
| "hex4 _ = None"

text \<open>A \<open>\u\<close> escape, its \<open>\u\<close> already read: a surrogate pair gives one rune, a lone
  surrogate gives U+FFFD.\<close>

definition unicode_escape :: "chunk list \<Rightarrow> (string \<times> chunk list) option" where
  "unicode_escape cs =
     (case hex4 cs of
        None \<Rightarrow> None
      | Some (u, rest) \<Rightarrow>
          if 55296 \<le> u \<and> u < 57344 then
            (case rest of
               x # y # rest1 \<Rightarrow>
                 (if fst x = 92 \<and> fst y = 117 then
                    (case hex4 rest1 of
                       Some (v, rest2) \<Rightarrow>
                         if u < 56320 \<and> 56320 \<le> v \<and> v < 57344
                         then Some (encode_rune (65536 + (u - 55296) * 1024 + (v - 56320)), rest2)
                         else Some (utf8_error, rest)
                     | None \<Rightarrow> Some (utf8_error, rest))
                  else Some (utf8_error, rest))
             | _ \<Rightarrow> Some (utf8_error, rest))
          else Some (encode_rune u, rest))"

definition string_escape :: "chunk list \<Rightarrow> (string \<times> chunk list) option" where
  "string_escape cs =
     (case cs of
        [] \<Rightarrow> None
      | (r, bs) # rest \<Rightarrow>
          if r = 34 \<or> r = 92 \<or> r = 47 then Some (bs, rest)
          else if r = 98 then Some ([CHR 0x08], rest)
          else if r = 102 then Some ([CHR 0x0C], rest)
          else if r = 110 then Some ([CHR 0x0A], rest)
          else if r = 114 then Some ([CHR 0x0D], rest)
          else if r = 116 then Some ([CHR 0x09], rest)
          else if r = 117 then unicode_escape rest
          else None)"

lemma hex4_length: "hex4 cs = Some (u, rest) \<Longrightarrow> length rest < length cs"
  by (induction cs rule: hex4.induct) (auto split: option.splits)

lemma unicode_escape_length: "unicode_escape cs = Some (out, rest) \<Longrightarrow> length rest < length cs"
  by (auto simp: unicode_escape_def split: option.splits if_splits list.splits dest!: hex4_length)

lemma string_escape_length: "string_escape cs = Some (out, rest) \<Longrightarrow> length rest < length cs"
  by (auto simp: string_escape_def split: list.splits if_splits dest!: unicode_escape_length)

text \<open>The rest of a string after its opening quote: its value, and what follows it.\<close>

function parse_str :: "chunk list \<Rightarrow> (string \<times> chunk list) option" where
  "parse_str [] = None"
| "parse_str ((r, bs) # cs) =
     (if r = 34 then Some ([], cs)
      else if r = 92 then
        (case string_escape cs of
           None \<Rightarrow> None
         | Some (out, rest) \<Rightarrow> map_option (\<lambda>(s, t). (out @ s, t)) (parse_str rest))
      else if r < 32 then None
      else map_option (\<lambda>(s, t). ((if r = rune_error \<and> length bs = 1 then utf8_error else bs) @ s, t))
             (parse_str cs))"
  by pat_completeness auto
termination
  by (relation "measure length") (auto dest: string_escape_length)

declare parse_str.simps(2) [simp del]

definition is_digit_chunk :: "chunk \<Rightarrow> bool" where
  "is_digit_chunk c = (48 \<le> fst c \<and> fst c \<le> 57)"

definition take_digits :: "chunk list \<Rightarrow> string \<times> chunk list" where
  "take_digits cs = (concat (map snd (takeWhile is_digit_chunk cs)), dropWhile is_digit_chunk cs)"

definition parse_frac :: "chunk list \<Rightarrow> (string \<times> chunk list) option" where
  "parse_frac cs =
     (case cs of
        (r, bs) # rest \<Rightarrow>
          if r = 46 then
            (case take_digits rest of (ds, rest') \<Rightarrow> if ds = [] then None else Some (bs @ ds, rest'))
          else Some ([], cs)
      | [] \<Rightarrow> Some ([], cs))"

definition parse_exp :: "chunk list \<Rightarrow> (string \<times> chunk list) option" where
  "parse_exp cs =
     (case cs of
        (r, bs) # rest \<Rightarrow>
          if r = 101 \<or> r = 69 then
            (case (case rest of
                     (q, sg) # rest1 \<Rightarrow> if q = 43 \<or> q = 45 then (sg, rest1) else ([], rest)
                   | [] \<Rightarrow> ([], rest)) of
               (sg, rest1) \<Rightarrow>
                 (case take_digits rest1 of
                    (ds, rest2) \<Rightarrow> if ds = [] then None else Some (bs @ sg @ ds, rest2)))
          else Some ([], cs)
      | [] \<Rightarrow> Some ([], cs))"

definition parse_num :: "chunk list \<Rightarrow> (string \<times> chunk list) option" where
  "parse_num cs =
     (case (case cs of (r, bs) # rest \<Rightarrow> if r = 45 then (bs, rest) else ([], cs) | [] \<Rightarrow> ([], cs)) of
        (sg, cs1) \<Rightarrow>
          (case (case cs1 of
                   (r, bs) # rest \<Rightarrow> if r = 48 then (bs, rest) else take_digits cs1
                 | [] \<Rightarrow> ([], cs1)) of
             (ds, cs2) \<Rightarrow>
               if ds = [] then None
               else (case parse_frac cs2 of
                       None \<Rightarrow> None
                     | Some (fr, cs3) \<Rightarrow>
                         (case parse_exp cs3 of
                            None \<Rightarrow> None
                          | Some (ex, cs4) \<Rightarrow> Some (sg @ ds @ fr @ ex, cs4)))))"

fun eat :: "string \<Rightarrow> chunk list \<Rightarrow> chunk list option" where
  "eat [] cs = Some cs"
| "eat (c # lit) ((r, bs) # cs) = (if bs = [c] then eat lit cs else None)"
| "eat (c # lit) [] = None"

text \<open>The elements of an array and the members of an object, after the first; \<open>p\<close> reads
  one value, and \<open>n\<close> bounds the number of elements (each is at least one rune long).\<close>

fun parse_elems ::
  "(chunk list \<Rightarrow> (json \<times> chunk list) option) \<Rightarrow> nat \<Rightarrow> chunk list \<Rightarrow> (json list \<times> chunk list) option"
where
  "parse_elems p 0 cs = None"
| "parse_elems p (Suc n) cs =
     (case p cs of
        None \<Rightarrow> None
      | Some (v, rest) \<Rightarrow>
          (case skip_ws rest of
             (r, bs) # rest1 \<Rightarrow>
               if r = 44 then map_option (\<lambda>(vs, t). (v # vs, t)) (parse_elems p n rest1)
               else if r = 93 then Some ([v], rest1)
               else None
           | [] \<Rightarrow> None))"

definition parse_member ::
  "(chunk list \<Rightarrow> (json \<times> chunk list) option) \<Rightarrow> chunk list \<Rightarrow> ((string \<times> json) \<times> chunk list) option"
where
  "parse_member p cs =
     (case skip_ws cs of
        (r, bs) # cs1 \<Rightarrow>
          if r = 34 then
            (case parse_str cs1 of
               None \<Rightarrow> None
             | Some (k, cs2) \<Rightarrow>
                 (case skip_ws cs2 of
                    (q, bs') # cs3 \<Rightarrow>
                      if q = 58 then map_option (\<lambda>(v, t). ((k, v), t)) (p cs3) else None
                  | [] \<Rightarrow> None))
          else None
      | [] \<Rightarrow> None)"

fun parse_members ::
  "(chunk list \<Rightarrow> (json \<times> chunk list) option) \<Rightarrow> nat \<Rightarrow> chunk list
   \<Rightarrow> ((string \<times> json) list \<times> chunk list) option"
where
  "parse_members p 0 cs = None"
| "parse_members p (Suc n) cs =
     (case parse_member p cs of
        None \<Rightarrow> None
      | Some (kv, rest) \<Rightarrow>
          (case skip_ws rest of
             (r, bs) # rest1 \<Rightarrow>
               if r = 44 then map_option (\<lambda>(kvs, t). (kv # kvs, t)) (parse_members p n rest1)
               else if r = 125 then Some ([kv], rest1)
               else None
           | [] \<Rightarrow> None))"

definition parse_scalar :: "chunk list \<Rightarrow> (json \<times> chunk list) option" where
  "parse_scalar cs =
     (case cs of
        [] \<Rightarrow> None
      | (r, bs) # rest \<Rightarrow>
          if r = 34 then map_option (\<lambda>(s, t). (JStr s, t)) (parse_str rest)
          else if r = 116 then map_option (\<lambda>t. (JBool True, t)) (eat ''true'' cs)
          else if r = 102 then map_option (\<lambda>t. (JBool False, t)) (eat ''false'' cs)
          else if r = 110 then map_option (\<lambda>t. (JNull, t)) (eat ''null'' cs)
          else map_option (\<lambda>(n, t). (JNum n, t)) (parse_num cs))"

text \<open>One value, leading white space skipped; \<open>d\<close> is the nesting depth still allowed.\<close>

fun parse_value :: "nat \<Rightarrow> chunk list \<Rightarrow> (json \<times> chunk list) option" where
  "parse_value 0 cs =
     (case skip_ws cs of
        (r, bs) # rest \<Rightarrow> if r = 91 \<or> r = 123 then None else parse_scalar ((r, bs) # rest)
      | [] \<Rightarrow> None)"
| "parse_value (Suc d) cs =
     (case skip_ws cs of
        [] \<Rightarrow> None
      | (r, bs) # rest \<Rightarrow>
          if r = 91 then
            (case skip_ws rest of
               (q, bs') # rest1 \<Rightarrow>
                 if q = 93 then Some (JArr [], rest1)
                 else map_option (\<lambda>(vs, t). (JArr vs, t)) (parse_elems (parse_value d) (length rest) rest)
             | [] \<Rightarrow> None)
          else if r = 123 then
            (case skip_ws rest of
               (q, bs') # rest1 \<Rightarrow>
                 if q = 125 then Some (JObj [], rest1)
                 else map_option (\<lambda>(kvs, t). (JObj kvs, t)) (parse_members (parse_value d) (length rest) rest)
             | [] \<Rightarrow> None)
          else parse_scalar ((r, bs) # rest))"

text \<open>The decoder's limit (\<open>maxNestingDepth\<close>).\<close>

definition max_depth :: nat where
  "max_depth = 10000"

text \<open>\<open>json.Unmarshal\<close> into a value: exactly one value, white space around it.\<close>

definition parse_json :: "string \<Rightarrow> json option" where
  "parse_json s =
     (case parse_value max_depth (runes s) of
        None \<Rightarrow> None
      | Some (v, rest) \<Rightarrow> if skip_ws rest = [] then Some v else None)"

section \<open>Decoding what was encoded\<close>

text \<open>Numbers the server writes are 64-bit integers in decimal; strings are well-formed.\<close>

fun json_ok :: "json \<Rightarrow> bool" where
  "json_ok JNull = True"
| "json_ok (JBool b) = True"
| "json_ok (JNum n) = (\<exists>i. n = int_dec i)"
| "json_ok (JStr s) = valid_utf8 s"
| "json_ok (JArr xs) = (\<forall>x \<in> set xs. json_ok x)"
| "json_ok (JObj kvs) = (\<forall>kv \<in> set kvs. valid_utf8 (fst kv) \<and> json_ok (snd kv))"

fun json_depth :: "json \<Rightarrow> nat" where
  "json_depth (JArr xs) = Suc (Max (insert 0 (set (map json_depth xs))))"
| "json_depth (JObj kvs) = Suc (Max (insert 0 (set (map (\<lambda>kv. json_depth (snd kv)) kvs))))"
| "json_depth _ = 0"

text \<open>The rune after a number must not extend it.\<close>

definition stops :: "chunk list \<Rightarrow> bool" where
  "stops cs = (case cs of [] \<Rightarrow> True
     | (r, bs) # _ \<Rightarrow> \<not> (48 \<le> r \<and> r \<le> 57) \<and> r \<noteq> 46 \<and> r \<noteq> 101 \<and> r \<noteq> 69)"

lemma hex_val_digit: "n < 16 \<Longrightarrow> hex_val (of_char (hex_digit n)) = Some n"
  by (auto simp: of_char_hex_digit hex_val_def)

lemma hex_digit_ascii: "n < 16 \<Longrightarrow> (of_char (hex_digit n) :: nat) < 128"
  by (simp add: of_char_hex_digit)

lemma json_esc_valid:
  assumes "valid_utf8 bs" "runes bs = [(r, bs)]" "encode_rune r = bs"
  shows "valid_utf8 (json_esc (r, bs))"
proof (cases "r < 128")
  case True
  with assms(3) have bs: "bs = [char_of r]" by (simp add: encode_rune_def)
  have "is_ascii (json_esc (r, bs))"
    using True by (auto simp: bs backslash_def Let_def hex_digit_ascii)
  then show ?thesis by (rule valid_utf8_ascii)
next
  case False
  then show ?thesis using assms(1)
    by (auto simp: backslash_def valid_utf8_ascii)
qed

lemma parse_str_escape:
  "string_escape cs = Some (out, rest) \<Longrightarrow>
   parse_str ((92, bs) # cs) = map_option (\<lambda>(s, t). (out @ s, t)) (parse_str rest)"
  by (simp add: parse_str.simps(2))

lemma parse_str_plain:
  "32 \<le> r \<Longrightarrow> r \<noteq> 34 \<Longrightarrow> r \<noteq> 92 \<Longrightarrow> \<not> (r = rune_error \<and> length bs = 1) \<Longrightarrow>
   parse_str ((r, bs) # cs) = map_option (\<lambda>(s, t). (bs @ s, t)) (parse_str cs)"
  by (auto simp: parse_str.simps(2))

lemma parse_str_json_esc:
  assumes "valid_utf8 bs" "runes bs = [(r, bs)]" "encode_rune r = bs"
  shows "parse_str (runes (json_esc (r, bs)) @ cs) = map_option (\<lambda>(s, t). (bs @ s, t)) (parse_str cs)"
proof (cases "r < 128")
  case True
  with assms(3) have bs: "bs = [char_of r]" by (simp add: encode_rune_def)
  have r16: "r div 16 < 16" "r mod 16 < 16" using True by auto
  have u: "hex4 ((48, x) # (48, y) # (of_char (hex_digit (r div 16)), z) # (of_char (hex_digit (r mod 16)), w) # cs)
      = Some (r, cs)" for x y z w
    using r16 by (simp add: hex_val_digit) (simp add: hex_val_def)
  then have e: "unicode_escape ((48, x) # (48, y) # (of_char (hex_digit (r div 16)), z) # (of_char (hex_digit (r mod 16)), w) # cs)
      = Some (bs, cs)" for x y z w
    using True assms(3) by (simp add: unicode_escape_def)
  consider (quoted) "r = 34 \<or> r = 92" | (short) "r \<in> {8, 9, 10, 12, 13}"
    | (hex) "r \<notin> {34, 92, 8, 9, 10, 12, 13}" "r < 32 \<or> r = 60 \<or> r = 62 \<or> r = 38"
    | (plain) "r \<notin> {34, 92, 60, 62, 38}" "32 \<le> r"
    by fastforce
  then show ?thesis
  proof cases
    case quoted
    then show ?thesis
      by (elim disjE)
        (simp_all add: bs backslash_def runes_ascii_Cons string_escape_def rune_error_def parse_str_escape)
  next
    case short
    then have "r = 8 \<or> r = 9 \<or> r = 10 \<or> r = 12 \<or> r = 13" by simp
    then show ?thesis
      by (elim disjE)
        (simp_all add: bs backslash_def runes_ascii_Cons string_escape_def rune_error_def parse_str_escape char_of_def bit_0)
  next
    case hex
    have "json_esc (r, bs) = [backslash, CHR ''u'', CHR ''0'', CHR ''0'', hex_digit (r div 16), hex_digit (r mod 16)]"
      using hex True by (auto simp: bs Let_def)
    then have "runes (json_esc (r, bs)) @ cs = (92, [backslash]) # (117, ''u'') # (48, ''0'') # (48, ''0'')
        # (of_char (hex_digit (r div 16)), [hex_digit (r div 16)]) # (of_char (hex_digit (r mod 16)), [hex_digit (r mod 16)]) # cs"
      using r16 by (simp add: backslash_def runes_ascii_Cons hex_digit_ascii)
    then show ?thesis
      using e by (simp add: parse_str_escape string_escape_def)
  next
    case plain
    with True show ?thesis
      by (simp add: bs runes_ascii_Cons parse_str_plain rune_error_def)
  qed
next
  case False
  have nv: "\<not> (r = rune_error \<and> length bs = 1)"
    using assms(1,2) by (simp add: valid_utf8_def)
  show ?thesis
  proof (cases "r = 8232 \<or> r = 8233")
    case True
    then have "json_esc (r, bs) = backslash # ''u202'' @ [if r = 8232 then CHR ''8'' else CHR ''9'']"
      using nv by auto
    then have "runes (json_esc (r, bs)) @ cs = (92, [backslash]) # (117, ''u'') # (50, ''2'') # (48, ''0'') # (50, ''2'')
        # (if r = 8232 then (56, ''8'') else (57, ''9'')) # cs"
      by (simp add: backslash_def runes_ascii_Cons)
    moreover have "unicode_escape ((50, ''2'') # (48, ''0'') # (50, ''2'') # (if r = 8232 then (56, ''8'') else (57, ''9'')) # cs)
        = Some (bs, cs)"
      using True assms(3) by (auto simp: unicode_escape_def hex_val_def)
    ultimately show ?thesis by (simp add: parse_str_escape string_escape_def)
  next
    case no: False
    with False nv have "json_esc (r, bs) = bs" by auto
    with False nv assms(2) show ?thesis by (simp add: parse_str_plain)
  qed
qed

lemma json_quote_valid:
  assumes "valid_utf8 s"
  shows "valid_utf8 (json_quote s)"
proof -
  have "valid_utf8 (concat (map json_esc xs))" if "set xs \<subseteq> set (runes s)" for xs
    using that
  proof (induction xs)
    case (Cons x xs)
    obtain r bs where x: "x = (r, bs)" by (cases x)
    with Cons.prems runes_chunk [OF assms, of r bs] have "valid_utf8 (json_esc x)"
      unfolding x by (intro json_esc_valid) auto
    with Cons show ?case by simp
  qed simp
  then have "valid_utf8 (concat (map json_esc (runes s)))" by blast
  then have "valid_utf8 ([dquote] @ concat (map json_esc (runes s)) @ [dquote])"
    by (intro valid_utf8_append valid_utf8_ascii [of "[dquote]"]) (auto simp: dquote_def)
  then show ?thesis by (simp add: json_quote_def)
qed

lemma runes_json_quote:
  assumes "valid_utf8 s"
  obtains body where "runes (json_quote s) = (34, [dquote]) # body"
    and "\<And>cs. parse_str (body @ cs) = Some (s, cs)"
proof
  show "runes (json_quote s) = (34, [dquote]) # runes (concat (map json_esc (runes s)) @ [dquote])"
    by (simp add: json_quote_def dquote_def runes_ascii_Cons)
  fix cs
  have "parse_str (runes (concat (map json_esc xs) @ [dquote]) @ cs) = Some (concat (map snd xs), cs)"
    if "set xs \<subseteq> set (runes s)" for xs
    using that
  proof (induction xs)
    case Nil
    show ?case by (simp add: dquote_def runes_ascii_Cons parse_str.simps(2))
  next
    case (Cons x xs)
    obtain r bs where x: "x = (r, bs)" by (cases x)
    with Cons.prems runes_chunk [OF assms, of r bs]
    have ch: "valid_utf8 bs" "runes bs = [(r, bs)]" "encode_rune r = bs" by auto
    have "runes (json_esc x @ concat (map json_esc xs) @ [dquote])
        = runes (json_esc x) @ runes (concat (map json_esc xs) @ [dquote])"
      unfolding x by (rule runes_append) (rule json_esc_valid [OF ch])
    with Cons parse_str_json_esc [OF ch] show ?case by (simp add: x)
  qed
  from this [of "runes s"] show "parse_str (runes (concat (map json_esc (runes s)) @ [dquote]) @ cs) = Some (s, cs)"
    by (simp add: concat_runes)
qed

subsection \<open>Numbers\<close>

lemma nat_dec_first:
  obtains c ds where "nat_dec n = c # ds" "c = CHR ''0'' \<longleftrightarrow> n = 0"
proof -
  have "\<exists>c ds. nat_dec n = c # ds \<and> (c = CHR ''0'' \<longleftrightarrow> n = 0)"
  proof (induction n rule: nat_dec.induct)
    case (1 n)
    show ?case
    proof (cases "n < 10")
      case True
      then have "nat_dec n = [digit_char n]" by (subst nat_dec.simps) simp
      moreover have "digit_char n = CHR ''0'' \<longleftrightarrow> n = 0"
        using of_char_digit_char [OF True] by (auto simp: digit_char_def char_of_def bit_0)
      ultimately show ?thesis by blast
    next
      case False
      from "1.IH" [OF False] obtain c ds where
        "nat_dec (n div 10) = c # ds" "c = CHR ''0'' \<longleftrightarrow> n div 10 = 0" by (elim exE conjE)
      moreover have "nat_dec n = nat_dec (n div 10) @ [digit_char (n mod 10)]"
        using False by (subst nat_dec.simps) simp
      ultimately show ?thesis using False by auto
    qed
  qed
  then show thesis using that by blast
qed

lemma is_ascii_nat_dec: "is_ascii (nat_dec n)"
  using nat_dec_digits by (fastforce simp: is_ascii_def list_all_iff)

lemma is_ascii_int_dec: "is_ascii (int_dec i)"
  by (simp add: int_dec_def is_ascii_nat_dec)

abbreviation ascii_runes :: "string \<Rightarrow> chunk list" where
  "ascii_runes s \<equiv> map (\<lambda>c. (of_char c, [c])) s"

lemma take_digits_run:
  assumes "\<And>c. c \<in> set ds \<Longrightarrow> 48 \<le> (of_char c :: nat) \<and> (of_char c :: nat) \<le> 57" "stops cs"
  shows "take_digits (ascii_runes ds @ cs) = (ds, cs)"
proof -
  have st: "takeWhile is_digit_chunk cs = []" "dropWhile is_digit_chunk cs = cs"
    using assms(2) by (cases cs; auto simp: stops_def is_digit_chunk_def split: prod.splits)+
  have "\<forall>x \<in> set (ascii_runes ds). is_digit_chunk x"
    using assms(1) by (auto simp: is_digit_chunk_def)
  then have "takeWhile is_digit_chunk (ascii_runes ds @ cs) = ascii_runes ds"
    "dropWhile is_digit_chunk (ascii_runes ds @ cs) = cs"
    by (simp_all add: takeWhile_append dropWhile_append st)
  moreover have "concat (map snd (ascii_runes ds)) = ds" by (induction ds) auto
  ultimately show ?thesis by (simp add: take_digits_def)
qed

lemma stops_frac: "stops cs \<Longrightarrow> parse_frac cs = Some ([], cs)"
  and stops_exp: "stops cs \<Longrightarrow> parse_exp cs = Some ([], cs)"
  by (auto simp: stops_def parse_frac_def parse_exp_def split: list.splits)

lemma parse_num_nat:
  assumes "stops cs"
  shows "(case (case ascii_runes (nat_dec n) @ cs of
            (r, bs) # rest \<Rightarrow> if r = 48 then (bs, rest) else take_digits (ascii_runes (nat_dec n) @ cs)
          | [] \<Rightarrow> ([], ascii_runes (nat_dec n) @ cs)) of
          (ds, cs2) \<Rightarrow> P ds cs2) = P (nat_dec n) cs"
proof (cases "n = 0")
  case True
  then have "nat_dec n = ''0''" by (simp add: nat_dec.simps digit_char_def char_of_def bit_0)
  then show ?thesis by simp
next
  case False
  obtain c ds where c: "nat_dec n = c # ds" "c \<noteq> CHR ''0''"
    using nat_dec_first [of n] False by metis
  have "(of_char c :: nat) \<noteq> 48"
    using c(2) of_char_eq_iff [of c "CHR ''0''"] by simp
  moreover have "take_digits (ascii_runes (nat_dec n) @ cs) = (nat_dec n, cs)"
    using nat_dec_digits assms by (intro take_digits_run) blast+
  ultimately show ?thesis using c(1) by simp
qed

lemma parse_num_int_dec:
  assumes "stops cs"
  shows "parse_num (ascii_runes (int_dec i) @ cs) = Some (int_dec i, cs)"
proof (cases "i < 0")
  case True
  then show ?thesis
    by (simp add: parse_num_def int_dec_def parse_num_nat [OF assms] stops_frac [OF assms] stops_exp [OF assms])
next
  case False
  let ?n = "nat i"
  obtain c ds where c: "nat_dec ?n = c # ds" by (cases "nat_dec ?n") auto
  have "48 \<le> (of_char c :: nat)" using nat_dec_digits [of c ?n] c by simp
  then have "(case ascii_runes (nat_dec ?n) @ cs of (r, bs) # rest \<Rightarrow>
      if r = 45 then (bs, rest) else ([], ascii_runes (nat_dec ?n) @ cs) | [] \<Rightarrow> ([], ascii_runes (nat_dec ?n) @ cs))
      = ([], ascii_runes (nat_dec ?n) @ cs)"
    by (simp add: c)
  then show ?thesis using False
    by (simp only: parse_num_def int_dec_def if_False prod.case parse_num_nat [OF assms])
      (simp add: stops_frac [OF assms] stops_exp [OF assms])
qed

subsection \<open>Values\<close>

lemma eat_run: "is_ascii lit \<Longrightarrow> eat lit (ascii_runes lit @ cs) = Some cs"
  by (induction lit) auto

lemma int_dec_first:
  obtains c ds where "int_dec i = c # ds" "(of_char c :: nat) = 45 \<or> (48 \<le> (of_char c :: nat) \<and> (of_char c :: nat) \<le> 57)"
proof (cases "i < 0")
  case True
  with that show thesis by (simp add: int_dec_def)
next
  case False
  obtain c ds where c: "nat_dec (nat i) = c # ds" by (cases "nat_dec (nat i)") auto
  with nat_dec_digits [of c "nat i"] False that show thesis by (simp add: int_dec_def)
qed

lemma valid_utf8_Cons [simp]: "(of_char c :: nat) < 128 \<Longrightarrow> valid_utf8 (c # s) \<longleftrightarrow> valid_utf8 s"
  by (simp add: valid_utf8_def runes_ascii_Cons rune_error_def)

lemma valid_utf8_join: "is_ascii sep \<Longrightarrow> \<forall>y \<in> set ys. valid_utf8 y \<Longrightarrow> valid_utf8 (join sep ys)"
  by (induction sep ys rule: join.induct) (auto simp: valid_utf8_ascii)

lemma print_json_valid: "json_ok j \<Longrightarrow> valid_utf8 (print_json j)"
proof (induction j)
  case (JArr xs)
  then have "valid_utf8 (join '','' (map print_json xs))" by (intro valid_utf8_join) auto
  then show ?case by simp
next
  case (JObj kvs)
  then show ?case by (fastforce intro!: valid_utf8_join valid_utf8_append json_quote_valid)
qed (auto simp: valid_utf8_ascii is_ascii_int_dec json_quote_valid)

lemma print_json_first:
  assumes "json_ok j"
  obtains c ds where "print_json j = c # ds" "(of_char c :: nat) < 128"
    "(of_char c :: nat) \<notin> {32, 9, 10, 13, 93, 125}"
    "(of_char c :: nat) \<in> {91, 123} \<longleftrightarrow> (\<exists>xs. j = JArr xs) \<or> (\<exists>kvs. j = JObj kvs)"
proof (cases j)
  case (JNum n)
  with assms obtain i where "n = int_dec i" by auto
  moreover obtain c ds where "int_dec i = c # ds"
    "(of_char c :: nat) = 45 \<or> (48 \<le> (of_char c :: nat) \<and> (of_char c :: nat) \<le> 57)"
    by (rule int_dec_first)
  ultimately show thesis using that JNum by fastforce
next
  case (JBool b)
  with that show thesis by (cases b) auto
qed (use that in \<open>auto simp: json_quote_def dquote_def\<close>)

lemma print_json_nonempty: "json_ok j \<Longrightarrow> print_json j \<noteq> []"
  by (metis list.discI print_json_first)

lemma runes_print_first:
  assumes "json_ok j"
  obtains r bs t where "runes (print_json j) = (r, bs) # t" "r \<notin> {32, 9, 10, 13, 93, 125}"
    "r \<in> {91, 123} \<longleftrightarrow> (\<exists>xs. j = JArr xs) \<or> (\<exists>kvs. j = JObj kvs)"
  using print_json_first [OF assms] that by (metis runes_ascii_Cons)

lemma skip_ws_no: "r \<notin> {32, 9, 10, 13} \<Longrightarrow> skip_ws ((r, bs) # cs) = (r, bs) # cs"
  by (simp add: skip_ws_def is_ws_def)

lemma parse_value_scalar:
  assumes "r \<notin> {32, 9, 10, 13, 91, 123}"
  shows "parse_value d ((r, bs) # cs) = parse_scalar ((r, bs) # cs)"
  using assms by (cases d) (auto simp: skip_ws_no)

lemma parse_scalar_print:
  assumes "json_ok j" "\<nexists>xs. j = JArr xs" "\<nexists>kvs. j = JObj kvs" "stops cs"
  shows "parse_scalar (runes (print_json j) @ cs) = Some (j, cs)"
proof (cases j)
  case (JStr s)
  with assms(1) have "valid_utf8 s" by simp
  from runes_json_quote [OF this] obtain body where
    "runes (json_quote s) = (34, [dquote]) # body" "\<And>cs. parse_str (body @ cs) = Some (s, cs)" by blast
  then show ?thesis by (simp add: JStr parse_scalar_def)
next
  case (JNum n)
  with assms(1) obtain i where i: "n = int_dec i" by auto
  obtain c ds where c: "int_dec i = c # ds"
    "(of_char c :: nat) = 45 \<or> (48 \<le> (of_char c :: nat) \<and> (of_char c :: nat) \<le> 57)"
    by (rule int_dec_first)
  have "runes (print_json j) @ cs = ascii_runes (int_dec i) @ cs"
    by (simp add: JNum i runes_ascii is_ascii_int_dec)
  moreover have "parse_scalar (ascii_runes (int_dec i) @ cs)
      = map_option (\<lambda>(n, t). (JNum n, t)) (parse_num (ascii_runes (int_dec i) @ cs))"
    using c by (auto simp: parse_scalar_def)
  ultimately show ?thesis by (simp add: parse_num_int_dec [OF assms(4)] JNum i)
qed (use assms in \<open>auto simp: runes_ascii parse_scalar_def\<close>)

lemma length_runes_ge: "valid_utf8 s \<Longrightarrow> s \<noteq> [] \<Longrightarrow> 1 \<le> length (runes s)"
  by (cases s) (auto simp: runes.simps(2) split: prod.splits)

lemma length_runes_join:
  "\<forall>y \<in> set ys. valid_utf8 y \<and> y \<noteq> [] \<Longrightarrow> length ys \<le> length (runes (join '','' ys))"
proof (induction "'',''" ys rule: join.induct)
  case (3 x y ys)
  then have "length (runes (x @ '','' @ join '','' (y # ys)))
      = length (runes x) + Suc (length (runes (join '','' (y # ys))))"
    by (simp add: runes_append runes_ascii_Cons)
  with 3 length_runes_ge [of x] show ?case by simp
qed (auto dest: length_runes_ge)


lemma parse_elems_print:
  assumes "xs \<noteq> []" "length xs \<le> n" "\<forall>x \<in> set xs. json_ok x"
    and "\<And>x cs. x \<in> set xs \<Longrightarrow> stops cs \<Longrightarrow> p (runes (print_json x) @ cs) = Some (x, cs)"
  shows "parse_elems p n (runes (join '','' (map print_json xs)) @ (93, '']'') # cs) = Some (xs, cs)"
  using assms
proof (induction xs arbitrary: n rule: list_nonempty_induct)
  case (single x)
  then obtain m where "n = Suc m" by (cases n) auto
  with single show ?case by (simp add: stops_def skip_ws_no)
next
  case (cons x xs)
  then obtain m where n: "n = Suc m" by (cases n) auto
  from cons.hyps have j: "join '','' (map print_json (x # xs)) = print_json x @ '','' @ join '','' (map print_json xs)"
    by (cases xs) auto
  have "runes (join '','' (map print_json (x # xs)))
      = runes (print_json x) @ (44, '','') # runes (join '','' (map print_json xs))"
    unfolding j using cons.prems(2) by (simp add: runes_append print_json_valid runes_ascii_Cons)
  moreover have "parse_elems p m (runes (join '','' (map print_json xs)) @ (93, '']'') # cs) = Some (xs, cs)"
    using cons n by (intro cons.IH) auto
  ultimately show ?case using cons.prems(3) by (simp add: n stops_def skip_ws_no)
qed

definition print_member :: "string \<times> json \<Rightarrow> string" where
  "print_member kv = json_quote (fst kv) @ '':'' @ print_json (snd kv)"

lemma print_json_obj: "print_json (JObj kvs) = ''{'' @ join '','' (map print_member kvs) @ ''}''"
proof -
  have "(\<lambda>(k, v). json_quote k @ '':'' @ print_json v) = print_member"
    by (simp add: fun_eq_iff print_member_def)
  then show ?thesis by simp
qed

lemma print_member_valid:
  "valid_utf8 (fst kv) \<Longrightarrow> json_ok (snd kv) \<Longrightarrow> valid_utf8 (print_member kv)"
  by (simp add: print_member_def json_quote_valid print_json_valid)

lemma parse_member_print:
  assumes "valid_utf8 (fst kv)" "stops cs"
    and "\<And>cs. stops cs \<Longrightarrow> p (runes (print_json (snd kv)) @ cs) = Some (snd kv, cs)"
  shows "parse_member p (runes (print_member kv) @ cs) = Some (kv, cs)"
proof -
  from runes_json_quote [OF assms(1)] obtain body where b:
    "runes (json_quote (fst kv)) = (34, [dquote]) # body" "\<And>cs. parse_str (body @ cs) = Some (fst kv, cs)" by blast
  have "runes (print_member kv) @ cs = (34, [dquote]) # body @ (58, '':'') # runes (print_json (snd kv)) @ cs"
    using assms(1) by (simp add: print_member_def runes_append json_quote_valid b(1) runes_ascii_Cons)
  then show ?thesis
    using assms(2,3) by (simp add: parse_member_def skip_ws_no b(2))
qed

lemma parse_members_print:
  assumes "kvs \<noteq> []" "length kvs \<le> n" "\<forall>kv \<in> set kvs. valid_utf8 (fst kv) \<and> json_ok (snd kv)"
    and "\<And>kv cs. kv \<in> set kvs \<Longrightarrow> stops cs \<Longrightarrow> p (runes (print_json (snd kv)) @ cs) = Some (snd kv, cs)"
  shows "parse_members p n (runes (join '','' (map print_member kvs)) @ (125, ''}'') # cs) = Some (kvs, cs)"
  using assms
proof (induction kvs arbitrary: n rule: list_nonempty_induct)
  case (single kv)
  then obtain m where "n = Suc m" by (cases n) auto
  moreover have st: "stops ((125, ''}'') # cs)" by (simp add: stops_def)
  have "parse_member p (runes (print_member kv) @ (125, ''}'') # cs) = Some (kv, (125, ''}'') # cs)"
    using single by (intro parse_member_print [OF _ st]) auto
  ultimately show ?case by (simp add: skip_ws_no)
next
  case (cons kv kvs)
  then obtain m where n: "n = Suc m" by (cases n) auto
  from cons.hyps have j: "join '','' (map print_member (kv # kvs)) = print_member kv @ '','' @ join '','' (map print_member kvs)"
    by (cases kvs) auto
  have "runes (join '','' (map print_member (kv # kvs)))
      = runes (print_member kv) @ (44, '','') # runes (join '','' (map print_member kvs))"
    unfolding j using cons.prems(2) by (simp add: runes_append print_member_valid runes_ascii_Cons)
  moreover have "parse_members p m (runes (join '','' (map print_member kvs)) @ (125, ''}'') # cs) = Some (kvs, cs)"
    using cons n by (intro cons.IH) auto
  moreover have st: "stops ((44, '','') # ds)" for ds by (simp add: stops_def)
  have "parse_member p (runes (print_member kv) @ (44, '','') # ds) = Some (kv, (44, '','') # ds)" for ds
    using cons.prems by (intro parse_member_print [OF _ st]) auto
  ultimately show ?case by (simp add: n skip_ws_no)
qed

lemma json_depth_le:
  "json_depth (JArr xs) \<le> Suc d \<longleftrightarrow> (\<forall>x \<in> set xs. json_depth x \<le> d)"
  "json_depth (JObj kvs) \<le> Suc d \<longleftrightarrow> (\<forall>kv \<in> set kvs. json_depth (snd kv) \<le> d)"
  by auto

lemma parse_value_print_scalar:
  assumes "json_ok j" "\<nexists>xs. j = JArr xs" "\<nexists>kvs. j = JObj kvs" "stops cs"
  shows "parse_value d (runes (print_json j) @ cs) = Some (j, cs)"
proof (rule runes_print_first [OF assms(1)])
  fix r bs t
  assume f: "runes (print_json j) = (r, bs) # t" "r \<notin> {32, 9, 10, 13, 93, 125}"
    and "r \<in> {91, 123} \<longleftrightarrow> (\<exists>xs. j = JArr xs) \<or> (\<exists>kvs. j = JObj kvs)"
  with assms(2,3) have "r \<notin> {32, 9, 10, 13, 91, 123}" by blast
  with parse_scalar_print [OF assms] f show ?thesis by (simp add: parse_value_scalar)
qed

lemma parse_value_print:
  "json_ok j \<Longrightarrow> json_depth j \<le> d \<Longrightarrow> stops cs \<Longrightarrow> parse_value d (runes (print_json j) @ cs) = Some (j, cs)"
proof (induction j arbitrary: d cs)
  case (JArr xs)
  then obtain e where d: "d = Suc e" by (cases d) auto
  have all: "\<forall>x \<in> set xs. json_ok x \<and> json_depth x \<le> e" using JArr.prems d json_depth_le(1) by auto
  show ?case
  proof (cases "xs = []")
    case True
    then show ?thesis by (simp add: d runes_ascii_Cons skip_ws_no)
  next
    case False
    let ?r = "runes (join '','' (map print_json xs)) @ (93, '']'') # cs"
    have v: "\<forall>y \<in> set (map print_json xs). valid_utf8 y \<and> y \<noteq> []"
      using all print_json_valid print_json_nonempty by auto
    have eq: "runes (print_json (JArr xs)) @ cs = (91, ''['') # ?r"
      using v by (simp add: runes_ascii_Cons runes_append valid_utf8_join)
    have "parse_elems (parse_value e) (length ?r) ?r = Some (xs, cs)"
    proof (rule parse_elems_print)
      show "length xs \<le> length ?r" using length_runes_join [OF v] by simp
    qed (use False all JArr.IH in auto)
    moreover obtain r bs t where "?r = (r, bs) # t" "r \<notin> {32, 9, 10, 13, 93}"
    proof -
      obtain x ys where x: "xs = x # ys" using False by (cases xs) auto
      obtain r bs t where "runes (print_json x) = (r, bs) # t" "r \<notin> {32, 9, 10, 13, 93, 125}"
        using all x by (auto elim: runes_print_first [of x])
      moreover have "\<exists>u. runes (join '','' (map print_json xs)) = runes (print_json x) @ u"
        using all x by (cases ys) (auto simp: runes_append print_json_valid)
      ultimately show thesis using that by fastforce
    qed
    ultimately show ?thesis unfolding eq by (simp add: d skip_ws_no del: runes.simps)
  qed
next
  case (JObj kvs)
  then obtain e where d: "d = Suc e" by (cases d) auto
  have all: "\<forall>kv \<in> set kvs. valid_utf8 (fst kv) \<and> json_ok (snd kv) \<and> json_depth (snd kv) \<le> e"
    using JObj.prems d json_depth_le(2) by auto
  show ?case
  proof (cases "kvs = []")
    case True
    then show ?thesis by (simp add: d runes_ascii_Cons skip_ws_no)
  next
    case False
    let ?r = "runes (join '','' (map print_member kvs)) @ (125, ''}'') # cs"
    have v: "\<forall>y \<in> set (map print_member kvs). valid_utf8 y \<and> y \<noteq> []"
      using all by (auto simp: print_member_valid) (auto simp: print_member_def)
    have eq: "runes (print_json (JObj kvs)) @ cs = (123, ''{'') # ?r"
      unfolding print_json_obj using v by (simp add: runes_ascii_Cons runes_append valid_utf8_join)
    have "parse_members (parse_value e) (length ?r) ?r = Some (kvs, cs)"
    proof (rule parse_members_print)
      show "length kvs \<le> length ?r" using length_runes_join [OF v] by simp
      fix kv cs assume "kv \<in> set kvs" "stops cs"
      with all show "parse_value e (runes (print_json (snd kv)) @ cs) = Some (snd kv, cs)"
        using JObj.IH [of kv "snd kv"] by (cases kv) auto
    qed (use False all in auto)
    moreover obtain t where "?r = (34, [dquote]) # t"
    proof -
      obtain kv ys where x: "kvs = kv # ys" using False by (cases kvs) auto
      have "\<exists>u. join '','' (map print_member kvs) = dquote # u"
        using x by (cases ys) (auto simp: print_member_def json_quote_def)
      then show thesis using that by (auto simp: dquote_def runes_ascii_Cons)
    qed
    ultimately show ?thesis unfolding eq by (simp add: d skip_ws_no)
  qed
qed (rule parse_value_print_scalar; simp)+

lemma parse_print_json:
  assumes "json_ok j" "json_depth j \<le> max_depth"
  shows "parse_json (print_json j) = Some j"
  using parse_value_print [OF assms, of "[]"]
  by (simp add: parse_json_def stops_def skip_ws_def)

end
