(* ===== verification/DocTypes.thy ===== *)
theory DocTypes
  imports Json GoErrors
begin

text \<open>
  The struct types of \<open>store.go\<close> that callers see, and the JSON form of a
  rejected save.  A Go slice is a list behind an option: \<open>None\<close> is the nil slice,
  which JSON writes as \<open>null\<close>.
\<close>

type_synonym 'a slice = "'a list option"

fun elems :: "'a slice \<Rightarrow> 'a list" where
  "elems None = []"
| "elems (Some xs) = xs"

record doc_link =
  lk_relation :: string
  lk_collection :: string
  lk_family :: string
  lk_version :: int

record doc_save =
  s_title :: string
  s_status :: string
  s_tier :: string
  s_triggers :: "string slice"
  s_owner :: string
  s_audience :: string
  s_body :: string
  s_links :: "doc_link slice"
  s_editor :: string
  s_base :: "int option"

record doc_version =
  v_collection :: string
  v_family :: string
  v_version :: int
  v_status :: string
  v_created :: string
  v_editor :: string

record manifest_doc =
  md_path :: string
  md_family :: string
  md_version :: int
  md_sha :: string

record manifest =
  m_release :: int
  m_hash :: string
  m_created :: string
  m_docs :: "manifest_doc slice"
  m_resync :: bool

record doc_meta =
  dm_collection :: string
  dm_family :: string
  dm_version :: int
  dm_title :: string
  dm_status :: string
  dm_tier :: string
  dm_editor :: string
  dm_created :: string

record doc_full =
  df_meta :: doc_meta
  df_owner :: string
  df_audience :: string
  df_triggers :: "string list"
  df_body :: string
  df_links :: "doc_link list"

record conflict_meta =
  cm_id :: int
  cm_kind :: string
  cm_status :: string
  cm_collection :: string
  cm_family :: string
  cm_other_collection :: string
  cm_other_family :: string
  cm_base :: int
  cm_their :: int
  cm_attempts :: int
  cm_detail :: string
  cm_opened_by :: string
  cm_opened_at :: string
  cm_resolved_by :: string
  cm_resolved_at :: string
  cm_resolution :: string
  cm_winning :: int

record conflict =
  cf_meta :: conflict_meta
  cf_attempted :: "doc_save option"

record host_status =
  hs_host :: string
  hs_release :: int
  hs_ok :: bool
  hs_error :: string
  hs_seen :: string
  hs_resync_at :: string
  hs_token_at :: string

section \<open>Encoding\<close>

definition json_int :: "int \<Rightarrow> json" where
  "json_int i = JNum (int_dec i)"

fun json_slice :: "('a \<Rightarrow> json) \<Rightarrow> 'a slice \<Rightarrow> json" where
  "json_slice f None = JNull"
| "json_slice f (Some xs) = JArr (map f xs)"

definition link_json :: "doc_link \<Rightarrow> json" where
  "link_json l = JObj
     [(''relation'', JStr (lk_relation l)), (''collection'', JStr (lk_collection l)),
      (''family_id'', JStr (lk_family l)), (''version'', json_int (lk_version l))]"

definition doc_save_json :: "doc_save \<Rightarrow> json" where
  "doc_save_json d = JObj
     ([(''title'', JStr (s_title d)), (''status'', JStr (s_status d)), (''tier'', JStr (s_tier d)),
       (''triggers'', json_slice JStr (s_triggers d)), (''owner'', JStr (s_owner d)),
       (''audience'', JStr (s_audience d)), (''body'', JStr (s_body d)),
       (''links'', json_slice link_json (s_links d))]
      @ (case s_base d of None \<Rightarrow> [] | Some b \<Rightarrow> [(''base_version'', json_int b)]))"

definition marshal_doc_save :: "doc_save \<Rightarrow> string" where
  "marshal_doc_save d = print_json (doc_save_json d)"

section \<open>Decoding into a struct\<close>

text \<open>A key matches a field name up to case; of repeated keys the last one counts, and
  \<open>null\<close> leaves a field that is no pointer or slice alone.\<close>

definition fold_chunk :: "chunk \<Rightarrow> string" where
  "fold_chunk c =
     (if 65 \<le> fst c \<and> fst c \<le> 90 then [char_of (fst c + 32)]
      else if fst c = 383 then ''s''
      else if fst c = 8490 then ''k''
      else snd c)"

definition fold_key :: "string \<Rightarrow> string" where
  "fold_key k = concat (map fold_chunk (runes k))"

definition dec_field ::
  "string \<Rightarrow> (json \<Rightarrow> 'a \<Rightarrow> 'a option) \<Rightarrow> 'a \<Rightarrow> (string \<times> json) list \<Rightarrow> 'a option" where
  "dec_field name f init kvs =
     fold (\<lambda>(k, v) acc.
             if fold_key k = name then (case acc of None \<Rightarrow> None | Some a \<Rightarrow> f v a) else acc)
       kvs (Some init)"

fun dec_string :: "json \<Rightarrow> string \<Rightarrow> string option" where
  "dec_string (JStr s) a = Some s"
| "dec_string JNull a = Some a"
| "dec_string _ a = None"

fun dec_int :: "json \<Rightarrow> int \<Rightarrow> int option" where
  "dec_int (JNum n) a = parse_int64 n"
| "dec_int JNull a = Some a"
| "dec_int _ a = None"

fun dec_bool :: "json \<Rightarrow> bool \<Rightarrow> bool option" where
  "dec_bool (JBool b) a = Some b"
| "dec_bool JNull a = Some a"
| "dec_bool _ a = None"

definition dec_ptr :: "(json \<Rightarrow> 'a \<Rightarrow> 'a option) \<Rightarrow> 'a \<Rightarrow> json \<Rightarrow> 'a option \<Rightarrow> 'a option option" where
  "dec_ptr f zero v a = (if v = JNull then Some None else map_option Some (f v (coalesce a zero)))"

fun dec_list :: "(json \<Rightarrow> 'a \<Rightarrow> 'a option) \<Rightarrow> 'a \<Rightarrow> json list \<Rightarrow> 'a list option" where
  "dec_list f zero [] = Some []"
| "dec_list f zero (v # vs) =
     (case f v zero of None \<Rightarrow> None | Some x \<Rightarrow> map_option (\<lambda>xs. x # xs) (dec_list f zero vs))"

fun dec_slice :: "(json \<Rightarrow> 'a \<Rightarrow> 'a option) \<Rightarrow> 'a \<Rightarrow> json \<Rightarrow> 'a slice \<Rightarrow> 'a slice option" where
  "dec_slice f zero JNull a = Some None"
| "dec_slice f zero (JArr vs) a = map_option Some (dec_list f zero vs)"
| "dec_slice f zero _ a = None"

definition zero_link :: doc_link where
  "zero_link = \<lparr>lk_relation = [], lk_collection = [], lk_family = [], lk_version = 0\<rparr>"

fun dec_link :: "json \<Rightarrow> doc_link \<Rightarrow> doc_link option" where
  "dec_link (JObj kvs) a =
     (case (dec_field ''relation'' dec_string (lk_relation a) kvs,
            dec_field ''collection'' dec_string (lk_collection a) kvs,
            dec_field ''family_id'' dec_string (lk_family a) kvs,
            dec_field ''version'' dec_int (lk_version a) kvs) of
        (Some r, Some c, Some f, Some v) \<Rightarrow>
          Some \<lparr>lk_relation = r, lk_collection = c, lk_family = f, lk_version = v\<rparr>
      | _ \<Rightarrow> None)"
| "dec_link JNull a = Some a"
| "dec_link _ a = None"

definition zero_save :: doc_save where
  "zero_save = \<lparr>s_title = [], s_status = [], s_tier = [], s_triggers = None, s_owner = [],
     s_audience = [], s_body = [], s_links = None, s_editor = [], s_base = None\<rparr>"

fun dec_doc_save :: "json \<Rightarrow> doc_save \<Rightarrow> doc_save option" where
  "dec_doc_save (JObj kvs) a =
     (case (dec_field ''title'' dec_string (s_title a) kvs,
            dec_field ''status'' dec_string (s_status a) kvs,
            dec_field ''tier'' dec_string (s_tier a) kvs,
            dec_field ''triggers'' (dec_slice dec_string []) (s_triggers a) kvs,
            dec_field ''owner'' dec_string (s_owner a) kvs) of
        (Some t, Some st, Some ti, Some tr, Some ow) \<Rightarrow>
          (case (dec_field ''audience'' dec_string (s_audience a) kvs,
                 dec_field ''body'' dec_string (s_body a) kvs,
                 dec_field ''links'' (dec_slice dec_link zero_link) (s_links a) kvs,
                 dec_field ''base_version'' (dec_ptr dec_int 0) (s_base a) kvs) of
             (Some au, Some bo, Some li, Some ba) \<Rightarrow>
               Some \<lparr>s_title = t, s_status = st, s_tier = ti, s_triggers = tr, s_owner = ow,
                     s_audience = au, s_body = bo, s_links = li, s_editor = s_editor a, s_base = ba\<rparr>
           | _ \<Rightarrow> None)
      | _ \<Rightarrow> None)"
| "dec_doc_save JNull a = Some a"
| "dec_doc_save _ a = None"

definition unmarshal_doc_save :: "string \<Rightarrow> doc_save option" where
  "unmarshal_doc_save text =
     (case parse_json text of None \<Rightarrow> None | Some v \<Rightarrow> dec_doc_save v zero_save)"

section \<open>Round trip\<close>

text \<open>A save as the API decodes it: well-formed strings and 64-bit numbers.\<close>

definition wire_link :: "doc_link \<Rightarrow> bool" where
  "wire_link l = (valid_utf8 (lk_relation l) \<and> valid_utf8 (lk_collection l) \<and> valid_utf8 (lk_family l)
     \<and> int64_range (lk_version l))"

definition wire_save :: "doc_save \<Rightarrow> bool" where
  "wire_save d =
     (valid_utf8 (s_title d) \<and> valid_utf8 (s_status d) \<and> valid_utf8 (s_tier d)
      \<and> list_all valid_utf8 (elems (s_triggers d)) \<and> valid_utf8 (s_owner d)
      \<and> valid_utf8 (s_audience d) \<and> valid_utf8 (s_body d)
      \<and> list_all wire_link (elems (s_links d))
      \<and> (case s_base d of None \<Rightarrow> True | Some b \<Rightarrow> int64_range b))"

lemma runes_literal:
  "is_ascii s \<Longrightarrow> fold_key s = concat (map fold_chunk (map (\<lambda>c. (of_char c, [c])) s))"
  by (simp add: fold_key_def runes_ascii)

lemma fold_keys [simp]:
  "fold_key ''title'' = ''title''" "fold_key ''status'' = ''status''" "fold_key ''tier'' = ''tier''"
  "fold_key ''triggers'' = ''triggers''" "fold_key ''owner'' = ''owner''"
  "fold_key ''audience'' = ''audience''" "fold_key ''body'' = ''body''" "fold_key ''links'' = ''links''"
  "fold_key ''base_version'' = ''base_version''" "fold_key ''relation'' = ''relation''"
  "fold_key ''collection'' = ''collection''" "fold_key ''family_id'' = ''family_id''"
  "fold_key ''version'' = ''version''"
  by (simp_all add: runes_literal fold_chunk_def)

lemma dec_field_simps [simp]:
  "dec_field name f init [] = Some init"
  "fold_key k = name \<Longrightarrow> dec_field name f init ((k, v) # kvs) =
     (case f v init of None \<Rightarrow> None | Some a \<Rightarrow> dec_field name f a kvs)"
  "fold_key k \<noteq> name \<Longrightarrow> dec_field name f init ((k, v) # kvs) = dec_field name f init kvs"
proof -
  have none: "fold (\<lambda>(k, v) acc. if fold_key k = name
      then (case acc of None \<Rightarrow> None | Some a \<Rightarrow> f v a) else acc) kvs None = None"
    by (induction kvs) auto
  show "fold_key k = name \<Longrightarrow> dec_field name f init ((k, v) # kvs) =
     (case f v init of None \<Rightarrow> None | Some a \<Rightarrow> dec_field name f a kvs)"
    by (simp add: dec_field_def none split: option.split)
qed (simp_all add: dec_field_def)

lemma dec_list_map:
  "(\<And>x. x \<in> set xs \<Longrightarrow> f (g x) zero = Some x) \<Longrightarrow> dec_list f zero (map g xs) = Some xs"
  by (induction xs) auto

lemma dec_slice_json:
  "(\<And>x. x \<in> set (elems s) \<Longrightarrow> f (g x) zero = Some x) \<Longrightarrow> dec_slice f zero (json_slice g s) a = Some s"
  by (cases s) (auto simp: dec_list_map)

lemma dec_link_json: "wire_link l \<Longrightarrow> dec_link (link_json l) a = Some l"
  by (simp add: link_json_def json_int_def wire_link_def parse_int64_int_dec)

lemma dec_doc_save_json:
  assumes "wire_save d"
  shows "dec_doc_save (doc_save_json d) zero_save = Some (d\<lparr>s_editor := []\<rparr>)"
proof -
  have t: "dec_slice dec_string [] (json_slice JStr (s_triggers d)) a = Some (s_triggers d)" for a
    by (rule dec_slice_json) simp
  have l: "dec_slice dec_link zero_link (json_slice link_json (s_links d)) a = Some (s_links d)" for a
    using assms by (intro dec_slice_json dec_link_json) (auto simp: wire_save_def list_all_iff)
  show ?thesis
  proof (cases "s_base d")
    case None
    then show ?thesis by (simp add: doc_save_json_def t l zero_save_def)
  next
    case (Some b)
    with assms have "parse_int64 (int_dec b) = Some b"
      by (simp add: wire_save_def parse_int64_int_dec)
    with Some show ?thesis
      by (simp add: doc_save_json_def t l zero_save_def json_int_def dec_ptr_def)
  qed
qed

lemma doc_save_json_ok:
  assumes "wire_save d"
  shows "json_ok (doc_save_json d)" and "json_depth (doc_save_json d) \<le> max_depth"
proof -
  have link: "json_ok (link_json l)" if "wire_link l" for l
    using that by (auto simp: link_json_def json_int_def wire_link_def valid_utf8_ascii)
  have lok: "json_ok (json_slice link_json (s_links d))"
    using assms link by (cases "s_links d") (auto simp: wire_save_def list_all_iff)
  have tok: "json_ok (json_slice JStr (s_triggers d))"
    using assms by (cases "s_triggers d") (auto simp: wire_save_def list_all_iff)
  show "json_ok (doc_save_json d)"
    using assms lok tok
    by (auto simp: doc_save_json_def wire_save_def json_int_def valid_utf8_ascii split: option.split)
  have dl: "json_depth (json_slice link_json (s_links d)) \<le> 2"
    by (cases "s_links d") (auto simp: link_json_def json_int_def)
  have dt: "json_depth (json_slice JStr (s_triggers d)) \<le> 2"
    by (cases "s_triggers d") auto
  have "json_depth (doc_save_json d) \<le> Suc 2"
    unfolding doc_save_json_def json_depth_le
    using dl dt by (auto simp: json_int_def split: option.split)
  then show "json_depth (doc_save_json d) \<le> max_depth" by (simp add: max_depth_def)
qed

lemma unmarshal_marshal_doc_save:
  "wire_save d \<Longrightarrow> unmarshal_doc_save (marshal_doc_save d) = Some (d\<lparr>s_editor := []\<rparr>)"
  by (simp add: unmarshal_doc_save_def marshal_doc_save_def parse_print_json doc_save_json_ok
      dec_doc_save_json)

end
