(* ===== verification/Validate.thy ===== *)
theory Validate
  imports DocTypes GoRunes
begin

text \<open>
  \<open>validateIdent\<close> and \<open>validateDocSave\<close> of \<open>store.go\<close>: the checks every
  identifier and every save passes before a statement runs.  An error is
  \<open>Some\<close>, Go's \<open>nil\<close> is \<open>None\<close>.
\<close>

definition err_invalid :: "string \<Rightarrow> gerror" where
  "err_invalid msg = Wrapf ErrInvalid msg"

definition nul :: char where
  "nul = CHR 0x00"

fun ident_runes :: "string \<Rightarrow> string \<Rightarrow> chunk list \<Rightarrow> gerror option" where
  "ident_runes field value [] = None"
| "ident_runes field value ((r, bs) # rs) =
     (if r = 0 \<or> r < 32 \<or> r = 127
      then Some (err_invalid (field @ '' '' @ go_quote value @ '' contains control byte''))
      else if r > 127 then Some (err_invalid (field @ '' '' @ go_quote value @ '' is not ASCII''))
      else ident_runes field value rs)"

definition validateIdent :: "string \<Rightarrow> string \<Rightarrow> gerror option" where
  "validateIdent field value =
     (if value = [] then Some (err_invalid (''empty '' @ field))
      else if has_prefix value ''.''
        then Some (err_invalid (field @ '' '' @ go_quote value @ '' has leading '' @ [CHR 0x27] @ ''.'' @ [CHR 0x27]))
      else if contains_any value [CHR ''/'', backslash]
        then Some (err_invalid (field @ '' '' @ go_quote value @ '' contains path separator''))
      else if contains_sub value ''..''
        then Some (err_invalid (field @ '' '' @ go_quote value @ '' contains '' @ [CHR 0x27] @ ''..'' @ [CHR 0x27]))
      else ident_runes field value (runes value))"

fun check_triggers :: "string list \<Rightarrow> gerror option" where
  "check_triggers [] = None"
| "check_triggers (t # ts) =
     (if t = [] then Some (err_invalid ''trigger values must be non-empty'')
      else if contains_sub t '','' then
        Some (err_invalid (''trigger '' @ go_quote t @ '' contains '' @ [CHR 0x27] @ '','' @ [CHR 0x27]))
      else check_triggers ts)"

definition link_key :: "doc_link \<Rightarrow> string" where
  "link_key l = lk_relation l @ nul # lk_collection l @ nul # lk_family l @ nul # int_dec (lk_version l)"

text \<open>The loop over the links; \<open>i\<close> is the position and \<open>seen\<close> the keys so far.\<close>

fun check_links :: "nat \<Rightarrow> string list \<Rightarrow> doc_link list \<Rightarrow> gerror option" where
  "check_links i seen [] = None"
| "check_links i seen (l # ls) =
     (if lk_relation l \<noteq> ''reference'' \<and> lk_relation l \<noteq> ''supersedes'' then
        Some (err_invalid (''link '' @ nat_dec i @ '' relation must be reference or supersedes''))
      else case validateIdent ''link collection'' (lk_collection l) of
        Some e \<Rightarrow> Some e
      | None \<Rightarrow> (case validateIdent ''link family'' (lk_family l) of
          Some e \<Rightarrow> Some e
        | None \<Rightarrow>
            if lk_version l \<le> 0 then
              Some (err_invalid (''link '' @ nat_dec i @ '' version must be positive''))
            else if List.member seen (link_key l) then
              Some (err_invalid (''duplicate link at position '' @ nat_dec i))
            else check_links (Suc i) (link_key l # seen) ls))"

definition validateDocSave :: "doc_save \<Rightarrow> gerror option" where
  "validateDocSave inp =
     (if s_status inp \<noteq> ''draft'' \<and> s_status inp \<noteq> ''active''
      then Some (err_invalid ''status must be draft or active'')
      else case check_triggers (elems (s_triggers inp)) of
        Some e \<Rightarrow> Some e
      | None \<Rightarrow> check_links 0 [] (elems (s_links inp)))"

section \<open>What the checks accept\<close>

text \<open>The path-safe identifier shape, stated without reference to the checking order.\<close>

definition valid_ident :: "string \<Rightarrow> bool" where
  "valid_ident s \<longleftrightarrow>
     s \<noteq> [] \<and> hd s \<noteq> CHR ''.'' \<and> CHR ''/'' \<notin> set s \<and> backslash \<notin> set s
     \<and> \<not> contains_sub s ''..''
     \<and> (\<forall>c \<in> set s. 32 \<le> (of_char c :: nat) \<and> (of_char c :: nat) < 127)"

lemma ident_runes_None:
  "ident_runes field value (runes s) = None
     \<longleftrightarrow> (\<forall>c \<in> set s. 32 \<le> (of_char c :: nat) \<and> (of_char c :: nat) < 127)"
proof (induction s rule: runes.induct)
  case (2 c cs)
  show ?case
  proof (cases "(of_char c :: nat) < 128")
    case True
    have "decode_rune (c # cs) = (of_char c, 1)" using True by (simp add: decode_rune.simps)
    with True "2.IH" [of "(of_char c, 1)" "of_char c" 1] show ?thesis
      by (auto simp: runes_ascii_Cons)
  next
    case False
    obtain r w where rw: "decode_rune (c # cs) = (r, w)" by (cases "decode_rune (c # cs)")
    have "r > 127"
    proof (cases "r = rune_error \<and> w = 1")
      case no: False
      have e: "encode_rune r = take w (c # cs)" "length (take w (c # cs)) = w"
        by (rule decode_rune_stable(3) [OF rw no], rule decode_rune_stable(2) [OF rw no])
      then obtain m where w: "w = Suc m" using decode_rune_width [of c cs] rw by (cases w) auto
      have "r \<ge> 128"
      proof (rule ccontr)
        assume "\<not> r \<ge> 128"
        then have "encode_rune r = [char_of r]" by (simp add: encode_rune_def)
        with e(1) w have "char_of r = c" by simp
        then have "(of_char c :: nat) = r mod 256" by auto
        with \<open>\<not> r \<ge> 128\<close> False show False by simp
      qed
      then show ?thesis by simp
    qed (simp add: rune_error_def)
    with False rw show ?thesis by (auto simp: runes.simps(2))
  qed
qed simp

lemma validateIdent_None: "validateIdent field s = None \<longleftrightarrow> valid_ident s"
proof -
  have "has_prefix s ''.'' \<longleftrightarrow> hd s = CHR ''.''" if "s \<noteq> []"
    using that by (cases s) auto
  then show ?thesis
    by (auto simp: validateIdent_def valid_ident_def contains_any_iff ident_runes_None)
qed

lemma ident_runes_invalid: "ident_runes field v rs = Some e \<Longrightarrow> errors_is e ErrInvalid"
  by (induction field v rs rule: ident_runes.induct) (auto simp: err_invalid_def split: if_splits)

lemma validateIdent_invalid: "validateIdent field s = Some e \<Longrightarrow> errors_is e ErrInvalid"
  by (auto simp: validateIdent_def err_invalid_def dest: ident_runes_invalid split: if_splits)

lemma valid_ident_ascii: "valid_ident s \<Longrightarrow> is_ascii s"
  by (fastforce simp: valid_ident_def is_ascii_def list_all_iff)

lemma valid_ident_no_nul: "valid_ident s \<Longrightarrow> nul \<notin> set s"
  by (auto simp: valid_ident_def nul_def)

definition valid_link :: "doc_link \<Rightarrow> bool" where
  "valid_link l \<longleftrightarrow>
     (lk_relation l = ''reference'' \<or> lk_relation l = ''supersedes'')
     \<and> valid_ident (lk_collection l) \<and> valid_ident (lk_family l) \<and> 0 < lk_version l"

lemma append_sep_inj:
  "d \<notin> set a \<Longrightarrow> d \<notin> set b \<Longrightarrow> a @ d # x = b @ d # y \<longleftrightarrow> a = b \<and> x = y"
proof (induction a arbitrary: b)
  case Nil
  then show ?case by (cases b) auto
next
  case (Cons c a)
  then show ?case by (cases b) auto
qed

lemma int_dec_inj: "int_dec i = int_dec j \<Longrightarrow> 0 \<le> i \<Longrightarrow> 0 \<le> j \<Longrightarrow> i = j"
  by (auto simp: int_dec_def dest!: nat_dec_inj)

lemma link_key_inj:
  assumes "valid_link a" "valid_link b" "link_key a = link_key b"
  shows "a = b"
proof -
  have "nul \<notin> set (lk_relation a)" "nul \<notin> set (lk_relation b)"
    using assms(1,2) by (auto simp: valid_link_def nul_def)
  moreover have "nul \<notin> set (lk_collection a)" "nul \<notin> set (lk_collection b)"
      "nul \<notin> set (lk_family a)" "nul \<notin> set (lk_family b)"
    using assms(1,2) by (auto simp: valid_link_def dest!: valid_ident_no_nul)
  ultimately have "lk_relation a = lk_relation b" "lk_collection a = lk_collection b"
      "lk_family a = lk_family b" "int_dec (lk_version a) = int_dec (lk_version b)"
    using assms(3) by (simp_all add: link_key_def append_sep_inj)
  moreover have "0 \<le> lk_version a" "0 \<le> lk_version b" using assms(1,2) by (auto simp: valid_link_def)
  ultimately show ?thesis by (auto dest: int_dec_inj)
qed

lemma check_links_None_gen:
  assumes "\<forall>s \<in> set seen. \<exists>l \<in> L. valid_link l \<and> s = link_key l"
    and "\<forall>l \<in> L. link_key l \<in> set seen"
  shows "check_links i seen ls = None
           \<longleftrightarrow> (\<forall>l \<in> set ls. valid_link l) \<and> distinct ls \<and> set ls \<inter> L = {}"
  using assms
proof (induction ls arbitrary: i seen L)
  case (Cons l ls)
  show ?case
  proof (cases "valid_link l")
    case False
    then have "check_links i seen (l # ls) \<noteq> None"
      by (auto simp: valid_link_def validateIdent_None split: option.splits)
    with False show ?thesis by auto
  next
    case True
    then have step: "check_links i seen (l # ls) =
        (if link_key l \<in> set seen then Some (err_invalid (''duplicate link at position '' @ nat_dec i))
         else check_links (Suc i) (link_key l # seen) ls)"
      by (auto simp: valid_link_def validateIdent_None [THEN iffD2])
    have mem: "link_key l \<in> set seen \<longleftrightarrow> l \<in> L"
      using Cons.prems link_key_inj [OF True] by metis
    show ?thesis
    proof (cases "l \<in> L")
      case True
      with step mem show ?thesis by auto
    next
      case notin: False
      have "check_links (Suc i) (link_key l # seen) ls = None
          \<longleftrightarrow> (\<forall>l \<in> set ls. valid_link l) \<and> distinct ls \<and> set ls \<inter> insert l L = {}"
        using Cons.prems True by (intro Cons.IH) auto
      with step mem notin True show ?thesis by auto
    qed
  qed
qed simp

lemma check_links_None:
  "check_links 0 [] ls = None \<longleftrightarrow> (\<forall>l \<in> set ls. valid_link l) \<and> distinct ls"
  using check_links_None_gen [of "[]" "{}"] by simp

lemma check_triggers_None:
  "check_triggers ts = None \<longleftrightarrow> (\<forall>t \<in> set ts. t \<noteq> [] \<and> CHR '','' \<notin> set t)"
  by (induction ts) (auto simp: contains_sub_single)

definition valid_save :: "doc_save \<Rightarrow> bool" where
  "valid_save inp \<longleftrightarrow>
     (s_status inp = ''draft'' \<or> s_status inp = ''active'')
     \<and> (\<forall>t \<in> set (elems (s_triggers inp)). t \<noteq> [] \<and> CHR '','' \<notin> set t)
     \<and> (\<forall>l \<in> set (elems (s_links inp)). valid_link l) \<and> distinct (elems (s_links inp))"

lemma validateDocSave_None: "validateDocSave inp = None \<longleftrightarrow> valid_save inp"
  using check_triggers_None [of "elems (s_triggers inp)"]
  by (cases "check_triggers (elems (s_triggers inp))")
     (auto simp: validateDocSave_def valid_save_def check_links_None)

lemma check_links_invalid: "check_links i seen ls = Some e \<Longrightarrow> errors_is e ErrInvalid"
  by (induction i seen ls rule: check_links.induct)
    (auto simp: err_invalid_def dest: validateIdent_invalid split: if_splits option.splits)

lemma check_triggers_invalid: "check_triggers ts = Some e \<Longrightarrow> errors_is e ErrInvalid"
  by (induction ts) (auto simp: err_invalid_def split: if_splits)

lemma validateDocSave_invalid: "validateDocSave inp = Some e \<Longrightarrow> errors_is e ErrInvalid"
  by (auto simp: validateDocSave_def err_invalid_def split: if_splits option.splits
      dest: check_links_invalid check_triggers_invalid)

text \<open>Every validation error is a plain \<open>fmt.Errorf("%w: ...", ErrInvalid, ...)\<close>.\<close>

lemma ident_runes_wrap: "ident_runes field v rs = Some e \<Longrightarrow> \<exists>m. e = Wrapf ErrInvalid m"
  by (induction field v rs rule: ident_runes.induct) (auto simp: err_invalid_def split: if_splits)

lemma validateIdent_wrap: "validateIdent field s = Some e \<Longrightarrow> \<exists>m. e = Wrapf ErrInvalid m"
  by (auto simp: validateIdent_def err_invalid_def dest: ident_runes_wrap split: if_splits)

lemma check_links_wrap: "check_links i seen ls = Some e \<Longrightarrow> \<exists>m. e = Wrapf ErrInvalid m"
  by (induction i seen ls rule: check_links.induct)
    (auto simp: err_invalid_def dest: validateIdent_wrap split: if_splits option.splits)

lemma check_triggers_wrap: "check_triggers ts = Some e \<Longrightarrow> \<exists>m. e = Wrapf ErrInvalid m"
  by (induction ts) (auto simp: err_invalid_def split: if_splits)

lemma validateDocSave_wrap: "validateDocSave inp = Some e \<Longrightarrow> \<exists>m. e = Wrapf ErrInvalid m"
  by (auto simp: validateDocSave_def err_invalid_def split: if_splits option.splits
      dest: check_links_wrap check_triggers_wrap)

end
