(* ===== verification/History.thy ===== *)
theory History
  imports Db
begin

text \<open>
  What no operation of the store may do to data already stored: a relation between
  the database before and after, closed under composition.  Document versions,
  links, releases and release rows are never changed or removed, but for an active
  version that becomes superseded; a conflict record keeps its identity, its attempt
  count never falls, and once resolved it never changes again.
\<close>

section \<open>Tables that grow\<close>

definition grows :: "('a \<Rightarrow> 'a \<Rightarrow> bool) \<Rightarrow> 'a list \<Rightarrow> 'a list \<Rightarrow> bool" where
  "grows R xs ys \<longleftrightarrow> (\<exists>us vs. ys = us @ vs \<and> list_all2 R xs us)"

lemma grows_refl: "(\<And>x. R x x) \<Longrightarrow> grows R xs xs"
  unfolding grows_def by (rule exI [of _ xs], rule exI [of _ "[]"]) (simp add: list.rel_refl)

lemma list_all2_map_self: "(\<And>x. x \<in> set xs \<Longrightarrow> R x (g x)) \<Longrightarrow> list_all2 R xs (map g xs)"
  by (induction xs) auto

lemma grows_map: "(\<And>x. x \<in> set xs \<Longrightarrow> R x (g x)) \<Longrightarrow> grows R xs (map g xs @ zs)"
  unfolding grows_def using list_all2_map_self by blast

lemma grows_append: "(\<And>x. R x x) \<Longrightarrow> grows R xs (xs @ zs)"
  using grows_map [of xs R "\<lambda>x. x" zs] by simp

lemma grows_trans:
  assumes R: "\<And>x y z. R x y \<Longrightarrow> R y z \<Longrightarrow> R x z"
    and "grows R xs ys" "grows R ys zs"
  shows "grows R xs zs"
proof -
  from assms(2,3) obtain us vs ws ts where d: "ys = us @ vs" "list_all2 R xs us" "zs = ws @ ts" "list_all2 R (us @ vs) ws"
    by (auto simp: grows_def)
  then obtain w1 w2 where w: "ws = w1 @ w2" "list_all2 R us w1"
    by (auto simp: list_all2_append1)
  have "list_all2 R xs w1"
    by (rule list_all2_trans [OF _ d(2) w(2)]) (rule R)
  with d(3) w(1) show ?thesis unfolding grows_def by auto
qed

lemma grows_mem:
  assumes "grows R xs ys" "x \<in> set xs"
  obtains y where "y \<in> set ys" "R x y"
proof -
  from assms(1) obtain us vs where d: "ys = us @ vs" "list_all2 R xs us" by (auto simp: grows_def)
  from assms(2) obtain i where "i < length xs" "x = xs ! i" by (auto simp: in_set_conv_nth)
  with d(2) have "us ! i \<in> set us" "R x (us ! i)"
    by (auto simp: list_all2_lengthD list_all2_nthD intro!: nth_mem)
  with d(1) show thesis by (intro that [of "us ! i"]) auto
qed

definition appends :: "('a \<Rightarrow> 'k) \<Rightarrow> 'k set \<Rightarrow> 'a list \<Rightarrow> 'a list \<Rightarrow> bool" where
  "appends key old xs ys \<longleftrightarrow> (\<exists>zs. ys = xs @ zs \<and> (\<forall>z \<in> set zs. key z \<notin> old))"

lemma appends_refl [simp]: "appends key old xs xs"
  by (simp add: appends_def)

lemma appends_append: "(\<And>z. z \<in> set zs \<Longrightarrow> key z \<notin> old) \<Longrightarrow> appends key old xs (xs @ zs)"
  by (simp add: appends_def)

lemma appends_trans:
  assumes "appends key old xs ys" "appends key old' ys zs" "old \<subseteq> old'"
  shows "appends key old xs zs"
  using assms by (fastforce simp: appends_def)

text \<open>The rows that belong to an old key are the same ones, in the same order.\<close>

lemma appends_filter:
  assumes "appends key old xs ys" "k \<in> old"
  shows "filter (\<lambda>x. key x = k \<and> P x) ys = filter (\<lambda>x. key x = k \<and> P x) xs"
  using assms by (auto simp: appends_def filter_empty_conv)

section \<open>The relation\<close>

definition doc_step :: "doc_row \<Rightarrow> doc_row \<Rightarrow> bool" where
  "doc_step d d' \<longleftrightarrow> d' = d \<or> d_status d = ''active'' \<and> d' = d\<lparr>d_status := ''superseded''\<rparr>"

definition conflict_step :: "conflict_row \<Rightarrow> conflict_row \<Rightarrow> bool" where
  "conflict_step x y \<longleftrightarrow>
     x_id y = x_id x \<and> conflict_slot y = conflict_slot x \<and> x_other_collection y = x_other_collection x
     \<and> x_other_family y = x_other_family x \<and> x_attempts x \<le> x_attempts y
     \<and> (x_status x = ''resolved'' \<longrightarrow> y = x)"

definition history_kept :: "db \<Rightarrow> db \<Rightarrow> bool" where
  "history_kept db db' \<longleftrightarrow>
     collections db' = collections db
     \<and> grows doc_step (doc_versions db) (doc_versions db')
     \<and> appends l_doc (d_id ` set (doc_versions db)) (doc_links db) (doc_links db')
     \<and> appends r_id (r_id ` set (releases db)) (releases db) (releases db')
     \<and> appends rd_release (r_id ` set (releases db)) (release_docs db) (release_docs db')
     \<and> grows conflict_step (conflicts db) (conflicts db')"

lemma doc_step_refl [simp]: "doc_step d d"
  by (simp add: doc_step_def)

lemma doc_step_trans: "doc_step a b \<Longrightarrow> doc_step b c \<Longrightarrow> doc_step a c"
  by (auto simp: doc_step_def)

lemma doc_step_sel:
  assumes "doc_step d d'"
  shows "d_id d' = d_id d" "doc_key d' = doc_key d" "d_body d' = d_body d"
    "d' = d\<lparr>d_status := d_status d'\<rparr>"
  using assms by (auto simp: doc_step_def doc_key_def)

lemma conflict_step_refl [simp]: "conflict_step x x"
  by (simp add: conflict_step_def)

lemma conflict_step_trans: "conflict_step a b \<Longrightarrow> conflict_step b c \<Longrightarrow> conflict_step a c"
  by (auto simp: conflict_step_def)

lemma supersede_row_step: "doc_step d (supersede_row c f d)"
  by (simp add: doc_step_def supersede_row_def)

lemma history_refl [simp]: "history_kept db db"
  by (simp add: history_kept_def grows_refl)

lemma grows_ids: "grows doc_step xs ys \<Longrightarrow> d_id ` set xs \<subseteq> d_id ` set ys"
proof
  fix i assume g: "grows doc_step xs ys" and "i \<in> d_id ` set xs"
  then obtain d where d: "d \<in> set xs" "i = d_id d" by auto
  from g d(1) obtain d' where "d' \<in> set ys" "doc_step d d'" by (rule grows_mem)
  with d(2) show "i \<in> d_id ` set ys" by (metis doc_step_sel(1) imageI)
qed

lemma appends_ids: "appends key old xs ys \<Longrightarrow> f ` set xs \<subseteq> f ` set ys"
  by (auto simp: appends_def)

lemma history_trans:
  assumes "history_kept a b" "history_kept b c"
  shows "history_kept a c"
proof -
  have sub: "d_id ` set (doc_versions a) \<subseteq> d_id ` set (doc_versions b)"
      "r_id ` set (releases a) \<subseteq> r_id ` set (releases b)"
    using assms(1) unfolding history_kept_def by (blast dest: grows_ids, blast dest: appends_ids [where f = r_id])
  have "grows doc_step (doc_versions a) (doc_versions c)" "grows conflict_step (conflicts a) (conflicts c)"
    using assms unfolding history_kept_def
    by (blast intro: grows_trans doc_step_trans, blast intro: grows_trans conflict_step_trans)
  moreover have "appends l_doc (d_id ` set (doc_versions a)) (doc_links a) (doc_links c)"
    using assms sub(1) unfolding history_kept_def by (blast intro: appends_trans)
  moreover have "appends r_id (r_id ` set (releases a)) (releases a) (releases c)"
    "appends rd_release (r_id ` set (releases a)) (release_docs a) (release_docs c)"
    using assms sub(2) unfolding history_kept_def by (blast intro: appends_trans)+
  ultimately show ?thesis using assms by (simp add: history_kept_def)
qed

lemma history_frame [simp]:
  "history_kept db (db'\<lparr>heartbeats := h\<rparr>) = history_kept db db'"
  "history_kept db (db'\<lparr>resync_requests := r\<rparr>) = history_kept db db'"
  "history_kept db (db'\<lparr>host_tokens := t\<rparr>) = history_kept db db'"
  by (simp_all add: history_kept_def)

end
