(* ===== verification/SaveTx.thy ===== *)
theory SaveTx
  imports Db Validate History
begin

text \<open>
  \<open>saveDocTx\<close>, the part of a save that runs inside the caller's transaction, its
  guards and effect in closed form, and the invariant of the document tables.
\<close>

definition err_conflict :: "string \<Rightarrow> gerror" where
  "err_conflict msg = Wrapf ErrConflict msg"

definition self_link :: "string \<Rightarrow> string \<Rightarrow> int \<Rightarrow> doc_link slice \<Rightarrow> int option" where
  "self_link c f next links =
     map_option fst
       (List.find (\<lambda>(i, l). lk_collection l = c \<and> lk_family l = f \<and> lk_version l = next)
          (numbered (elems links)))"

definition new_doc_row :: "string \<Rightarrow> string \<Rightarrow> int \<Rightarrow> doc_save \<Rightarrow> string \<Rightarrow> doc_row" where
  "new_doc_row c f next inp created =
     \<lparr>d_id = 0, d_collection = c, d_family = f, d_version = next, d_title = s_title inp,
      d_status = s_status inp, d_owner = s_owner inp, d_audience = s_audience inp, d_tier = s_tier inp,
      d_triggers = join '','' (elems (s_triggers inp)), d_body = s_body inp, d_editor = s_editor inp,
      d_created = created\<rparr>"

definition new_link_row :: "int \<Rightarrow> int \<times> doc_link \<Rightarrow> link_row" where
  "new_link_row doc pl =
     \<lparr>l_doc = doc, l_position = fst pl, l_relation = lk_relation (snd pl),
      l_collection = lk_collection (snd pl), l_family = lk_family (snd pl),
      l_version = lk_version (snd pl)\<rparr>"

definition stale_base :: "doc_save \<Rightarrow> int \<Rightarrow> bool" where
  "stale_base inp current = (case s_base inp of None \<Rightarrow> False | Some b \<Rightarrow> b \<noteq> current)"

definition stale_error :: "doc_save \<Rightarrow> int \<Rightarrow> gerror" where
  "stale_error inp current =
     err_conflict (''base_version '' @ int_dec (coalesce (s_base inp) 0)
       @ '' does not match current '' @ int_dec current)"

definition saveDocTx :: "string \<Rightarrow> string \<Rightarrow> doc_save \<Rightarrow> doc_version store" where
  "saveDocTx c f inp =
     bindT (tx_query (\<lambda>db. count_collections db c)) (\<lambda>exists.
     if exists = 0 then fail (err_invalid (''unknown collection '' @ go_quote c)) else
     bindT (tx_query (\<lambda>db. max_version db c f)) (\<lambda>current.
     if stale_base inp current then fail (stale_error inp current) else
     case self_link c f (current + 1) (s_links inp) of
       Some i \<Rightarrow> fail (err_invalid (''link '' @ int_dec i @ '' targets the saved version itself''))
     | None \<Rightarrow>
     bindT (if s_status inp = ''active'' then tx_exec (supersede_active c f) else ret ()) (\<lambda>_.
     bindT get_time (\<lambda>created.
     bindT (tx_exec (insert_doc (new_doc_row c f (current + 1) inp created))) (\<lambda>docVersionID.
     bindT (for_each (\<lambda>pl. tx_exec (insert_link (new_link_row docVersionID pl)))
              (numbered (elems (s_links inp)))) (\<lambda>_.
     ret \<lparr>v_collection = c, v_family = f, v_version = current + 1, v_status = s_status inp,
          v_created = created, v_editor = s_editor inp\<rparr>))))))"

section \<open>Guards and effect in closed form\<close>

definition save_guard :: "db \<Rightarrow> string \<Rightarrow> string \<Rightarrow> doc_save \<Rightarrow> gerror option" where
  "save_guard db c f inp =
     (if count_collections db c = 0 then Some (err_invalid (''unknown collection '' @ go_quote c))
      else if stale_base inp (max_version db c f) then Some (stale_error inp (max_version db c f))
      else map_option (\<lambda>i. err_invalid (''link '' @ int_dec i @ '' targets the saved version itself''))
             (self_link c f (max_version db c f + 1) (s_links inp)))"

definition demoted_docs :: "db \<Rightarrow> string \<Rightarrow> string \<Rightarrow> doc_save \<Rightarrow> doc_row list" where
  "demoted_docs db c f inp =
     (if s_status inp = ''active'' then map (supersede_row c f) (doc_versions db) else doc_versions db)"

definition saved_row :: "db \<Rightarrow> string \<Rightarrow> string \<Rightarrow> doc_save \<Rightarrow> string \<Rightarrow> doc_row" where
  "saved_row db c f inp created =
     (new_doc_row c f (max_version db c f + 1) inp created)\<lparr>d_id := next_id (map d_id (doc_versions db))\<rparr>"

definition saved_links :: "db \<Rightarrow> doc_save \<Rightarrow> link_row list" where
  "saved_links db inp =
     map (new_link_row (next_id (map d_id (doc_versions db)))) (numbered (elems (s_links inp)))"

definition saved_db :: "db \<Rightarrow> string \<Rightarrow> string \<Rightarrow> doc_save \<Rightarrow> string \<Rightarrow> db" where
  "saved_db db c f inp created =
     db\<lparr>doc_versions := demoted_docs db c f inp @ [saved_row db c f inp created],
        doc_links := doc_links db @ saved_links db inp\<rparr>"

definition saved_version :: "db \<Rightarrow> string \<Rightarrow> string \<Rightarrow> doc_save \<Rightarrow> string \<Rightarrow> doc_version" where
  "saved_version db c f inp created =
     \<lparr>v_collection = c, v_family = f, v_version = max_version db c f + 1, v_status = s_status inp,
      v_created = created, v_editor = s_editor inp\<rparr>"

lemma supersede_row_sel [simp]:
  "d_id (supersede_row c f d) = d_id d" "d_collection (supersede_row c f d) = d_collection d"
  "d_family (supersede_row c f d) = d_family d" "d_version (supersede_row c f d) = d_version d"
  "d_title (supersede_row c f d) = d_title d" "d_owner (supersede_row c f d) = d_owner d"
  "d_audience (supersede_row c f d) = d_audience d" "d_tier (supersede_row c f d) = d_tier d"
  "d_triggers (supersede_row c f d) = d_triggers d" "d_body (supersede_row c f d) = d_body d"
  "d_editor (supersede_row c f d) = d_editor d" "d_created (supersede_row c f d) = d_created d"
  "doc_key (supersede_row c f d) = doc_key d" "doc_family (supersede_row c f d) = doc_family d"
  by (simp_all add: supersede_row_def doc_key_def doc_family_def)

lemma supersede_row_comp [simp]:
  "d_id \<circ> supersede_row c f = d_id" "doc_key \<circ> supersede_row c f = doc_key"
  by (simp_all add: fun_eq_iff)

lemma demoted_ids [simp]: "map d_id (demoted_docs db c f inp) = map d_id (doc_versions db)"
  by (simp add: demoted_docs_def)

section \<open>The invariant of the document tables\<close>

definition doc_status_ok :: "string \<Rightarrow> bool" where
  "doc_status_ok st \<longleftrightarrow> st = ''draft'' \<or> st = ''active'' \<or> st = ''superseded''"

definition stored_link_ok :: "link_row \<Rightarrow> bool" where
  "stored_link_ok l \<longleftrightarrow>
     (l_relation l = ''reference'' \<or> l_relation l = ''supersedes'')
     \<and> valid_ident (l_collection l) \<and> valid_ident (l_family l) \<and> 0 < l_version l \<and> 0 \<le> l_position l"

definition one_active :: "doc_row list \<Rightarrow> bool" where
  "one_active ds \<longleftrightarrow>
     (\<forall>d \<in> set ds. \<forall>d' \<in> set ds. doc_family d = doc_family d' \<longrightarrow> d_status d = ''active''
        \<longrightarrow> d_status d' = ''active'' \<longrightarrow> d = d')"

definition gapless :: "doc_row list \<Rightarrow> bool" where
  "gapless ds \<longleftrightarrow>
     (\<forall>d \<in> set ds. \<forall>k. 1 \<le> k \<and> k < d_version d \<longrightarrow>
        (\<exists>d' \<in> set ds. doc_family d' = doc_family d \<and> d_version d' = k))"

definition doc_row_ok :: "db \<Rightarrow> doc_row \<Rightarrow> bool" where
  "doc_row_ok db d \<longleftrightarrow>
     valid_ident (d_collection d) \<and> valid_ident (d_family d) \<and> 1 \<le> d_version d
     \<and> doc_status_ok (d_status d) \<and> d_collection d \<in> c_name ` set (collections db)"

definition links_inv :: "db \<Rightarrow> bool" where
  "links_inv db \<longleftrightarrow>
     (\<forall>l \<in> set (doc_links db). stored_link_ok l \<and> l_doc l \<in> d_id ` set (doc_versions db))
     \<and> distinct (map (\<lambda>l. (l_doc l, l_position l)) (doc_links db))
     \<and> distinct (map (\<lambda>l. (l_doc l, link_target l)) (doc_links db))"

definition docs_inv :: "db \<Rightarrow> bool" where
  "docs_inv db \<longleftrightarrow>
     distinct (map c_name (collections db))
     \<and> distinct (map d_id (doc_versions db)) \<and> distinct (map doc_key (doc_versions db))
     \<and> (\<forall>d \<in> set (doc_versions db). doc_row_ok db d)
     \<and> one_active (doc_versions db) \<and> gapless (doc_versions db) \<and> links_inv db"

lemma docs_inv_frame [simp]:
  "docs_inv (db\<lparr>conflicts := x\<rparr>) = docs_inv db" "docs_inv (db\<lparr>releases := y\<rparr>) = docs_inv db"
  "docs_inv (db\<lparr>release_docs := z\<rparr>) = docs_inv db" "docs_inv (db\<lparr>heartbeats := h\<rparr>) = docs_inv db"
  "docs_inv (db\<lparr>resync_requests := r\<rparr>) = docs_inv db" "docs_inv (db\<lparr>host_tokens := t\<rparr>) = docs_inv db"
  by (simp_all add: docs_inv_def doc_row_ok_def links_inv_def)

lemma docs_inv_initial: "docs_inv initial_db"
  by (simp add: docs_inv_def initial_db_def one_active_def gapless_def links_inv_def)

lemma family_rows_set: "d \<in> set (family_rows db c f) \<longleftrightarrow> d \<in> set (doc_versions db) \<and> doc_family d = (c, f)"
  by (auto simp: family_rows_def doc_family_def)

lemma max_version_ge: "d \<in> set (doc_versions db) \<Longrightarrow> doc_family d = (c, f) \<Longrightarrow> d_version d \<le> max_version db c f"
  unfolding max_version_def by (rule coalesce_max_ge) (auto simp: family_rows_set)

lemma max_version_in:
  assumes "max_version db c f \<noteq> 0"
  obtains d where "d \<in> set (doc_versions db)" "doc_family d = (c, f)" "d_version d = max_version db c f"
proof -
  have "family_rows db c f \<noteq> []" using assms by (auto simp: max_version_def)
  then have "max_version db c f \<in> set (map d_version (family_rows db c f))"
    unfolding max_version_def by (intro coalesce_max_in) simp
  with that show thesis by (auto simp: family_rows_set)
qed

lemma max_version_nonneg: "docs_inv db \<Longrightarrow> 0 \<le> max_version db c f"
proof (cases "max_version db c f = 0")
  case False
  assume inv: "docs_inv db"
  from False obtain d where "d \<in> set (doc_versions db)" "d_version d = max_version db c f"
    by (rule max_version_in)
  with inv have "1 \<le> max_version db c f" unfolding docs_inv_def doc_row_ok_def by metis
  then show ?thesis by simp
qed simp

lemma count_collections_0: "count_collections db c = 0 \<longleftrightarrow> c \<notin> c_name ` set (collections db)"
  by (auto simp: count_collections_def filter_empty_conv)

lemma demoted_mem:
  assumes "d \<in> set (demoted_docs db c f inp)"
  obtains o' where "o' \<in> set (doc_versions db)" "d = o' \<or> d = supersede_row c f o'"
  using assms that by (auto simp: demoted_docs_def split: if_splits)

lemma demoted_keys [simp]: "map doc_key (demoted_docs db c f inp) = map doc_key (doc_versions db)"
  by (simp add: demoted_docs_def)

lemma saved_key_fresh: "(c, f, max_version db c f + 1) \<notin> doc_key ` set (doc_versions db)"
  using max_version_ge [of _ db c f] by (fastforce simp: doc_key_def doc_family_def)

lemma saved_row_sel [simp]:
  "d_id (saved_row db c f inp t) = next_id (map d_id (doc_versions db))"
  "d_collection (saved_row db c f inp t) = c" "d_family (saved_row db c f inp t) = f"
  "d_version (saved_row db c f inp t) = max_version db c f + 1"
  "d_status (saved_row db c f inp t) = s_status inp" "d_body (saved_row db c f inp t) = s_body inp"
  "doc_key (saved_row db c f inp t) = (c, f, max_version db c f + 1)"
  "doc_family (saved_row db c f inp t) = (c, f)"
  by (simp_all add: saved_row_def new_doc_row_def doc_key_def doc_family_def)

text \<open>After the demotion no row of the family is active, and other families are untouched.\<close>

lemma supersede_row_cases:
  obtains "supersede_row c f d = d" "doc_family d \<noteq> (c, f) \<or> d_status d \<noteq> ''active''"
    | "d_status (supersede_row c f d) = ''superseded''"
  by (cases "d_collection d = c \<and> d_family d = f \<and> d_status d = ''active''")
     (auto simp: supersede_row_def doc_family_def)

lemma demoted_active:
  assumes "d \<in> set (demoted_docs db c f inp)" "d_status d = ''active''"
  shows "d \<in> set (doc_versions db) \<and> (s_status inp = ''active'' \<longrightarrow> doc_family d \<noteq> (c, f))"
proof (cases "s_status inp = ''active''")
  case True
  with assms(1) obtain d0 where d0: "d0 \<in> set (doc_versions db)" "d = supersede_row c f d0"
    by (auto simp: demoted_docs_def)
  show ?thesis
    by (rule supersede_row_cases [of c f d0]) (use d0 assms(2) in auto)
next
  case False
  with assms(1) show ?thesis by (simp add: demoted_docs_def)
qed

lemma supersede_status_ok: "doc_status_ok (d_status d) \<Longrightarrow> doc_status_ok (d_status (supersede_row c f d))"
  by (simp add: supersede_row_def doc_status_ok_def)

section \<open>A save keeps the invariant\<close>

lemma one_active_saved:
  assumes "one_active (doc_versions db)"
  shows "one_active (demoted_docs db c f inp @ [saved_row db c f inp t])"
proof -
  have old: "d = d'" if "d \<in> set (demoted_docs db c f inp)" "d' \<in> set (demoted_docs db c f inp)"
    "doc_family d = doc_family d'" "d_status d = ''active''" "d_status d' = ''active''" for d d'
    using assms demoted_active [OF that(1,4)] demoted_active [OF that(2,5)] that(3-5)
    by (auto simp: one_active_def)
  have new: False if "d \<in> set (demoted_docs db c f inp)" "d_status d = ''active''"
    "doc_family d = (c, f)" "s_status inp = ''active''" for d
    using demoted_active [OF that(1,2)] that(3,4) by simp
  show ?thesis
    unfolding one_active_def
    by (auto simp: eq_commute [of "(c, f)"] dest: new intro: old)
qed

lemma family_version_in_demoted:
  assumes "d \<in> set (doc_versions db)"
  shows "\<exists>d' \<in> set (demoted_docs db c f inp). doc_key d' = doc_key d"
proof -
  have "doc_key d \<in> set (map doc_key (demoted_docs db c f inp))"
    unfolding demoted_keys using assms by simp
  then show ?thesis by (auto simp: image_iff simp del: demoted_keys)
qed

lemma gapless_saved:
  assumes inv: "docs_inv db"
  shows "gapless (demoted_docs db c f inp @ [saved_row db c f inp t])"
proof -
  let ?new = "demoted_docs db c f inp @ [saved_row db c f inp t]"
  have transfer: "\<exists>d' \<in> set ?new. doc_family d' = fam \<and> d_version d' = k"
    if "d \<in> set (doc_versions db)" "doc_family d = fam" "d_version d = k" for d fam k
    using family_version_in_demoted [OF that(1), of c f inp] that(2,3)
    by (auto simp: doc_key_def doc_family_def)
  have gap: "\<exists>d' \<in> set (doc_versions db). doc_family d' = doc_family d \<and> d_version d' = k"
    if "d \<in> set (doc_versions db)" "1 \<le> k" "k < d_version d" for d k
    using inv that by (auto simp: docs_inv_def gapless_def)
  show ?thesis
    unfolding gapless_def
  proof (intro ballI allI impI)
    fix d k assume d: "d \<in> set ?new" and k: "1 \<le> k \<and> k < d_version d"
    show "\<exists>d' \<in> set ?new. doc_family d' = doc_family d \<and> d_version d' = k"
    proof (cases "d \<in> set (demoted_docs db c f inp)")
      case True
      then obtain d0 where "d0 \<in> set (doc_versions db)" "doc_family d = doc_family d0" "d_version d = d_version d0"
        by (rule demoted_mem) auto
      with gap [of d0 k] k transfer show ?thesis by metis
    next
      case False
      with d have new: "doc_family d = (c, f)" "d_version d = max_version db c f + 1" by auto
      with k have "max_version db c f \<noteq> 0" by auto
      then obtain d0 where d0: "d0 \<in> set (doc_versions db)" "doc_family d0 = (c, f)" "d_version d0 = max_version db c f"
        by (rule max_version_in)
      show ?thesis
      proof (cases "k = max_version db c f")
        case True
        with transfer [OF d0] new(1) show ?thesis by simp
      next
        case False
        with gap [of d0 k] d0 k new transfer show ?thesis by (metis order_neq_le_trans zle_add1_eq_le)
      qed
    qed
  qed
qed

lemma new_link_row_sel [simp]:
  "l_doc (new_link_row i pl) = i" "l_position (new_link_row i pl) = fst pl"
  "link_target (new_link_row i pl) =
     (lk_relation (snd pl), lk_collection (snd pl), lk_family (snd pl), lk_version (snd pl))"
  by (simp_all add: new_link_row_def link_target_def)

lemma distinct_new_links:
  assumes "distinct ls"
  shows "distinct (map (\<lambda>l. (l_doc l, l_position l)) (map (new_link_row i) (numbered ls)))"
    and "distinct (map (\<lambda>l. (l_doc l, link_target l)) (map (new_link_row i) (numbered ls)))"
proof -
  have "distinct (map (\<lambda>p. (i, p)) (map fst (numbered ls)))"
    by (subst distinct_map) (simp add: inj_on_def distinct_fst_numbered)
  then show "distinct (map (\<lambda>l. (l_doc l, l_position l)) (map (new_link_row i) (numbered ls)))"
    by (simp add: o_def)
  have "inj (\<lambda>l :: doc_link. (i, lk_relation l, lk_collection l, lk_family l, lk_version l))"
    by (rule injI) (auto intro: doc_link.equality)
  then have "distinct (map (\<lambda>l. (i, lk_relation l, lk_collection l, lk_family l, lk_version l)) (map snd (numbered ls)))"
    using assms by (auto simp: distinct_map intro: inj_on_subset)
  then show "distinct (map (\<lambda>l. (l_doc l, link_target l)) (map (new_link_row i) (numbered ls)))"
    by (simp only: map_map o_def new_link_row_sel)
qed

lemma links_inv_saved:
  assumes inv: "links_inv db" and v: "valid_save inp"
  shows "links_inv (saved_db db c f inp t)"
proof -
  let ?i = "next_id (map d_id (doc_versions db))"
  have fresh: "l_doc l \<noteq> ?i" if "l \<in> set (doc_links db)" for l
    using inv that next_id_notin_image [of d_id "doc_versions db"] unfolding links_inv_def by metis
  have ids: "d_id ` set (doc_versions (saved_db db c f inp t)) = insert ?i (d_id ` set (doc_versions db))"
    using demoted_ids [of db c f inp] by (simp add: saved_db_def flip: set_map)
  have d: "distinct (elems (s_links inp))" using v by (simp add: valid_save_def)
  have rows: "\<forall>l \<in> set (saved_links db inp). stored_link_ok l \<and> l_doc l = ?i"
    using v by (fastforce simp: saved_links_def valid_save_def valid_link_def stored_link_ok_def new_link_row_def set_numbered)
  show ?thesis
    unfolding links_inv_def ids
    using inv rows fresh distinct_new_links [OF d, of ?i]
    by (fastforce simp: links_inv_def saved_db_def simp flip: saved_links_def)
qed

lemma docs_inv_saved:
  assumes inv: "docs_inv db" and v: "valid_save inp" "valid_ident c" "valid_ident f"
    and g: "save_guard db c f inp = None"
  shows "docs_inv (saved_db db c f inp t)"
proof -
  let ?docs = "demoted_docs db c f inp" and ?new = "saved_row db c f inp t"
  have c: "c \<in> c_name ` set (collections db)"
    using g by (auto simp: save_guard_def count_collections_0 split: if_splits)
  have cols: "collections (saved_db db c f inp t) = collections db" by (simp add: saved_db_def)
  have docs: "doc_versions (saved_db db c f inp t) = ?docs @ [?new]" by (simp add: saved_db_def)
  have "distinct (map d_id (?docs @ [?new]))" "distinct (map doc_key (?docs @ [?new]))"
    using inv saved_key_fresh [of c f db] next_id_notin_image [of d_id "doc_versions db"]
    by (simp_all add: docs_inv_def)
  moreover have "doc_row_ok (saved_db db c f inp t) d" if "d \<in> set (?docs @ [?new])" for d
  proof (cases "d \<in> set ?docs")
    case True
    then obtain d0 where "d0 \<in> set (doc_versions db)" "d = d0 \<or> d = supersede_row c f d0"
      by (rule demoted_mem)
    with inv show ?thesis by (auto simp: docs_inv_def doc_row_ok_def cols supersede_status_ok)
  next
    case False
    with that have "d = ?new" by simp
    then show ?thesis
      using c v max_version_nonneg [OF inv, of c f]
      by (auto simp: doc_row_ok_def cols valid_save_def doc_status_ok_def)
  qed
  moreover have "one_active (?docs @ [?new])" "links_inv (saved_db db c f inp t)"
    using inv v(1) by (simp_all add: docs_inv_def one_active_saved links_inv_saved)
  ultimately show ?thesis
    unfolding docs_inv_def docs cols using inv gapless_saved [OF inv] by (auto simp: docs_inv_def)
qed

section \<open>What \<open>saveDocTx\<close> does\<close>

lemma docs_inv_links: "docs_inv db \<Longrightarrow> l \<in> set (doc_links db) \<Longrightarrow> l_doc l \<in> d_id ` set (doc_versions db)"
  by (simp add: docs_inv_def links_inv_def)

lemma insert_doc_saved:
  assumes inv: "docs_inv db" and v: "valid_save inp" and g: "save_guard db c f inp = None"
  shows "insert_doc (new_doc_row c f (max_version db c f + 1) inp t)
           (db\<lparr>doc_versions := demoted_docs db c f inp\<rparr>) =
         Inr (next_id (map d_id (doc_versions db)),
              db\<lparr>doc_versions := demoted_docs db c f inp @ [saved_row db c f inp t]\<rparr>)"
proof -
  have "doc_key w \<noteq> (c, f, max_version db c f + 1)" if "w \<in> set (demoted_docs db c f inp)" for w
  proof -
    have "doc_key w \<in> set (map doc_key (demoted_docs db c f inp))" using that by (simp del: demoted_keys)
    then have "doc_key w \<in> doc_key ` set (doc_versions db)" by (simp only: demoted_keys set_map)
    with saved_key_fresh show ?thesis by metis
  qed
  moreover have "c \<in> c_name ` set (collections db)"
    using g by (auto simp: save_guard_def count_collections_0 split: if_splits)
  ultimately show ?thesis
    using v demoted_active [of _ db c f inp]
    by (auto simp: insert_doc_def Let_def doc_insert_ok_def list_ex_iff list_all_iff valid_save_def
        doc_key_def doc_family_def saved_row_def new_doc_row_def)
qed

text \<open>The link rows of a new version meet the constraints of \<open>doc_links\<close> one after the other.\<close>

lemma distinct_map_mid: "distinct (map g (xs @ y # ys)) \<Longrightarrow> x \<in> set xs \<Longrightarrow> g x \<noteq> g y"
  by simp (metis image_eqI)

lemma link_insert_ok_step:
  assumes "links_inv (db\<lparr>doc_links := ls @ l # rest\<rparr>)"
  shows "link_insert_ok (db\<lparr>doc_links := ls\<rparr>) l"
proof -
  have "(l_doc w, l_position w) \<noteq> (l_doc l, l_position l)" "(l_doc w, link_target w) \<noteq> (l_doc l, link_target l)"
    if "w \<in> set ls" for w
    using assms that by (auto simp: links_inv_def dest!: distinct_map_mid [OF _ that] simp del: map_append)
  moreover have "stored_link_ok l" "l_doc l \<in> d_id ` set (doc_versions db)"
    using assms by (simp_all add: links_inv_def)
  ultimately show ?thesis
    by (auto simp: link_insert_ok_def list_ex_iff list_all_iff stored_link_ok_def)
qed

lemma wp_insert_links:
  fixes s :: "db sess"
  assumes busy: "busy s"
    and inv: "links_inv ((pending s)\<lparr>doc_links := doc_links (pending s) @ map (new_link_row i) pls\<rparr>)"
  shows "wp (for_each (\<lambda>pl. tx_exec (insert_link (new_link_row i pl))) pls)
           (\<lambda>x s'. faulty e \<and> (\<exists>m. x = Opaque m) \<and> committed s' = committed s \<and> busy s')
           (\<lambda>_ s'. committed s' = committed s \<and> busy s'
              \<and> pending s' = (pending s)\<lparr>doc_links := doc_links (pending s) @ map (new_link_row i) pls\<rparr>) e s"
proof (rule wp_for_each [where
      I = "\<lambda>ys s'. committed s' = committed s \<and> busy s'
        \<and> pending s' = (pending s)\<lparr>doc_links := doc_links (pending s) @ map (new_link_row i) ys\<rparr>"])
  fix ys x zs and s' :: "db sess"
  assume xs: "pls = ys @ x # zs" and s': "committed s' = committed s \<and> busy s'
        \<and> pending s' = (pending s)\<lparr>doc_links := doc_links (pending s) @ map (new_link_row i) ys\<rparr>"
  have "link_insert_ok (pending s') (new_link_row i x)"
    using link_insert_ok_step [where db = "pending s" and ls = "doc_links (pending s) @ map (new_link_row i) ys"] inv s' xs by simp
  with s' show "wp (tx_exec (insert_link (new_link_row i x)))
       (\<lambda>x s'. faulty e \<and> (\<exists>m. x = Opaque m) \<and> committed s' = committed s \<and> busy s')
       (\<lambda>_ s'. committed s' = committed s \<and> busy s'
        \<and> pending s' = (pending s)\<lparr>doc_links := doc_links (pending s) @ map (new_link_row i) (ys @ [x])\<rparr>) e s'"
    by (intro wp_intros) (auto simp: insert_link_def)
qed (use busy in auto)

text \<open>Whatever the driver does, \<open>saveDocTx\<close> leaves the committed database alone; it stops
  at a guard without a write, fails because the driver does, or leaves exactly \<open>saved_db\<close>
  in the transaction: no constraint of the schema ever refuses one of its statements.\<close>

lemma wp_saveDocTx:
  assumes busy: "busy s" and inv: "docs_inv (pending s)" and v: "valid_save inp" "valid_ident c" "valid_ident f"
  shows "wp (saveDocTx c f inp)
           (\<lambda>x s'. committed s' = committed s \<and> busy s'
              \<and> (faulty e \<and> (\<exists>m. x = Opaque m)
                 \<or> save_guard (pending s) c f inp = Some x \<and> pending s' = pending s))
           (\<lambda>v s'. committed s' = committed s \<and> busy s' \<and> save_guard (pending s) c f inp = None
              \<and> pending s' = saved_db (pending s) c f inp (v_created v)
              \<and> v = saved_version (pending s) c f inp (v_created v)) e s"
proof -
  let ?db = "pending s"
  have links: "links_inv (saved_db ?db c f inp t)" for t
    using inv v by (intro links_inv_saved) (simp_all add: docs_inv_def)
  have dem: "s_status inp \<noteq> ''active'' \<Longrightarrow> ?db\<lparr>doc_versions := demoted_docs ?db c f inp\<rparr> = ?db"
    by (simp add: demoted_docs_def)
  show ?thesis
  proof (cases "save_guard ?db c f inp")
    case (Some x)
    then show ?thesis unfolding saveDocTx_def
      by (intro wp_intros) (auto simp: busy save_guard_def split: if_splits)
  next
    case None
    note ins = insert_doc_saved [OF inv v(1) None]
    have ins_active: "s_status inp = ''active'' \<Longrightarrow>
        insert_doc (new_doc_row c f (max_version ?db c f + 1) inp t)
          (?db\<lparr>doc_versions := map (supersede_row c f) (doc_versions ?db)\<rparr>) =
        Inr (next_id (map d_id (doc_versions ?db)),
             ?db\<lparr>doc_versions := demoted_docs ?db c f inp @ [saved_row ?db c f inp t]\<rparr>)"
      and ins_draft: "s_status inp \<noteq> ''active'' \<Longrightarrow>
        insert_doc (new_doc_row c f (max_version ?db c f + 1) inp t) ?db =
        Inr (next_id (map d_id (doc_versions ?db)),
             ?db\<lparr>doc_versions := demoted_docs ?db c f inp @ [saved_row ?db c f inp t]\<rparr>)" for t
      using ins [of t] dem by (simp_all add: demoted_docs_def)
    have rest: "wp (for_each (\<lambda>pl. tx_exec (insert_link (new_link_row (next_id (map d_id (doc_versions ?db))) pl)))
                (numbered (elems (s_links inp))))
           (\<lambda>x s'. committed s' = committed s \<and> busy s' \<and> faulty e \<and> (\<exists>m. x = Opaque m))
           (\<lambda>_ s'. committed s' = committed s \<and> busy s' \<and> pending s' = saved_db ?db c f inp t) e s1"
      if "committed s1 = committed s" "busy s1"
        "pending s1 = ?db\<lparr>doc_versions := demoted_docs ?db c f inp @ [saved_row ?db c f inp t]\<rparr>" for t s1
      by (rule wp_conseq [OF wp_insert_links])
         (use that links [of t] in \<open>auto simp: saved_db_def saved_links_def\<close>)
    show ?thesis unfolding saveDocTx_def
      by (intro wp_intros)
         (use None in \<open>auto simp: busy save_guard_def supersede_active_def ins_active ins_draft saved_version_def
           split: if_splits intro!: wp_intros wp_conseq [OF rest]\<close>)
  qed
qed

lemma history_saved_db:
  assumes "docs_inv db"
  shows "history_kept db (saved_db db c f inp t)"
proof -
  have docs: "grows doc_step (doc_versions db) (doc_versions (saved_db db c f inp t))"
    by (auto simp: saved_db_def demoted_docs_def supersede_row_step intro: grows_map grows_append)
  have "l_doc l \<notin> d_id ` set (doc_versions db)" if "l \<in> set (saved_links db inp)" for l
    using that by (auto simp: saved_links_def dest: next_id_fresh_map [where f = d_id])
  then have "appends l_doc (d_id ` set (doc_versions db)) (doc_links db) (doc_links (saved_db db c f inp t))"
    by (simp add: saved_db_def appends_append)
  with docs show ?thesis
    by (simp add: history_kept_def) (simp add: saved_db_def grows_refl)
qed

lemma saved_db_frame [simp]:
  "collections (saved_db db c f inp t) = collections db" "releases (saved_db db c f inp t) = releases db"
  "release_docs (saved_db db c f inp t) = release_docs db" "conflicts (saved_db db c f inp t) = conflicts db"
  "heartbeats (saved_db db c f inp t) = heartbeats db" "host_tokens (saved_db db c f inp t) = host_tokens db"
  "resync_requests (saved_db db c f inp t) = resync_requests db"
  by (simp_all add: saved_db_def)

lemma save_guard_conflict:
  assumes "save_guard db c f inp = Some x"
  shows "errors_is x ErrConflict \<longleftrightarrow> stale_base inp (max_version db c f) \<and> count_collections db c \<noteq> 0"
    and "errors_is x ErrConflict \<or> errors_is x ErrInvalid" and "x \<noteq> Deadlock"
  using assms by (auto simp: save_guard_def err_invalid_def stale_error_def err_conflict_def split: if_splits)

end
