(* ===== verification/Conflicts.thy ===== *)
theory Conflicts
  imports SaveTx History
begin

text \<open>
  The conflict records of \<open>store.go\<close>: the rows opened by a stale save and by a
  release lint, the manually flagged claim, listing, reading and resolving them.
\<close>

section \<open>Recording a conflict inside the caller's transaction\<close>

text \<open>\<open>*p\<close>: a nil pointer panics; the deferred rollback still runs.\<close>

definition deref :: "'a option \<Rightarrow> 'a store" where
  "deref p = (case p of
     None \<Rightarrow> fail (Opaque ''runtime error: invalid memory address or nil pointer dereference'')
   | Some x \<Rightarrow> ret x)"

definition open_conflict_id :: "db \<Rightarrow> string \<Rightarrow> string \<Rightarrow> string \<Rightarrow> int option" where
  "open_conflict_id db kind c f =
     map_option x_id
       (first_row (\<lambda>x. x_kind x = kind \<and> x_status x = ''open'' \<and> x_collection x = c \<and> x_family x = f)
          (conflicts db))"

text \<open>A row as the \<open>INSERT\<close> statements build it; the remaining columns have their defaults.\<close>

definition open_conflict_row ::
  "string \<Rightarrow> string \<times> string \<Rightarrow> string \<times> string \<Rightarrow> int \<Rightarrow> int \<Rightarrow> string \<Rightarrow> string \<Rightarrow> string \<Rightarrow> string
    \<Rightarrow> conflict_row" where
  "open_conflict_row kind cf ocf base their attempted detail by_whom at =
     \<lparr>x_id = 0, x_kind = kind, x_status = ''open'', x_collection = fst cf, x_family = snd cf,
      x_other_collection = fst ocf, x_other_family = snd ocf, x_base = base, x_their = their,
      x_attempts = 1, x_attempted = attempted, x_detail = detail, x_opened_by = by_whom,
      x_opened_at = at, x_resolved_by = [], x_resolved_at = [], x_resolution = [], x_winning = 0\<rparr>"

definition stale_detail :: "int \<Rightarrow> int \<Rightarrow> string" where
  "stale_detail base current =
     ''save with stale base_version '' @ int_dec base @ '' (current '' @ int_dec current @ '')''"

definition refresh_edit :: "int \<Rightarrow> int \<Rightarrow> string \<Rightarrow> string \<Rightarrow> string \<Rightarrow> conflict_row \<Rightarrow> conflict_row" where
  "refresh_edit base current attempted editor at x =
     x\<lparr>x_base := base, x_their := current, x_attempts := x_attempts x + 1, x_attempted := attempted,
       x_detail := stale_detail base current, x_opened_by := editor, x_opened_at := at\<rparr>"

definition upsertEditConflictTx :: "string \<Rightarrow> string \<Rightarrow> doc_save \<Rightarrow> int store" where
  "upsertEditConflictTx c f inp =
     bindT (tx_query (\<lambda>db. max_version db c f)) (\<lambda>current.
     bindT (tx_query (\<lambda>db. open_conflict_id db ''edit'' c f)) (\<lambda>existing.
     case existing of
       Some i \<Rightarrow>
         bindT (deref (s_base inp)) (\<lambda>base.
         bindT get_time (\<lambda>at.
         bindT (tx_exec (update_conflicts (\<lambda>x. x_id x = i)
                  (refresh_edit base current (marshal_doc_save inp) (s_editor inp) at))) (\<lambda>_.
         ret i)))
     | None \<Rightarrow>
         bindT (deref (s_base inp)) (\<lambda>base.
         bindT get_time (\<lambda>at.
         tx_exec (insert_conflict (open_conflict_row ''edit'' (c, f) ([], []) base current
           (marshal_doc_save inp) (stale_detail base current) (s_editor inp) at))))))"

definition refresh_policy :: "int \<Rightarrow> string \<Rightarrow> string \<Rightarrow> string \<Rightarrow> conflict_row \<Rightarrow> conflict_row" where
  "refresh_policy version editor reason at x =
     x\<lparr>x_their := version, x_attempts := x_attempts x + 1, x_detail := reason,
       x_opened_by := editor, x_opened_at := at\<rparr>"

definition upsertPolicyConflictTx :: "string \<Rightarrow> string \<Rightarrow> int \<Rightarrow> string \<Rightarrow> string \<Rightarrow> int store" where
  "upsertPolicyConflictTx c f version editorName reason =
     bindT (tx_query (\<lambda>db. open_conflict_id db ''policy'' c f)) (\<lambda>existing.
     case existing of
       Some i \<Rightarrow>
         bindT get_time (\<lambda>at.
         bindT (tx_exec (update_conflicts (\<lambda>x. x_id x = i) (refresh_policy version editorName reason at))) (\<lambda>_.
         ret i))
     | None \<Rightarrow>
         bindT get_time (\<lambda>at.
         tx_exec (insert_conflict (open_conflict_row ''policy'' (c, f) ([], []) 0 version
           [] reason editorName at))))"

section \<open>Reading\<close>

definition scanConflictMeta :: "conflict_row \<Rightarrow> conflict_meta" where
  "scanConflictMeta x =
     \<lparr>cm_id = x_id x, cm_kind = x_kind x, cm_status = x_status x, cm_collection = x_collection x,
      cm_family = x_family x, cm_other_collection = x_other_collection x,
      cm_other_family = x_other_family x, cm_base = x_base x, cm_their = x_their x,
      cm_attempts = x_attempts x, cm_detail = x_detail x, cm_opened_by = x_opened_by x,
      cm_opened_at = x_opened_at x, cm_resolved_by = x_resolved_by x, cm_resolved_at = x_resolved_at x,
      cm_resolution = x_resolution x, cm_winning = x_winning x\<rparr>"

definition newest_first :: "conflict_row list \<Rightarrow> conflict_row list" where
  "newest_first xs = sort_key (\<lambda>x. - x_id x) xs"

definition ListConflicts :: "string \<Rightarrow> conflict_meta list store" where
  "ListConflicts status =
     (if status = []
      then bindT (db_query (\<lambda>db. newest_first (conflicts db))) (\<lambda>rows. ret (map scanConflictMeta rows))
      else if status = ''open'' \<or> status = ''resolved''
      then bindT (db_query (\<lambda>db. newest_first (filter (\<lambda>x. x_status x = status) (conflicts db))))
             (\<lambda>rows. ret (map scanConflictMeta rows))
      else fail (err_invalid (''status must be '' @ [CHR 0x27, CHR 0x27] @ '', '' @ [CHR 0x27] @ ''open'' @ [CHR 0x27]
             @ '', or '' @ [CHR 0x27] @ ''resolved'' @ [CHR 0x27])))"

definition conflict_of_row :: "conflict_row \<Rightarrow> gerror + conflict" where
  "conflict_of_row x =
     (if x_attempted x \<noteq> [] then
        (case unmarshal_doc_save (x_attempted x) of
           None \<Rightarrow> Inl (Opaque (''conflict '' @ int_dec (x_id x) @ '' attempted column''))
         | Some ds \<Rightarrow> Inr \<lparr>cf_meta = scanConflictMeta x, cf_attempted = Some ds\<rparr>)
      else Inr \<lparr>cf_meta = scanConflictMeta x, cf_attempted = None\<rparr>)"

definition find_conflict :: "db \<Rightarrow> int \<Rightarrow> conflict_row option" where
  "find_conflict db i = first_row (\<lambda>x. x_id x = i) (conflicts db)"

definition GetConflict :: "int \<Rightarrow> conflict store" where
  "GetConflict i =
     bindT (db_query (\<lambda>db. find_conflict db i)) (\<lambda>row.
     case row of
       None \<Rightarrow> fail (Sentinel ErrNotFound)
     | Some x \<Rightarrow> lift_result (conflict_of_row x))"

section \<open>Flagging a claim\<close>

text \<open>The checks before the transaction; the result is the canonical pair of documents,
  whether there is a second one, and the trimmed detail.\<close>

definition flag_checks ::
  "string \<Rightarrow> string \<Rightarrow> string \<Rightarrow> string \<Rightarrow> string
    \<Rightarrow> gerror + (string \<times> string) \<times> (string \<times> string) \<times> bool \<times> string" where
  "flag_checks c f oc off detail =
     (case validateIdent ''collection'' c of Some e \<Rightarrow> Inl e | None \<Rightarrow>
      case validateIdent ''family'' f of Some e \<Rightarrow> Inl e | None \<Rightarrow>
      let trimmed = trim_space detail; hasOther = (oc \<noteq> [] \<or> off \<noteq> []) in
      if trimmed = [] then Inl (err_invalid ''detail is required'')
      else if \<not> hasOther then Inr ((c, f), (oc, off), False, trimmed)
      else if oc = [] \<or> off = [] then Inl (err_invalid ''other pair must be fully set or fully empty'')
      else case validateIdent ''other_collection'' oc of Some e \<Rightarrow> Inl e | None \<Rightarrow>
      case validateIdent ''other_family'' off of Some e \<Rightarrow> Inl e | None \<Rightarrow>
      if oc = c \<and> off = f then Inl (err_invalid ''claim conflict must reference two distinct docs'')
      else if oc < c \<or> (oc = c \<and> off < f) then Inr ((oc, off), (c, f), True, trimmed)
      else Inr ((c, f), (oc, off), True, trimmed))"

text \<open>The transaction, which returns the new record's id.\<close>

definition flag_tx ::
  "string \<times> string \<Rightarrow> string \<times> string \<Rightarrow> bool \<Rightarrow> string \<Rightarrow> string \<Rightarrow> int store" where
  "flag_tx main other hasOther trimmed openedBy =
     bindT (tx_query (\<lambda>db. max_version db (fst main) (snd main))) (\<lambda>base.
     bindT (if hasOther then tx_query (\<lambda>db. max_version db (fst other) (snd other)) else ret 0) (\<lambda>their.
     bindT (tx_query (\<lambda>db. open_conflict_id db ''claim'' (fst main) (snd main))) (\<lambda>existing.
     if existing \<noteq> None
     then fail (err_conflict (''open claim already exists for ('' @ fst main @ ''/'' @ snd main @ '')''))
     else bindT get_time (\<lambda>at.
       bindT (tx_exec (insert_conflict
               (open_conflict_row ''claim'' main other base their [] trimmed openedBy at))) (\<lambda>i.
       bindT tx_commit (\<lambda>_. ret i))))))"

definition FlagClaimConflict ::
  "string \<Rightarrow> string \<Rightarrow> string \<Rightarrow> string \<Rightarrow> string \<Rightarrow> string \<Rightarrow> conflict store" where
  "FlagClaimConflict c f oc off detail openedBy =
     bindT (lift_result (flag_checks c f oc off detail)) (\<lambda>(main, other, hasOther, trimmed).
     bindT (transaction (flag_tx main other hasOther trimmed openedBy)) GetConflict)"

section \<open>Resolving\<close>

definition resolve_row :: "string \<Rightarrow> string \<Rightarrow> string \<Rightarrow> int \<Rightarrow> conflict_row \<Rightarrow> conflict_row" where
  "resolve_row by_whom at resolution winning x =
     x\<lparr>x_status := ''resolved'', x_resolved_by := by_whom, x_resolved_at := at,
       x_resolution := resolution, x_winning := winning\<rparr>"

definition changed_reload :: string where
  "changed_reload = ''conflict changed '' @ [CHR 0xE2, CHR 0x80, CHR 0x94] @ '' reload''"

definition resolve_winning :: "conflict_row \<Rightarrow> doc_save option \<Rightarrow> int store" where
  "resolve_winning x save =
     (case save of
        Some inp \<Rightarrow>
          if x_kind x \<noteq> ''edit'' then fail (err_invalid ''save applies to edit conflicts only'')
          else (case validateDocSave inp of
                  Some e \<Rightarrow> fail e
                | None \<Rightarrow> bindT (saveDocTx (x_collection x) (x_family x) inp) (\<lambda>v. ret (v_version v)))
      | None \<Rightarrow>
          if x_kind x \<noteq> ''policy'' then tx_query (\<lambda>db. max_version db (x_collection x) (x_family x))
          else ret 0)"

definition resolve_tx :: "int \<Rightarrow> string \<Rightarrow> int \<Rightarrow> doc_save option \<Rightarrow> string \<Rightarrow> unit store" where
  "resolve_tx i resolution expectedAttempts save resolvedBy =
     bindT (tx_query (\<lambda>db. find_conflict db i)) (\<lambda>row.
     case row of
       None \<Rightarrow> fail (Sentinel ErrNotFound)
     | Some x \<Rightarrow>
       if x_status x = ''resolved'' then fail (err_conflict ''already resolved'')
       else if 0 \<le> expectedAttempts \<and> expectedAttempts \<noteq> x_attempts x then fail (err_conflict changed_reload)
       else bindT (resolve_winning x save) (\<lambda>winning.
         bindT get_time (\<lambda>at.
         bindT (tx_exec (update_conflicts (\<lambda>y. x_id y = i \<and> x_status y = ''open'')
                 (resolve_row resolvedBy at resolution winning))) (\<lambda>_.
         tx_commit))))"

definition ResolveConflict :: "int \<Rightarrow> string \<Rightarrow> int \<Rightarrow> doc_save option \<Rightarrow> string \<Rightarrow> conflict store" where
  "ResolveConflict i resolution expectedAttempts save resolvedBy =
     (let trimmed = trim_space resolution in
      if trimmed = [] then fail (err_invalid ''resolution is required'')
      else bindT (transaction (resolve_tx i trimmed expectedAttempts save resolvedBy)) (\<lambda>_. GetConflict i))"

section \<open>The invariant of the conflict table\<close>

definition conflict_row_ok :: "conflict_row \<Rightarrow> bool" where
  "conflict_row_ok x \<longleftrightarrow>
     (x_kind x = ''edit'' \<or> x_kind x = ''claim'' \<or> x_kind x = ''policy'')
     \<and> (x_status x = ''open'' \<or> x_status x = ''resolved'')
     \<and> 1 \<le> x_attempts x \<and> valid_ident (x_collection x) \<and> valid_ident (x_family x)
     \<and> (if x_kind x = ''edit'' then \<exists>d. wire_save d \<and> x_attempted x = marshal_doc_save d
         else x_attempted x = [])
     \<and> (x_status x = ''resolved'' \<longleftrightarrow> x_resolution x \<noteq> [])"

definition one_open :: "conflict_row list \<Rightarrow> bool" where
  "one_open xs \<longleftrightarrow>
     (\<forall>x \<in> set xs. \<forall>y \<in> set xs. x_status x = ''open'' \<longrightarrow> x_status y = ''open'' \<longrightarrow>
        conflict_slot x = conflict_slot y \<longrightarrow> x = y)"

definition conflicts_inv :: "db \<Rightarrow> bool" where
  "conflicts_inv db \<longleftrightarrow>
     distinct (map x_id (conflicts db)) \<and> (\<forall>x \<in> set (conflicts db). conflict_row_ok x)
     \<and> one_open (conflicts db)"

lemma conflicts_inv_initial: "conflicts_inv initial_db"
  by (simp add: conflicts_inv_def initial_db_def one_open_def)

lemma conflicts_inv_frame [simp]:
  "conflicts_inv (saved_db db c f inp t) = conflicts_inv db"
  "conflicts_inv (db\<lparr>releases := y\<rparr>) = conflicts_inv db"
  "conflicts_inv (db\<lparr>release_docs := z\<rparr>) = conflicts_inv db" "conflicts_inv (db\<lparr>heartbeats := h\<rparr>) = conflicts_inv db"
  "conflicts_inv (db\<lparr>resync_requests := r\<rparr>) = conflicts_inv db" "conflicts_inv (db\<lparr>host_tokens := k\<rparr>) = conflicts_inv db"
  by (simp_all add: conflicts_inv_def)

lemma find_conflict_Some: "find_conflict db i = Some x \<Longrightarrow> x \<in> set (conflicts db) \<and> x_id x = i"
  unfolding find_conflict_def by (rule first_row_Some)

lemma find_conflict_iff:
  "conflicts_inv db \<Longrightarrow> find_conflict db i = Some x \<longleftrightarrow> x \<in> set (conflicts db) \<and> x_id x = i"
  unfolding find_conflict_def
  by (auto dest: first_row_Some intro!: first_row_unique intro: distinct_map_unique simp: conflicts_inv_def)

lemma open_conflict_Some:
  assumes "open_conflict_id db kind c f = Some i"
  obtains x where "x \<in> set (conflicts db)" "x_id x = i" "x_status x = ''open''" "conflict_slot x = (kind, c, f)"
  using assms by (auto simp: open_conflict_id_def conflict_slot_def dest!: first_row_Some)

lemma open_conflict_None:
  "open_conflict_id db kind c f = None \<longleftrightarrow>
     (\<forall>x \<in> set (conflicts db). x_status x = ''open'' \<longrightarrow> conflict_slot x \<noteq> (kind, c, f))"
  by (auto simp: open_conflict_id_def conflict_slot_def)

section \<open>Effect of recording\<close>

text \<open>The open record of the slot is refreshed by \<open>g\<close>, or the row \<open>r\<close> is appended.\<close>

definition recorded ::
  "string \<times> string \<times> string \<Rightarrow> (conflict_row \<Rightarrow> conflict_row) \<Rightarrow> conflict_row \<Rightarrow> db \<Rightarrow> int \<times> db" where
  "recorded slot g r db =
     (case open_conflict_id db (fst slot) (fst (snd slot)) (snd (snd slot)) of
        Some i \<Rightarrow> (i, db\<lparr>conflicts := map (\<lambda>x. if x_id x = i then g x else x) (conflicts db)\<rparr>)
      | None \<Rightarrow> (let i = next_id (map x_id (conflicts db))
                 in (i, db\<lparr>conflicts := conflicts db @ [r\<lparr>x_id := i\<rparr>]\<rparr>)))"

text \<open>A refresh keeps the record's identity and adds one attempt.\<close>

definition refreshes :: "(conflict_row \<Rightarrow> conflict_row) \<Rightarrow> bool" where
  "refreshes g \<longleftrightarrow> (\<forall>x. x_status (g x) = x_status x \<and> x_attempts (g x) = x_attempts x + 1
     \<and> x_id (g x) = x_id x \<and> conflict_slot (g x) = conflict_slot x
     \<and> x_other_collection (g x) = x_other_collection x \<and> x_other_family (g x) = x_other_family x)"

lemma conflict_unique:
  "conflicts_inv db \<Longrightarrow> x \<in> set (conflicts db) \<Longrightarrow> y \<in> set (conflicts db) \<Longrightarrow> x_id y = x_id x \<Longrightarrow> y = x"
  by (auto simp: conflicts_inv_def intro: distinct_map_unique)

lemma update_conflicts_open:
  assumes inv: "conflicts_inv db" and x: "x \<in> set (conflicts db)" "x_status x = ''open''"
  shows "update_conflicts (\<lambda>y. x_id y = x_id x) g db =
           Inr ((), db\<lparr>conflicts := map (\<lambda>y. if x_id y = x_id x then g y else y) (conflicts db)\<rparr>)"
  using x(2) by (auto simp: update_conflicts_def list_ex_iff dest: conflict_unique [OF inv x(1)])

lemma update_conflicts_guarded:
  "update_conflicts (\<lambda>y. x_id y = i \<and> x_status y = ''open'') g db =
     Inr ((), db\<lparr>conflicts := map (\<lambda>y. if x_id y = i \<and> x_status y = ''open'' then g y else y) (conflicts db)\<rparr>)"
  by (auto simp: update_conflicts_def list_ex_iff)

lemma insert_conflict_ok:
  assumes "open_conflict_id db kind c f = None" "conflict_slot r = (kind, c, f)"
    and "conflict_row_ok r" "x_status r = ''open''"
  shows "insert_conflict r db =
     Inr (next_id (map x_id (conflicts db)), db\<lparr>conflicts := conflicts db @ [r\<lparr>x_id := next_id (map x_id (conflicts db))\<rparr>]\<rparr>)"
  using assms
  by (auto simp: insert_conflict_def Let_def conflict_insert_ok_def conflict_row_ok_def list_all_iff
      open_conflict_None conflict_slot_def split: if_splits)

lemma conflicts_inv_map:
  assumes inv: "conflicts_inv db"
    and g: "\<And>x. x \<in> set (conflicts db) \<Longrightarrow> conflict_row_ok (g x) \<and> x_id (g x) = x_id x"
    and op: "\<And>x. x \<in> set (conflicts db) \<Longrightarrow> x_status (g x) = ''open'' \<Longrightarrow>
               x_status x = ''open'' \<and> conflict_slot (g x) = conflict_slot x"
  shows "conflicts_inv (db\<lparr>conflicts := map g (conflicts db)\<rparr>)"
proof -
  have "map x_id (map g (conflicts db)) = map x_id (conflicts db)" using g by (intro map_update_same) auto
  moreover have "one_open (map g (conflicts db))"
    using inv op unfolding one_open_def conflicts_inv_def by simp metis
  ultimately show ?thesis using inv g unfolding conflicts_inv_def by (auto simp del: map_map)
qed

lemma conflicts_inv_add:
  assumes inv: "conflicts_inv db" and r: "conflict_row_ok r"
    and slot: "\<forall>x \<in> set (conflicts db). x_status x = ''open'' \<longrightarrow> conflict_slot x \<noteq> conflict_slot r"
  shows "conflicts_inv (db\<lparr>conflicts := conflicts db @ [r\<lparr>x_id := next_id (map x_id (conflicts db))\<rparr>]\<rparr>)"
proof -
  let ?r = "r\<lparr>x_id := next_id (map x_id (conflicts db))\<rparr>"
  have "conflict_row_ok ?r" "conflict_slot ?r = conflict_slot r"
    using r by (auto simp: conflict_row_ok_def conflict_slot_def)
  then show ?thesis
    using inv slot by (auto simp: conflicts_inv_def one_open_def)
qed

lemma conflicts_inv_recorded:
  assumes inv: "conflicts_inv db" and g: "refreshes g"
    and gok: "\<And>x. conflict_row_ok x \<Longrightarrow> conflict_slot x = slot \<Longrightarrow> x_status x = ''open'' \<Longrightarrow> conflict_row_ok (g x)"
    and r: "conflict_row_ok r" "conflict_slot r = slot"
  shows "conflicts_inv (snd (recorded slot g r db))"
proof (cases "open_conflict_id db (fst slot) (fst (snd slot)) (snd (snd slot))")
  case None
  then have "\<forall>x \<in> set (conflicts db). x_status x = ''open'' \<longrightarrow> conflict_slot x \<noteq> conflict_slot r"
    using r(2) by (simp add: open_conflict_None)
  from conflicts_inv_add [OF inv r(1) this] None show ?thesis
    by (simp add: recorded_def Let_def)
next
  case (Some i)
  obtain k c f where slot: "slot = (k, c, f)" by (cases slot)
  from Some have "open_conflict_id db k c f = Some i" by (simp add: slot)
  then obtain x where x: "x \<in> set (conflicts db)" "x_id x = i" "x_status x = ''open''" "conflict_slot x = (k, c, f)"
    by (rule open_conflict_Some)
  then have "conflict_slot x = slot" by (simp add: slot)
  then have okx: "conflict_row_ok x \<Longrightarrow> conflict_row_ok (g x)" using gok x(3) by simp
  have upd: "(if x_id y = i then g y else y) = (if y = x then g x else y)" if "y \<in> set (conflicts db)" for y
  proof (cases "y = x")
    case False
    with conflict_unique [OF inv x(1) that] x(2) have "x_id y \<noteq> i" by metis
    with False show ?thesis by simp
  qed (simp add: x(2))
  have gx: "conflict_row_ok (g x)" "x_id (g x) = x_id x" "conflict_slot (g x) = conflict_slot x"
    using inv x(1) g okx by (simp_all add: conflicts_inv_def refreshes_def)
  have "conflicts_inv (db\<lparr>conflicts := map (\<lambda>y. if y = x then g x else y) (conflicts db)\<rparr>)"
    by (rule conflicts_inv_map [OF inv])
       (use inv x(3) gx in \<open>auto simp: conflicts_inv_def split: if_splits\<close>)
  moreover have "map (\<lambda>y. if x_id y = i then g y else y) (conflicts db) = map (\<lambda>y. if y = x then g x else y) (conflicts db)"
    by (rule map_cong [OF refl]) (rule upd)
  ultimately have "conflicts_inv (db\<lparr>conflicts := map (\<lambda>x. if x_id x = i then g x else x) (conflicts db)\<rparr>)"
    by (simp only:)
  with Some show ?thesis by (simp add: recorded_def)
qed

lemma history_recorded:
  assumes inv: "conflicts_inv db" and g: "refreshes g"
  shows "history_kept db (snd (recorded slot g r db))"
proof (cases "open_conflict_id db (fst slot) (fst (snd slot)) (snd (snd slot))")
  case None
  then show ?thesis by (simp add: recorded_def Let_def history_kept_def grows_refl grows_append)
next
  case (Some i)
  then obtain x where x: "x \<in> set (conflicts db)" "x_id x = i" "x_status x = ''open''"
    by (rule open_conflict_Some)
  have "conflict_step y (if x_id y = i then g y else y)" if "y \<in> set (conflicts db)" for y
  proof (cases "y = x")
    case True
    with x(2,3) g show ?thesis by (simp add: conflict_step_def refreshes_def)
  next
    case False
    with conflict_unique [OF inv x(1) that] x(2) have "x_id y \<noteq> i" by metis
    then show ?thesis by simp
  qed
  then have "grows conflict_step (conflicts db) (map (\<lambda>x. if x_id x = i then g x else x) (conflicts db))"
    using grows_map [of "conflicts db" conflict_step _ "[]"] by simp
  with Some show ?thesis by (simp add: recorded_def history_kept_def grows_refl)
qed

section \<open>What the operations do\<close>

definition edit_row :: "string \<Rightarrow> string \<Rightarrow> doc_save \<Rightarrow> int \<Rightarrow> int \<Rightarrow> string \<Rightarrow> conflict_row" where
  "edit_row c f inp base current at =
     open_conflict_row ''edit'' (c, f) ([], []) base current (marshal_doc_save inp)
       (stale_detail base current) (s_editor inp) at"

definition recorded_edit :: "string \<Rightarrow> string \<Rightarrow> doc_save \<Rightarrow> int \<Rightarrow> string \<Rightarrow> db \<Rightarrow> int \<times> db" where
  "recorded_edit c f inp base at db =
     recorded (''edit'', c, f)
       (refresh_edit base (max_version db c f) (marshal_doc_save inp) (s_editor inp) at)
       (edit_row c f inp base (max_version db c f) at) db"

definition policy_row :: "string \<Rightarrow> string \<Rightarrow> int \<Rightarrow> string \<Rightarrow> string \<Rightarrow> string \<Rightarrow> conflict_row" where
  "policy_row c f version editor reason at =
     open_conflict_row ''policy'' (c, f) ([], []) 0 version [] reason editor at"

definition recorded_policy ::
  "string \<Rightarrow> string \<Rightarrow> int \<Rightarrow> string \<Rightarrow> string \<Rightarrow> string \<Rightarrow> db \<Rightarrow> int \<times> db" where
  "recorded_policy c f version editor reason at db =
     recorded (''policy'', c, f) (refresh_policy version editor reason at)
       (policy_row c f version editor reason at) db"

text \<open>Reading back the record that was just written.\<close>

lemma open_conflict_unique:
  assumes inv: "conflicts_inv db" and x: "x \<in> set (conflicts db)" "x_status x = ''open''" "conflict_slot x = (k, c, f)"
  shows "open_conflict_id db k c f = Some (x_id x)"
proof -
  have "first_row (\<lambda>y. x_kind y = k \<and> x_status y = ''open'' \<and> x_collection y = c \<and> x_family y = f) (conflicts db) = Some x"
    using inv x by (intro first_row_unique) (auto simp: conflict_slot_def conflicts_inv_def one_open_def)
  then show ?thesis by (simp add: open_conflict_id_def)
qed

lemma recorded_find_new:
  assumes inv: "conflicts_inv (snd (recorded slot g r db))"
    and no: "open_conflict_id db (fst slot) (fst (snd slot)) (snd (snd slot)) = None"
    and i: "i = fst (recorded slot g r db)"
  shows "find_conflict (snd (recorded slot g r db)) i = Some (r\<lparr>x_id := i\<rparr>)"
  unfolding find_conflict_iff [OF inv] using no i by (simp add: recorded_def Let_def)

lemma recorded_find_old:
  assumes inv: "conflicts_inv (snd (recorded slot g r db))"
    and x: "find_conflict db i = Some x"
    and old: "open_conflict_id db (fst slot) (fst (snd slot)) (snd (snd slot)) = Some i"
    and g: "refreshes g"
  shows "fst (recorded slot g r db) = i" "find_conflict (snd (recorded slot g r db)) i = Some (g x)"
  unfolding find_conflict_iff [OF inv] using find_conflict_Some [OF x] old g
  by (auto simp: recorded_def refreshes_def image_iff)

lemma open_conflict_row_sel [simp]:
  "x_kind (open_conflict_row k cf ocf b t a d w at) = k" "x_status (open_conflict_row k cf ocf b t a d w at) = ''open''"
  "x_collection (open_conflict_row k cf ocf b t a d w at) = fst cf" "x_family (open_conflict_row k cf ocf b t a d w at) = snd cf"
  "x_attempts (open_conflict_row k cf ocf b t a d w at) = 1" "x_attempted (open_conflict_row k cf ocf b t a d w at) = a"
  "x_resolution (open_conflict_row k cf ocf b t a d w at) = []"
  "conflict_slot (open_conflict_row k cf ocf b t a d w at) = (k, fst cf, snd cf)"
  by (simp_all add: open_conflict_row_def conflict_slot_def)

lemma refreshes_edit: "refreshes (refresh_edit b cur a ed at)"
  by (simp add: refreshes_def refresh_edit_def conflict_slot_def)

lemma refreshes_policy: "refreshes (refresh_policy v ed r at)"
  by (simp add: refreshes_def refresh_policy_def conflict_slot_def)

lemma edit_row_ok:
  assumes "wire_save inp" "valid_ident c" "valid_ident f"
  shows "conflict_row_ok (edit_row c f inp base current at)"
  using assms by (auto simp: edit_row_def conflict_row_ok_def)

lemma policy_row_ok:
  "valid_ident c \<Longrightarrow> valid_ident f \<Longrightarrow> conflict_row_ok (policy_row c f v ed r at)"
  by (simp add: policy_row_def conflict_row_ok_def)

lemma recorded_edit_inv:
  assumes "conflicts_inv db" "wire_save inp" "valid_ident c" "valid_ident f"
  shows "conflicts_inv (snd (recorded_edit c f inp base at db))"
    and "history_kept db (snd (recorded_edit c f inp base at db))"
  unfolding recorded_edit_def
  using assms refreshes_edit edit_row_ok [OF assms(2-4)]
  by (auto intro!: conflicts_inv_recorded history_recorded)
     (auto simp: conflict_row_ok_def refresh_edit_def conflict_slot_def edit_row_def)

lemma recorded_policy_inv:
  assumes "conflicts_inv db" "valid_ident c" "valid_ident f"
  shows "conflicts_inv (snd (recorded_policy c f v ed r at db))"
    and "history_kept db (snd (recorded_policy c f v ed r at db))"
  unfolding recorded_policy_def
  using assms refreshes_policy policy_row_ok [OF assms(2,3)]
  by (auto intro!: conflicts_inv_recorded history_recorded)
     (auto simp: conflict_row_ok_def refresh_policy_def conflict_slot_def policy_row_def)

lemma recorded_frame [simp]:
  "doc_versions (snd (recorded sl g r db)) = doc_versions db" "doc_links (snd (recorded sl g r db)) = doc_links db"
  "docs_inv (snd (recorded sl g r db)) = docs_inv db" "releases (snd (recorded sl g r db)) = releases db"
  "release_docs (snd (recorded sl g r db)) = release_docs db" "collections (snd (recorded sl g r db)) = collections db"
  "heartbeats (snd (recorded sl g r db)) = heartbeats db" "host_tokens (snd (recorded sl g r db)) = host_tokens db"
  "resync_requests (snd (recorded sl g r db)) = resync_requests db"
  by (simp_all add: recorded_def Let_def split: option.split)

lemma wp_deref [wp_intros]: "p = Some x \<Longrightarrow> N x s \<Longrightarrow> wp (deref p) E N e s"
  by (simp add: deref_def wp_def ret_def)

text \<open>Recording in a slot succeeds unless the driver fails.\<close>

lemma wp_record_slot:
  assumes busy: "busy s" and db: "pending s = db" and inv: "conflicts_inv db" and slot: "slot = (k, c, f)"
    and row: "\<And>at. conflict_row_ok (r at)" "\<And>at. conflict_slot (r at) = slot" "\<And>at. x_status (r at) = ''open''"
  shows "wp (case open_conflict_id db k c f of
               Some i \<Rightarrow> bindT get_time (\<lambda>at. bindT (tx_exec (update_conflicts (\<lambda>x. x_id x = i) (g at))) (\<lambda>_. ret i))
             | None \<Rightarrow> bindT get_time (\<lambda>at. tx_exec (insert_conflict (r at))))
           (\<lambda>x s'. faulty e \<and> (\<exists>m. x = Opaque m) \<and> committed s' = committed s \<and> busy s')
           (\<lambda>i s'. committed s' = committed s \<and> busy s'
              \<and> (\<exists>at. (i, pending s') = recorded slot (g at) (r at) db)) e s"
proof (cases "open_conflict_id db k c f")
  case None
  note ins = insert_conflict_ok [OF None _ row(1,3)]
  show ?thesis
    using None by (auto intro!: wp_intros simp: busy db ins row(2) slot recorded_def Let_def)
next
  case (Some i)
  then obtain x where x: "x \<in> set (conflicts db)" "i = x_id x" "x_status x = ''open''"
    by (auto elim: open_conflict_Some)
  with Some show ?thesis
    using update_conflicts_open [OF inv x(1,3)]
    by (auto intro!: wp_intros simp: busy db recorded_def slot)
qed

lemma wp_upsertEditConflictTx:
  assumes "busy s" "conflicts_inv (pending s)" "wire_save inp" "valid_ident c" "valid_ident f" "s_base inp = Some base"
  shows "wp (upsertEditConflictTx c f inp)
           (\<lambda>x s'. faulty e \<and> (\<exists>m. x = Opaque m) \<and> committed s' = committed s \<and> busy s')
           (\<lambda>i s'. committed s' = committed s \<and> busy s'
              \<and> (\<exists>at. (i, pending s') = recorded_edit c f inp base at (pending s))) e s"
proof -
  let ?cur = "max_version (pending s) c f"
  have deref: "deref (s_base inp) = ret base" "bindT (ret base) k = k base" for k :: "int \<Rightarrow> int store"
    by (simp_all add: assms(6) deref_def bindT_def ret_def fun_eq_iff)
  have "wp (case open_conflict_id (pending s) ''edit'' c f of
               Some i \<Rightarrow> bindT get_time (\<lambda>at. bindT (tx_exec (update_conflicts (\<lambda>x. x_id x = i)
                   (refresh_edit base ?cur (marshal_doc_save inp) (s_editor inp) at))) (\<lambda>_. ret i))
             | None \<Rightarrow> bindT get_time (\<lambda>at. tx_exec (insert_conflict (edit_row c f inp base ?cur at))))
           (\<lambda>x s'. faulty e \<and> (\<exists>m. x = Opaque m) \<and> committed s' = committed s \<and> busy s')
           (\<lambda>i s'. committed s' = committed s \<and> busy s'
              \<and> (\<exists>at. (i, pending s') = recorded_edit c f inp base at (pending s))) e (tick (tick s))"
    by (rule wp_conseq [OF wp_record_slot [where slot = "(''edit'', c, f)"]])
       (use assms edit_row_ok in \<open>auto simp: recorded_edit_def edit_row_def\<close>)
  then show ?thesis
    unfolding upsertEditConflictTx_def deref edit_row_def
    by (intro wp_bindT wp_tx_query) (auto simp: assms(1))
qed

lemma wp_upsertPolicyConflictTx:
  assumes "busy s" "conflicts_inv (pending s)" "valid_ident c" "valid_ident f"
  shows "wp (upsertPolicyConflictTx c f v ed r)
           (\<lambda>x s'. faulty e \<and> (\<exists>m. x = Opaque m) \<and> committed s' = committed s \<and> busy s')
           (\<lambda>i s'. committed s' = committed s \<and> busy s'
              \<and> (\<exists>at. (i, pending s') = recorded_policy c f v ed r at (pending s))) e s"
proof -
  have "wp (case open_conflict_id (pending s) ''policy'' c f of
               Some i \<Rightarrow> bindT get_time (\<lambda>at. bindT (tx_exec (update_conflicts (\<lambda>x. x_id x = i)
                   (refresh_policy v ed r at))) (\<lambda>_. ret i))
             | None \<Rightarrow> bindT get_time (\<lambda>at. tx_exec (insert_conflict (policy_row c f v ed r at))))
           (\<lambda>x s'. faulty e \<and> (\<exists>m. x = Opaque m) \<and> committed s' = committed s \<and> busy s')
           (\<lambda>i s'. committed s' = committed s \<and> busy s'
              \<and> (\<exists>at. (i, pending s') = recorded_policy c f v ed r at (pending s))) e (tick s)"
    by (rule wp_conseq [OF wp_record_slot [where slot = "(''policy'', c, f)"]])
       (use assms policy_row_ok in \<open>auto simp: recorded_policy_def policy_row_def\<close>)
  then show ?thesis
    unfolding upsertPolicyConflictTx_def policy_row_def
    by (intro wp_bindT wp_tx_query) (auto simp: assms(1))
qed

section \<open>Reading back\<close>

definition get_conflict :: "db \<Rightarrow> int \<Rightarrow> gerror + conflict" where
  "get_conflict db i =
     (case find_conflict db i of None \<Rightarrow> Inl (Sentinel ErrNotFound) | Some x \<Rightarrow> conflict_of_row x)"

lemma marshal_nonempty [simp]: "marshal_doc_save d \<noteq> []"
  by (simp add: marshal_doc_save_def doc_save_json_def)

lemma conflict_of_row_ok:
  assumes "conflict_row_ok x"
  obtains cf where "conflict_of_row x = Inr cf" "cf_meta cf = scanConflictMeta x"
    "x_kind x \<noteq> ''edit'' \<Longrightarrow> cf_attempted cf = None"
proof (cases "x_kind x = ''edit''")
  case True
  with assms obtain d where "wire_save d" "x_attempted x = marshal_doc_save d"
    by (auto simp: conflict_row_ok_def)
  with True show thesis
    by (intro that) (auto simp: conflict_of_row_def unmarshal_marshal_doc_save)
next
  case False
  with assms show thesis
    by (intro that) (auto simp: conflict_of_row_def conflict_row_ok_def)
qed

lemma get_conflict_ok:
  "conflicts_inv db \<Longrightarrow> x \<in> set (conflicts db) \<Longrightarrow> get_conflict db (x_id x) = conflict_of_row x"
  by (simp add: get_conflict_def find_conflict_iff [THEN iffD2])

lemma wp_GetConflict:
  assumes "\<not> busy s"
  shows "wp (GetConflict i)
           (\<lambda>x s'. committed s' = committed s \<and> \<not> busy s'
              \<and> (faulty e \<and> (\<exists>m. x = Opaque m) \<or> get_conflict (committed s) i = Inl x))
           (\<lambda>c s'. committed s' = committed s \<and> \<not> busy s' \<and> get_conflict (committed s) i = Inr c) e s"
  unfolding GetConflict_def by (intro wp_intros) (auto simp: assms get_conflict_def)

section \<open>Flagging\<close>

definition claim_row ::
  "string \<times> string \<Rightarrow> string \<times> string \<Rightarrow> bool \<Rightarrow> string \<Rightarrow> string \<Rightarrow> string \<Rightarrow> db \<Rightarrow> conflict_row" where
  "claim_row main other hasOther trimmed openedBy at db =
     open_conflict_row ''claim'' main other (max_version db (fst main) (snd main))
       (if hasOther then max_version db (fst other) (snd other) else 0) [] trimmed openedBy at"

definition flagged_db ::
  "string \<times> string \<Rightarrow> string \<times> string \<Rightarrow> bool \<Rightarrow> string \<Rightarrow> string \<Rightarrow> string \<Rightarrow> db \<Rightarrow> db" where
  "flagged_db main other hasOther trimmed openedBy at db =
     db\<lparr>conflicts := conflicts db @
         [(claim_row main other hasOther trimmed openedBy at db)\<lparr>x_id := next_id (map x_id (conflicts db))\<rparr>]\<rparr>"

definition claim_exists :: "string \<times> string \<Rightarrow> gerror" where
  "claim_exists main = err_conflict (''open claim already exists for ('' @ fst main @ ''/'' @ snd main @ '')'')"

lemma flag_checks_ok:
  assumes "flag_checks c f oc off detail = Inr (main, other, hasOther, trimmed)"
  shows "valid_ident (fst main)" "valid_ident (snd main)" "trimmed = trim_space detail" "trimmed \<noteq> []"
    "hasOther \<longleftrightarrow> oc \<noteq> [] \<or> off \<noteq> []" "\<not> hasOther \<Longrightarrow> main = (c, f) \<and> other = ([], [])"
    "hasOther \<Longrightarrow> main < other \<and> {main, other} = {(c, f), (oc, off)}"
  using assms
  by (auto simp: flag_checks_def Let_def validateIdent_None less_prod_def split: option.splits if_splits)

lemma flagged_db_ok:
  assumes inv: "conflicts_inv db" and ck: "flag_checks c f oc off detail = Inr (main, other, h, tr)"
    and no: "open_conflict_id db ''claim'' (fst main) (snd main) = None"
  shows "conflicts_inv (flagged_db main other h tr by_whom at db)"
    and "history_kept db (flagged_db main other h tr by_whom at db)"
    and "\<exists>cf. get_conflict (flagged_db main other h tr by_whom at db) (next_id (map x_id (conflicts db))) = Inr cf"
    and "insert_conflict (claim_row main other h tr by_whom at db) db =
           Inr (next_id (map x_id (conflicts db)), flagged_db main other h tr by_whom at db)"
proof -
  let ?r = "claim_row main other h tr by_whom at db" and ?i = "next_id (map x_id (conflicts db))"
  let ?db' = "flagged_db main other h tr by_whom at db"
  have row: "conflict_row_ok ?r" "conflict_slot ?r = (''claim'', fst main, snd main)" "x_status ?r = ''open''"
    using flag_checks_ok(1,2) [OF ck] by (simp_all add: claim_row_def conflict_row_ok_def)
  show inv': "conflicts_inv ?db'"
    using conflicts_inv_add [OF inv row(1)] no [unfolded open_conflict_None] row(2) by (simp add: flagged_db_def)
  show "history_kept db ?db'"
    by (simp add: flagged_db_def history_kept_def grows_refl grows_append)
  have mem: "?r\<lparr>x_id := ?i\<rparr> \<in> set (conflicts ?db')" by (simp add: flagged_db_def)
  then have "conflict_row_ok (?r\<lparr>x_id := ?i\<rparr>)" using inv' unfolding conflicts_inv_def by blast
  then obtain cf where "conflict_of_row (?r\<lparr>x_id := ?i\<rparr>) = Inr cf" by (rule conflict_of_row_ok)
  with get_conflict_ok [OF inv' mem] show "\<exists>cf. get_conflict ?db' ?i = Inr cf" by simp
  show "insert_conflict ?r db = Inr (?i, ?db')"
    using insert_conflict_ok [OF no row(2,1,3)] by (simp add: flagged_db_def)
qed

lemma wp_flag_tx:
  assumes busy: "busy s" and inv: "conflicts_inv (pending s)"
    and ck: "flag_checks c f oc off detail = Inr (main, other, h, tr)"
  shows "wp (flag_tx main other h tr openedBy)
     (\<lambda>x s'. committed s' = committed s \<and>
        (open_conflict_id (pending s) ''claim'' (fst main) (snd main) \<noteq> None \<and> x = claim_exists main
         \<or> faulty e \<and> (\<exists>m. x = Opaque m)))
     (\<lambda>i s'. open_conflict_id (pending s) ''claim'' (fst main) (snd main) = None
        \<and> i = next_id (map x_id (conflicts (pending s)))
        \<and> (\<exists>at. committed s' = flagged_db main other h tr openedBy at (pending s))) e s"
proof (cases "open_conflict_id (pending s) ''claim'' (fst main) (snd main)")
  case None
  note ins = flagged_db_ok(4) [OF inv ck None, unfolded claim_row_def]
  show ?thesis
  proof (cases h)
    case True
    with None show ?thesis
      unfolding flag_tx_def by (intro wp_intros) (use ins in \<open>auto simp: busy\<close>)
  next
    case False
    with None show ?thesis
      unfolding flag_tx_def by (intro wp_intros) (use ins in \<open>auto simp: busy\<close>)
  qed
next
  case (Some i)
  then show ?thesis
    unfolding flag_tx_def by (intro wp_intros) (auto simp: busy claim_exists_def)
qed

text \<open>The database after a flag that has the canonical pair \<open>main\<close>, \<open>other\<close>.\<close>

definition flagged_ok ::
  "db \<Rightarrow> db \<Rightarrow> (string \<times> string) \<times> (string \<times> string) \<times> bool \<times> string \<Rightarrow> string \<Rightarrow> bool" where
  "flagged_ok db db' r openedBy =
     (case r of (main, other, h, tr) \<Rightarrow>
        open_conflict_id db ''claim'' (fst main) (snd main) = None
        \<and> (\<exists>at. db' = flagged_db main other h tr openedBy at db))"

lemma wp_FlagClaimConflict:
  assumes busy: "\<not> busy s" and inv: "conflicts_inv (committed s)"
  shows "wp (FlagClaimConflict c f oc off detail openedBy)
     (\<lambda>x s'. \<not> busy s' \<and>
        (case flag_checks c f oc off detail of
           Inl y \<Rightarrow> x = y \<and> committed s' = committed s
         | Inr r \<Rightarrow>
             committed s' = committed s
               \<and> open_conflict_id (committed s) ''claim'' (fst (fst r)) (snd (fst r)) \<noteq> None
               \<and> x = claim_exists (fst r)
             \<or> faulty e \<and> (\<exists>m. x = Opaque m)
               \<and> (committed s' = committed s \<or> flagged_ok (committed s) (committed s') r openedBy)))
     (\<lambda>cf s'. \<not> busy s' \<and>
        (case flag_checks c f oc off detail of
           Inl y \<Rightarrow> False
         | Inr r \<Rightarrow> flagged_ok (committed s) (committed s') r openedBy
             \<and> get_conflict (committed s') (next_id (map x_id (conflicts (committed s)))) = Inr cf)) e s"
proof (cases "flag_checks c f oc off detail")
  case (Inl x)
  then show ?thesis
    unfolding FlagClaimConflict_def by (intro wp_bindT wp_lift_result) (auto simp: busy)
next
  case (Inr r)
  obtain main other h tr where r: "r = (main, other, h, tr)" by (cases r) blast
  note ck = Inr [unfolded r]
  have get: "wp (GetConflict (next_id (map x_id (conflicts (committed s)))))
      (\<lambda>x s'. \<not> busy s' \<and> faulty e \<and> (\<exists>m. x = Opaque m) \<and> flagged_ok (committed s) (committed s') r openedBy)
      (\<lambda>cf s'. \<not> busy s' \<and> flagged_ok (committed s) (committed s') r openedBy
         \<and> get_conflict (committed s') (next_id (map x_id (conflicts (committed s)))) = Inr cf) e s'"
    if none: "open_conflict_id (committed s) ''claim'' (fst main) (snd main) = None"
      and s': "\<not> busy s'" "committed s' = flagged_db main other h tr openedBy at (committed s)" for s' at
  proof -
    have "flagged_ok (committed s) (committed s') r openedBy"
      using none s'(2) by (auto simp: flagged_ok_def r)
    with flagged_db_ok(3) [OF inv ck none, of openedBy at] s' show ?thesis
      by (intro wp_conseq [OF wp_GetConflict]) auto
  qed
  show ?thesis
    unfolding FlagClaimConflict_def Inr r lift_result_Inr
    by (auto intro!: wp_bindT wp_ret wp_transaction wp_conseq [OF wp_flag_tx [OF _ _ ck]] wp_conseq [OF get]
        simp: busy inv r)
qed

section \<open>Resolving\<close>

definition resolve_guard :: "db \<Rightarrow> int \<Rightarrow> int \<Rightarrow> doc_save option \<Rightarrow> gerror option" where
  "resolve_guard db i expected save =
     (case find_conflict db i of
        None \<Rightarrow> Some (Sentinel ErrNotFound)
      | Some x \<Rightarrow>
        if x_status x = ''resolved'' then Some (err_conflict ''already resolved'')
        else if 0 \<le> expected \<and> expected \<noteq> x_attempts x then Some (err_conflict changed_reload)
        else (case save of
                None \<Rightarrow> None
              | Some inp \<Rightarrow>
                  if x_kind x \<noteq> ''edit'' then Some (err_invalid ''save applies to edit conflicts only'')
                  else (case validateDocSave inp of
                          Some e \<Rightarrow> Some e
                        | None \<Rightarrow> save_guard db (x_collection x) (x_family x) inp)))"

definition winning_version :: "db \<Rightarrow> conflict_row \<Rightarrow> doc_save option \<Rightarrow> int" where
  "winning_version db x save =
     (let current = max_version db (x_collection x) (x_family x)
      in case save of Some _ \<Rightarrow> current + 1 | None \<Rightarrow> if x_kind x = ''policy'' then 0 else current)"

definition resolve_saved :: "db \<Rightarrow> conflict_row \<Rightarrow> doc_save option \<Rightarrow> string \<Rightarrow> db" where
  "resolve_saved db x save t =
     (case save of None \<Rightarrow> db | Some inp \<Rightarrow> saved_db db (x_collection x) (x_family x) inp t)"

definition resolved_db ::
  "db \<Rightarrow> conflict_row \<Rightarrow> doc_save option \<Rightarrow> string \<Rightarrow> string \<Rightarrow> string \<Rightarrow> string \<Rightarrow> db" where
  "resolved_db db x save resolvedBy resolution t at =
     (resolve_saved db x save t)
       \<lparr>conflicts := map (\<lambda>y. if x_id y = x_id x \<and> x_status y = ''open''
                          then resolve_row resolvedBy at resolution (winning_version db x save) y else y)
                     (conflicts db)\<rparr>"

lemma resolve_row_sel [simp]:
  "x_id (resolve_row b at r w x) = x_id x" "x_kind (resolve_row b at r w x) = x_kind x"
  "x_status (resolve_row b at r w x) = ''resolved''" "conflict_slot (resolve_row b at r w x) = conflict_slot x"
  "x_attempts (resolve_row b at r w x) = x_attempts x" "x_attempted (resolve_row b at r w x) = x_attempted x"
  "x_collection (resolve_row b at r w x) = x_collection x" "x_family (resolve_row b at r w x) = x_family x"
  "x_resolution (resolve_row b at r w x) = r" "x_winning (resolve_row b at r w x) = w"
  "x_other_collection (resolve_row b at r w x) = x_other_collection x"
  "x_other_family (resolve_row b at r w x) = x_other_family x"
  by (simp_all add: resolve_row_def conflict_slot_def)

lemma resolve_row_ok: "conflict_row_ok x \<Longrightarrow> r \<noteq> [] \<Longrightarrow> conflict_row_ok (resolve_row b at r w x)"
  by (simp add: conflict_row_ok_def)

text \<open>Resolving rows that are open keeps the invariant and the history, whichever are selected.\<close>

lemma resolve_rows_ok:
  assumes inv: "conflicts_inv db" and r: "\<And>x. r x \<noteq> []"
  shows "conflicts_inv (db\<lparr>conflicts := map (\<lambda>y. if P y \<and> x_status y = ''open''
            then resolve_row b at (r y) (w y) y else y) (conflicts db)\<rparr>)"
    and "grows conflict_step (conflicts db) (map (\<lambda>y. if P y \<and> x_status y = ''open''
            then resolve_row b at (r y) (w y) y else y) (conflicts db))"
proof -
  show "conflicts_inv (db\<lparr>conflicts := map (\<lambda>y. if P y \<and> x_status y = ''open''
            then resolve_row b at (r y) (w y) y else y) (conflicts db)\<rparr>)"
    by (rule conflicts_inv_map [OF inv])
       (use inv r in \<open>auto simp: conflicts_inv_def resolve_row_ok split: if_splits\<close>)
  show "grows conflict_step (conflicts db) (map (\<lambda>y. if P y \<and> x_status y = ''open''
            then resolve_row b at (r y) (w y) y else y) (conflicts db))"
    using grows_map [of "conflicts db" conflict_step _ "[]"] by (simp add: conflict_step_def)
qed

lemma conflicts_inv_conflicts: "conflicts db = conflicts db' \<Longrightarrow> conflicts_inv db = conflicts_inv db'"
  by (simp add: conflicts_inv_def)

lemma resolved_db_ok:
  assumes inv: "docs_inv db" "conflicts_inv db" and g: "resolve_guard db i expected save = None"
    and x: "find_conflict db i = Some x" and r: "resolution \<noteq> []"
  shows "docs_inv (resolved_db db x save b resolution t at)"
    and "conflicts_inv (resolved_db db x save b resolution t at)"
    and "history_kept db (resolved_db db x save b resolution t at)"
    and "\<exists>cf. get_conflict (resolved_db db x save b resolution t at) i = Inr cf"
proof -
  let ?db' = "resolved_db db x save b resolution t at"
  have xok: "x \<in> set (conflicts db)" "x_id x = i" "conflict_row_ok x" "x_status x = ''open''"
    using find_conflict_Some [OF x] inv(2) g x
    by (auto simp: conflicts_inv_def resolve_guard_def conflict_row_ok_def split: if_splits)
  have saved: "docs_inv (resolve_saved db x save t)" "history_kept db (resolve_saved db x save t)"
      "conflicts (resolve_saved db x save t) = conflicts db"
  proof (atomize (full), cases save)
    case (Some inp)
    with g x have "valid_save inp" "save_guard db (x_collection x) (x_family x) inp = None"
      by (auto simp: resolve_guard_def validateDocSave_None split: if_splits option.splits)
    with Some inv xok(3) show "docs_inv (resolve_saved db x save t) \<and> history_kept db (resolve_saved db x save t)
        \<and> conflicts (resolve_saved db x save t) = conflicts db"
      by (simp_all add: resolve_saved_def docs_inv_saved conflict_row_ok_def history_saved_db)
  qed (use inv in \<open>simp_all add: resolve_saved_def\<close>)
  let ?P = "\<lambda>y. x_id y = x_id x" and ?r = "\<lambda>y. resolution" and ?w = "\<lambda>y. winning_version db x save"
  show "docs_inv ?db'" using saved(1) by (simp add: resolved_db_def)
  show inv': "conflicts_inv ?db'"
    using resolve_rows_ok(1) [OF inv(2), of ?r ?P b at ?w] r
    by (simp add: resolved_db_def conflicts_inv_def)
  show "history_kept db ?db'"
    using resolve_rows_ok(2) [OF inv(2), of ?r ?P b at ?w] r saved(2) by (simp add: resolved_db_def history_kept_def)
  have mem: "resolve_row b at resolution (winning_version db x save) x \<in> set (conflicts ?db')"
    using xok by (auto simp: resolved_db_def image_iff)
  then have "conflict_row_ok (resolve_row b at resolution (winning_version db x save) x)"
    using inv' unfolding conflicts_inv_def by blast
  then obtain cf where "conflict_of_row (resolve_row b at resolution (winning_version db x save) x) = Inr cf"
    by (rule conflict_of_row_ok)
  with get_conflict_ok [OF inv' mem] xok(2) show "\<exists>cf. get_conflict ?db' i = Inr cf" by simp
qed

lemma saved_version_number: "v = saved_version db c f inp t \<Longrightarrow> v_version v = max_version db c f + 1"
  by (simp add: saved_version_def)

lemma conflict_row_idents: "conflict_row_ok x \<Longrightarrow> valid_ident (x_collection x) \<and> valid_ident (x_family x)"
  by (simp add: conflict_row_ok_def)

lemma wp_resolve_winning:
  assumes busy: "busy s" and inv: "docs_inv (pending s)" "conflict_row_ok x"
  shows "wp (resolve_winning x save)
     (\<lambda>y s'. busy s' \<and> committed s' = committed s
        \<and> (faulty e \<and> (\<exists>m. y = Opaque m)
           \<or> (\<exists>inp. save = Some inp \<and>
                (if x_kind x \<noteq> ''edit'' then y = err_invalid ''save applies to edit conflicts only''
                 else validateDocSave inp = Some y
                   \<or> validateDocSave inp = None \<and> save_guard (pending s) (x_collection x) (x_family x) inp = Some y))))
     (\<lambda>w s'. busy s' \<and> committed s' = committed s \<and> w = winning_version (pending s) x save
        \<and> (\<exists>t. pending s' = resolve_saved (pending s) x save t)
        \<and> (\<forall>inp. save = Some inp \<longrightarrow> x_kind x = ''edit'' \<and> validateDocSave inp = None
              \<and> save_guard (pending s) (x_collection x) (x_family x) inp = None)) e s"
proof (cases save)
  case None
  then show ?thesis
    unfolding resolve_winning_def
    by (auto intro!: wp_intros simp: busy winning_version_def resolve_saved_def Let_def)
next
  case (Some inp)
  have save: "wp (saveDocTx (x_collection x) (x_family x) inp)
      (\<lambda>y s'. busy s' \<and> committed s' = committed s \<and> (faulty e \<and> (\<exists>m. y = Opaque m)
          \<or> save_guard (pending s) (x_collection x) (x_family x) inp = Some y))
      (\<lambda>v s'. busy s' \<and> committed s' = committed s
          \<and> v_version v = winning_version (pending s) x save
          \<and> save_guard (pending s) (x_collection x) (x_family x) inp = None
          \<and> (\<exists>t. pending s' = resolve_saved (pending s) x save t)) e s"
    if "validateDocSave inp = None"
    by (rule wp_conseq [OF wp_saveDocTx])
       (use inv(1) conflict_row_idents [OF inv(2)] that busy Some in
          \<open>auto simp: validateDocSave_None winning_version_def resolve_saved_def Let_def dest: saved_version_number\<close>)
  show ?thesis
    unfolding resolve_winning_def Some option.case
    by (intro wp_intros) (auto simp: Some busy intro!: wp_intros wp_conseq [OF save])
qed

text \<open>The rest of the transaction: the resolution is written and committed.\<close>

lemma wp_resolve_commit:
  assumes "busy s" "pending s = resolve_saved db x save t" "x_id x = i"
  shows "wp (bindT get_time (\<lambda>at.
       bindT (tx_exec (update_conflicts (\<lambda>y. x_id y = i \<and> x_status y = ''open'')
               (resolve_row resolvedBy at resolution (winning_version db x save)))) (\<lambda>_. tx_commit)))
     (\<lambda>y s'. committed s' = committed s \<and> faulty e \<and> (\<exists>m. y = Opaque m))
     (\<lambda>_ s'. \<exists>at. committed s' = resolved_db db x save resolvedBy resolution t at) e s"
proof -
  have "conflicts (resolve_saved db x save t) = conflicts db"
    by (simp add: resolve_saved_def split: option.split)
  then show ?thesis using assms by (intro wp_intros) (auto simp: update_conflicts_guarded resolved_db_def)
qed

text \<open>Once the record is known to be open and the expected one.\<close>

lemma wp_resolve_open:
  assumes x: "find_conflict (pending s) i = Some x" and inv: "docs_inv (pending s)" "conflict_row_ok x" and busy: "busy s"
    and open': "x_status x \<noteq> ''resolved''" "\<not> (0 \<le> expected \<and> expected \<noteq> x_attempts x)"
  shows "wp (bindT (resolve_winning x save) (\<lambda>winning. bindT get_time (\<lambda>at.
         bindT (tx_exec (update_conflicts (\<lambda>y. x_id y = i \<and> x_status y = ''open'')
                 (resolve_row resolvedBy at resolution winning))) (\<lambda>_. tx_commit))))
     (\<lambda>y s'. committed s' = committed s
        \<and> (faulty e \<and> (\<exists>m. y = Opaque m) \<or> resolve_guard (pending s) i expected save = Some y))
     (\<lambda>_ s'. resolve_guard (pending s) i expected save = None
        \<and> (\<exists>t at. committed s' = resolved_db (pending s) x save resolvedBy resolution t at)) e s"
proof -
  have i: "x_id x = i" using find_conflict_Some [OF x] by simp
  have guard: "resolve_guard (pending s) i expected save = (case save of None \<Rightarrow> None
            | Some inp \<Rightarrow>
                if x_kind x \<noteq> ''edit'' then Some (err_invalid ''save applies to edit conflicts only'')
                else (case validateDocSave inp of
                        Some e \<Rightarrow> Some e
                      | None \<Rightarrow> save_guard (pending s) (x_collection x) (x_family x) inp))"
    using open' by (auto simp: resolve_guard_def x)
  show ?thesis
  proof (cases "resolve_guard (pending s) i expected save")
    case None
    show ?thesis
      by (rule wp_bindT, rule wp_conseq [OF wp_resolve_winning [OF busy inv]])
        (use None in \<open>auto simp: guard i intro!: wp_conseq [OF wp_resolve_commit] split: option.splits if_splits\<close>)
  next
    case err: (Some y)
    show ?thesis
      by (rule wp_bindT, rule wp_conseq [OF wp_resolve_winning [OF busy inv]])
        (use err in \<open>auto simp: guard split: option.splits if_splits\<close>)
  qed
qed

lemma wp_resolve_tx:
  assumes busy: "busy s" and inv: "docs_inv (pending s)" "conflicts_inv (pending s)"
  shows "wp (resolve_tx i resolution expected save resolvedBy)
     (\<lambda>y s'. committed s' = committed s
        \<and> (faulty e \<and> (\<exists>m. y = Opaque m) \<or> resolve_guard (pending s) i expected save = Some y))
     (\<lambda>_ s'. resolve_guard (pending s) i expected save = None
        \<and> (\<exists>x t at. find_conflict (pending s) i = Some x
             \<and> committed s' = resolved_db (pending s) x save resolvedBy resolution t at)) e s"
proof (cases "find_conflict (pending s) i")
  case None
  then show ?thesis
    unfolding resolve_tx_def by (intro wp_intros) (auto simp: busy resolve_guard_def)
next
  case (Some x)
  then have ok: "conflict_row_ok x" using find_conflict_Some [OF Some] inv(2) by (simp add: conflicts_inv_def)
  have g: "x_status x = ''resolved'' \<Longrightarrow> resolve_guard (pending s) i expected save = Some (err_conflict ''already resolved'')"
    "x_status x \<noteq> ''resolved'' \<Longrightarrow> 0 \<le> expected \<and> expected \<noteq> x_attempts x
       \<Longrightarrow> resolve_guard (pending s) i expected save = Some (err_conflict changed_reload)"
    by (simp_all add: resolve_guard_def Some)
  show ?thesis
    unfolding resolve_tx_def
    by (rule wp_bindT, rule wp_tx_query [OF busy], simp, unfold Some option.case, intro wp_if wp_fail wp_conseq [OF wp_resolve_open])
       (use Some ok inv(1) busy in \<open>simp_all add: g\<close>)
qed

text \<open>The database after a successful resolve of conflict \<open>i\<close>.\<close>

definition resolved_ok ::
  "db \<Rightarrow> db \<Rightarrow> int \<Rightarrow> string \<Rightarrow> int \<Rightarrow> doc_save option \<Rightarrow> string \<Rightarrow> bool" where
  "resolved_ok db db' i resolution expected save resolvedBy =
     (resolve_guard db i expected save = None
      \<and> (\<exists>x t at. find_conflict db i = Some x \<and> db' = resolved_db db x save resolvedBy resolution t at))"

lemma wp_ResolveConflict:
  assumes busy: "\<not> busy s" and inv: "docs_inv (committed s)" "conflicts_inv (committed s)"
  shows "wp (ResolveConflict i resolution expected save resolvedBy)
     (\<lambda>y s'. \<not> busy s' \<and>
        (committed s' = committed s
           \<and> (if trim_space resolution = [] then y = err_invalid ''resolution is required''
              else faulty e \<and> (\<exists>m. y = Opaque m) \<or> resolve_guard (committed s) i expected save = Some y)
         \<or> faulty e \<and> (\<exists>m. y = Opaque m) \<and> trim_space resolution \<noteq> []
           \<and> resolved_ok (committed s) (committed s') i (trim_space resolution) expected save resolvedBy))
     (\<lambda>cf s'. \<not> busy s' \<and> trim_space resolution \<noteq> []
        \<and> resolved_ok (committed s) (committed s') i (trim_space resolution) expected save resolvedBy
        \<and> get_conflict (committed s') i = Inr cf) e s"
proof (cases "trim_space resolution = []")
  case True
  then show ?thesis
    unfolding ResolveConflict_def Let_def by (simp add: wp_fail busy)
next
  case False
  let ?res = "trim_space resolution" and ?db = "committed s"
  have get: "wp (GetConflict i)
      (\<lambda>y s'. \<not> busy s' \<and> faulty e \<and> (\<exists>m. y = Opaque m) \<and> resolved_ok ?db (committed s') i ?res expected save resolvedBy)
      (\<lambda>cf s'. \<not> busy s' \<and> resolved_ok ?db (committed s') i ?res expected save resolvedBy
         \<and> get_conflict (committed s') i = Inr cf) e s'"
    if g: "resolve_guard ?db i expected save = None" "find_conflict ?db i = Some x"
      and s': "\<not> busy s'" "committed s' = resolved_db ?db x save resolvedBy ?res t at" for s' x t at
  proof -
    have "resolved_ok ?db (committed s') i ?res expected save resolvedBy"
      using g s'(2) by (auto simp: resolved_ok_def)
    with resolved_db_ok(4) [OF inv g False, of resolvedBy t at] s' show ?thesis
      by (intro wp_conseq [OF wp_GetConflict]) auto
  qed
  have tx: "wp (transaction (resolve_tx i ?res expected save resolvedBy))
     (\<lambda>y s'. \<not> busy s' \<and> committed s' = ?db
        \<and> (faulty e \<and> (\<exists>m. y = Opaque m) \<or> resolve_guard ?db i expected save = Some y))
     (\<lambda>_ s'. \<not> busy s' \<and> resolve_guard ?db i expected save = None
        \<and> (\<exists>x t at. find_conflict ?db i = Some x
             \<and> committed s' = resolved_db ?db x save resolvedBy ?res t at)) e s"
    by (intro wp_transaction wp_conseq [OF wp_resolve_tx]) (use busy inv in auto)
  show ?thesis
    unfolding ResolveConflict_def Let_def if_not_P [OF False]
    by (intro wp_bindT wp_conseq [OF tx]) (use False in \<open>auto intro!: wp_conseq [OF get]\<close>)
qed

section \<open>Properties\<close>

lemma flag_checks_valid:
  assumes "flag_checks c f oc off detail = Inr (main, other, True, tr)"
  shows "valid_ident c" "valid_ident f" "valid_ident oc" "valid_ident off" "(c, f) \<noteq> (oc, off)"
  using assms
  by (auto simp: flag_checks_def Let_def validateIdent_None split: option.splits if_splits)

lemma flag_checks_pair:
  assumes "valid_ident c" "valid_ident f" "valid_ident oc" "valid_ident off" "(c, f) \<noteq> (oc, off)"
    and "trim_space detail \<noteq> []"
  shows "flag_checks c f oc off detail = Inr (min (c, f) (oc, off), max (c, f) (oc, off), True, trim_space detail)"
proof -
  have ne: "oc \<noteq> []" "off \<noteq> []" using assms(3,4) by (auto simp: valid_ident_def)
  have ok: "validateIdent n c = None" "validateIdent n f = None" "validateIdent n oc = None" "validateIdent n off = None" for n
    using assms(1-4) by (simp_all add: validateIdent_None)
  show ?thesis
  proof (cases "oc < c \<or> oc = c \<and> off < f")
    case True
    then have lt: "(oc, off) < (c, f)" by (auto simp: less_prod_def)
    have m: "min (c, f) (oc, off) = (oc, off)" "max (c, f) (oc, off) = (c, f)"
      by (simp_all only: min.absorb2 max.absorb1 less_imp_le [OF lt])
    show ?thesis
      unfolding m using True ne ok assms(5,6) by (auto simp: flag_checks_def Let_def)
  next
    case False
    with assms(5) have lt: "(c, f) < (oc, off)" by (auto simp: less_prod_def)
    have m: "min (c, f) (oc, off) = (c, f)" "max (c, f) (oc, off) = (oc, off)"
      by (simp_all only: min.absorb1 max.absorb2 less_imp_le [OF lt])
    show ?thesis
      unfolding m using False ne ok assms(5,6) by (auto simp: flag_checks_def Let_def)
  qed
qed

lemma flag_checks_swap:
  assumes "flag_checks c f oc off detail = Inr (main, other, True, tr)" "trim_space detail' \<noteq> []"
    "trim_space detail \<noteq> []"
  shows "flag_checks oc off c f detail' = Inr (main, other, True, trim_space detail')"
    and "flag_checks c f oc off detail' = Inr (main, other, True, trim_space detail')"
  using flag_checks_pair [OF flag_checks_valid(1-5) [OF assms(1)], of detail]
    flag_checks_pair [OF flag_checks_valid(1-5) [OF assms(1)], of detail']
    flag_checks_pair [OF flag_checks_valid(3,4,1,2) [OF assms(1)], of detail'] flag_checks_valid(5) [OF assms(1)]
    assms
  by (auto simp: min.commute max.commute)

lemma FlagClaim_run:
  assumes busy: "\<not> busy s" and inv: "conflicts_inv (committed s)"
    and run: "FlagClaimConflict c f oc off detail who e s = (Inr cf, s')"
  obtains main other h tr at where "\<not> busy s'" "flag_checks c f oc off detail = Inr (main, other, h, tr)"
    "open_conflict_id (committed s) ''claim'' (fst main) (snd main) = None"
    "committed s' = flagged_db main other h tr who at (committed s)"
    "get_conflict (committed s') (next_id (map x_id (conflicts (committed s)))) = Inr cf"
  using wp_FlagClaimConflict [OF busy inv, of c f oc off detail who e] run that
  by (auto simp: wp_def flagged_ok_def split: sum.splits prod.splits)

lemma flag_slot_taken:
  assumes busy: "\<not> busy s" and inv: "conflicts_inv (committed s)" and "\<not> faulty e"
    and ck: "flag_checks c f oc off detail = Inr (main, other, h, tr)"
    and op: "open_conflict_id (committed s) ''claim'' (fst main) (snd main) \<noteq> None"
    and run: "FlagClaimConflict c f oc off detail who e s = (r, s')"
  shows "r = Inl (claim_exists main)" "committed s' = committed s"
  using wp_FlagClaimConflict [OF busy inv, of c f oc off detail who e] assms(3) ck op run
  by (auto simp: wp_def flagged_ok_def split: sum.splits)

text \<open>C25: Claims do not depend on the direction they are flagged in.  After a claim between two documents was
  recorded, flagging the same pair again, in either order and with any detail, is refused with
  \<open>ErrConflict\<close> and changes nothing: both orders use the same slot.\<close>

theorem FlagClaim_symmetric:
  assumes "\<not> busy s" "conflicts_inv (committed s)" "oc \<noteq> []"
    and "FlagClaimConflict c f oc off detail who e s = (Inr cf, s')"
    and "trim_space detail' \<noteq> []" "\<not> faulty e'" "(a, b, x, y) \<in> {(c, f, oc, off), (oc, off, c, f)}"
    and "FlagClaimConflict a b x y detail' who' e' s' = (r, s'')"
  shows "(\<exists>err. r = Inl err \<and> errors_is err ErrConflict) \<and> committed s'' = committed s'"
proof -
  obtain main other h tr at where f: "\<not> busy s'" "flag_checks c f oc off detail = Inr (main, other, h, tr)"
    "open_conflict_id (committed s) ''claim'' (fst main) (snd main) = None"
    "committed s' = flagged_db main other h tr who at (committed s)"
    by (rule FlagClaim_run [OF assms(1,2,4)])
  have h: "h" using flag_checks_ok(5) [OF f(2)] assms(3) by simp
  have inv': "conflicts_inv (committed s')" using flagged_db_ok(1) [OF assms(2) f(2,3)] f(4) by simp
  have "open_conflict_id (committed s') ''claim'' (fst main) (snd main) \<noteq> None"
    by (auto simp: open_conflict_None f(4) flagged_db_def claim_row_def conflict_slot_def open_conflict_row_def)
  moreover have "flag_checks a b x y detail' = Inr (main, other, True, trim_space detail')"
    using flag_checks_swap [of c f oc off detail main other tr detail'] flag_checks_ok(3,4) [OF f(2)] f(2) h assms(5,7)
    by auto
  ultimately have "r = Inl (claim_exists main)" "committed s'' = committed s'"
    using flag_slot_taken [OF f(1) inv' assms(6) _ _ assms(8)] by blast+
  then show ?thesis by (simp add: claim_exists_def err_conflict_def)
qed

theorem FlagClaim_symmetric_witness:
  "\<exists>cf s'. FlagClaimConflict ''docs'' ''b'' ''docs'' ''a'' ''overlap'' ''ann'' (calm [] []) (idle initial_db 0) = (Inr cf, s')
     \<and> committed (snd (FlagClaimConflict ''docs'' ''a'' ''docs'' ''b'' ''again'' ''bob'' (calm [] []) s')) = committed s'"
proof -
  let ?run = "FlagClaimConflict ''docs'' ''b'' ''docs'' ''a'' ''overlap'' ''ann'' (calm [] []) (idle initial_db 0)"
  have tr: "trim_space ''overlap'' = ''overlap''" "trim_space ''again'' = ''again''"
    by (simp_all add: trim_space_word is_word_def)
  have "valid_ident ''docs''" "valid_ident ''a''" "valid_ident ''b''"
    by (simp_all add: valid_ident_def backslash_def)
  then obtain main other h where "flag_checks ''docs'' ''b'' ''docs'' ''a'' ''overlap'' = Inr (main, other, h, ''overlap'')"
    using flag_checks_pair [of "''docs''" "''b''" "''docs''" "''a''" "''overlap''"] tr by simp
  then obtain cf s' where run: "?run = (Inr cf, s')"
    using wp_FlagClaimConflict [of "idle initial_db 0" "''docs''" "''b''" "''docs''" "''a''" "''overlap''" "''ann''" "calm [] []"]
      conflicts_inv_initial
    by (cases ?run; cases "fst ?run") (auto simp: wp_def open_conflict_None initial_db_def)
  obtain r s'' where again: "FlagClaimConflict ''docs'' ''a'' ''docs'' ''b'' ''again'' ''bob'' (calm [] []) s' = (r, s'')"
    by (cases "FlagClaimConflict ''docs'' ''a'' ''docs'' ''b'' ''again'' ''bob'' (calm [] []) s'")
  from tr(2) have "trim_space ''again'' \<noteq> []" by simp
  with FlagClaim_symmetric [OF _ _ _ run _ calm_not_faulty _ again] conflicts_inv_initial run again
  show ?thesis by auto
qed

end
