(* ===== verification/Docs.thy ===== *)
theory Docs
  imports Conflicts "HOL-Library.Multiset"
begin

text \<open>
  Saving and reading documents: \<open>SaveDoc\<close> with its record-and-commit of a stale
  save, and the three read views \<open>ListDocs\<close>, \<open>DocHistory\<close> and \<open>GetDoc\<close>.
\<close>

section \<open>Definitions\<close>

definition save_tx :: "string \<Rightarrow> string \<Rightarrow> doc_save \<Rightarrow> doc_version store" where
  "save_tx c f inp =
     tryT (saveDocTx c f inp) (\<lambda>r. case r of
       Inr v \<Rightarrow> bindT tx_commit (\<lambda>_. ret v)
     | Inl err \<Rightarrow>
         if \<not> errors_is err ErrConflict \<or> s_base inp = None then fail err
         else bindT (upsertEditConflictTx c f inp) (\<lambda>i.
              bindT tx_commit (\<lambda>_. fail (ConflictRecordedError i err))))"

definition SaveDoc :: "string \<Rightarrow> string \<Rightarrow> doc_save \<Rightarrow> doc_version store" where
  "SaveDoc c f inp =
     (case validateIdent ''collection'' c of Some e \<Rightarrow> fail e | None \<Rightarrow>
      case validateIdent ''family'' f of Some e \<Rightarrow> fail e | None \<Rightarrow>
      case validateDocSave inp of Some e \<Rightarrow> fail e | None \<Rightarrow>
      transaction (save_tx c f inp))"

definition doc_meta_of :: "doc_row \<Rightarrow> doc_meta" where
  "doc_meta_of d =
     \<lparr>dm_collection = d_collection d, dm_family = d_family d, dm_version = d_version d, dm_title = d_title d,
      dm_status = d_status d, dm_tier = d_tier d, dm_editor = d_editor d, dm_created = d_created d\<rparr>"

text \<open>The rows that join with their family's \<open>MAX(version)\<close>, ordered by collection and family.\<close>

definition latest_docs :: "db \<Rightarrow> doc_row list" where
  "latest_docs db =
     sort_key doc_family
       (filter (\<lambda>d. d_version d = max_version db (d_collection d) (d_family d)) (doc_versions db))"

definition ListDocs :: "doc_meta list store" where
  "ListDocs = bindT (db_query latest_docs) (\<lambda>rows. ret (map doc_meta_of rows))"

text \<open>\<open>WHERE collection = ? AND family_id = ? ORDER BY version DESC\<close>.\<close>

definition family_desc :: "db \<Rightarrow> string \<Rightarrow> string \<Rightarrow> doc_row list" where
  "family_desc db c f = sort_key (\<lambda>d. - d_version d) (family_rows db c f)"

definition DocHistory :: "string \<Rightarrow> string \<Rightarrow> doc_meta list store" where
  "DocHistory c f =
     (case validateIdent ''collection'' c of Some e \<Rightarrow> fail e | None \<Rightarrow>
      case validateIdent ''family'' f of Some e \<Rightarrow> fail e | None \<Rightarrow>
      bindT (db_query (\<lambda>db. family_desc db c f)) (\<lambda>rows.
      if rows = [] then fail (Sentinel ErrNotFound) else ret (map doc_meta_of rows)))"

definition find_doc :: "db \<Rightarrow> string \<Rightarrow> string \<Rightarrow> int \<Rightarrow> doc_row option" where
  "find_doc db c f version =
     (if version \<le> 0 then (case family_desc db c f of [] \<Rightarrow> None | d # _ \<Rightarrow> Some d)
      else first_row (\<lambda>d. d_collection d = c \<and> d_family d = f \<and> d_version d = version) (doc_versions db))"

definition doc_link_rows :: "db \<Rightarrow> int \<Rightarrow> link_row list" where
  "doc_link_rows db i = sort_key l_position (filter (\<lambda>l. l_doc l = i) (doc_links db))"

definition doc_link_of :: "link_row \<Rightarrow> doc_link" where
  "doc_link_of l = \<lparr>lk_relation = l_relation l, lk_collection = l_collection l, lk_family = l_family l,
     lk_version = l_version l\<rparr>"

definition doc_full_of :: "doc_row \<Rightarrow> link_row list \<Rightarrow> doc_full" where
  "doc_full_of d ls =
     \<lparr>df_meta = doc_meta_of d, df_owner = d_owner d, df_audience = d_audience d,
      df_triggers = (if d_triggers d \<noteq> [] then split_on (CHR '','') (d_triggers d) else []),
      df_body = d_body d, df_links = map doc_link_of ls\<rparr>"

definition GetDoc :: "string \<Rightarrow> string \<Rightarrow> int \<Rightarrow> doc_full store" where
  "GetDoc c f version =
     (case validateIdent ''collection'' c of Some e \<Rightarrow> fail e | None \<Rightarrow>
      case validateIdent ''family'' f of Some e \<Rightarrow> fail e | None \<Rightarrow>
      bindT (db_query (\<lambda>db. find_doc db c f version)) (\<lambda>row.
      case row of
        None \<Rightarrow> fail (Sentinel ErrNotFound)
      | Some d \<Rightarrow>
          bindT (db_query (\<lambda>db. doc_link_rows db (d_id d))) (\<lambda>ls. ret (doc_full_of d ls))))"

section \<open>What a save does\<close>

text \<open>The answer of the checks that need no database.\<close>

definition save_checks :: "string \<Rightarrow> string \<Rightarrow> doc_save \<Rightarrow> gerror option" where
  "save_checks c f inp =
     (case validateIdent ''collection'' c of Some e \<Rightarrow> Some e | None \<Rightarrow>
      case validateIdent ''family'' f of Some e \<Rightarrow> Some e | None \<Rightarrow> validateDocSave inp)"

lemma save_checks_None: "save_checks c f inp = None \<longleftrightarrow> valid_ident c \<and> valid_ident f \<and> valid_save inp"
  by (auto simp: save_checks_def validateIdent_None validateDocSave_None split: option.split)
     (metis option.distinct(1) validateIdent_None)+

lemma save_checks_invalid: "save_checks c f inp = Some e \<Longrightarrow> errors_is e ErrInvalid"
  by (auto simp: save_checks_def dest: validateIdent_invalid validateDocSave_invalid split: option.splits)

lemma save_checks_wrap: "save_checks c f inp = Some e \<Longrightarrow> \<exists>m. e = Wrapf ErrInvalid m"
  by (auto simp: save_checks_def dest: validateIdent_wrap validateDocSave_wrap split: option.splits)

lemma save_guard_wrap: "save_guard db c f inp = Some x \<Longrightarrow> \<exists>k m. x = Wrapf k m"
  by (auto simp: save_guard_def err_invalid_def stale_error_def err_conflict_def split: if_splits)

lemma SaveDoc_checks:
  "SaveDoc c f inp = (case save_checks c f inp of Some e \<Rightarrow> fail e | None \<Rightarrow> transaction (save_tx c f inp))"
  by (simp add: SaveDoc_def save_checks_def split: option.split)

text \<open>The two ways a save changes the database, and how each is answered.\<close>

inductive save_effect :: "string \<Rightarrow> string \<Rightarrow> doc_save \<Rightarrow> db \<Rightarrow> gerror + doc_version \<Rightarrow> db \<Rightarrow> bool"
  for c f inp db where
  stored: "save_guard db c f inp = None
     \<Longrightarrow> save_effect c f inp db (Inr (saved_version db c f inp t)) (saved_db db c f inp t)"
| recorded: "save_guard db c f inp = Some err \<Longrightarrow> errors_is err ErrConflict \<Longrightarrow> s_base inp = Some base
     \<Longrightarrow> recorded_edit c f inp base at db = (i, db')
     \<Longrightarrow> save_effect c f inp db (Inl (ConflictRecordedError i err)) db'"

lemma errors_conflict_base:
  "save_guard db c f inp = Some err \<Longrightarrow> errors_is err ErrConflict \<Longrightarrow> \<exists>b. s_base inp = Some b \<and> b \<noteq> max_version db c f"
  by (auto dest!: save_guard_conflict(1) simp: stale_base_def split: option.splits)

lemma wp_save_tx:
  assumes busy: "busy s" and inv: "docs_inv (pending s)" "conflicts_inv (pending s)"
    and v: "valid_ident c" "valid_ident f" "valid_save inp" "wire_save inp"
  shows "wp (save_tx c f inp)
     (\<lambda>x s'. committed s' = committed s
          \<and> (faulty e \<and> (\<exists>m. x = Opaque m)
             \<or> save_guard (pending s) c f inp = Some x \<and> errors_is x ErrInvalid)
        \<or> save_effect c f inp (pending s) (Inl x) (committed s'))
     (\<lambda>a s'. save_effect c f inp (pending s) (Inr a) (committed s')) e s"
proof -
  have rec: "wp (bindT (upsertEditConflictTx c f inp) (\<lambda>i.
              bindT tx_commit (\<lambda>_. fail (ConflictRecordedError i err))))
      (\<lambda>x s'. committed s' = committed s \<and> faulty e \<and> (\<exists>m. x = Opaque m)
        \<or> save_effect c f inp (pending s) (Inl x) (committed s'))
      (\<lambda>a s'. save_effect c f inp (pending s) (Inr a) (committed s')) e s1"
    if g: "save_guard (pending s) c f inp = Some err" "errors_is err ErrConflict"
      and s1: "busy s1" "committed s1 = committed s" "pending s1 = pending s" for err s1
  proof -
    obtain base where b: "s_base inp = Some base" using errors_conflict_base [OF g] by auto
    show ?thesis
      by (rule wp_bindT, rule wp_conseq [OF wp_upsertEditConflictTx [OF s1(1) _ v(4,1,2) b]])
         (use inv(2) s1 in \<open>auto intro!: wp_intros save_effect.recorded [OF g b, OF sym]\<close>)
  qed
  show ?thesis
    unfolding save_tx_def
    apply (rule wp_tryT, rule wp_conseq [OF wp_saveDocTx [OF busy inv(1) v(3,1,2)]])
    subgoal for x s'
      using save_guard_conflict(2) [of "pending s" c f inp x] errors_conflict_base [of "pending s" c f inp x]
      by (auto intro!: wp_if wp_fail wp_conseq [OF rec])
    subgoal for a s'
      by (auto intro!: wp_intros) (metis save_effect.stored)
    done
qed

inductive_cases save_effect_okE: "save_effect c f inp db (Inr v) db'"
inductive_cases save_effect_errE: "save_effect c f inp db (Inl x) db'"

lemma save_effect_inv:
  assumes "save_effect c f inp db r db'" "docs_inv db" "conflicts_inv db"
    and v: "valid_ident c" "valid_ident f" "valid_save inp" "wire_save inp"
  shows "docs_inv db'" and "conflicts_inv db'" and "history_kept db db'"
proof -
  have "docs_inv db' \<and> conflicts_inv db' \<and> history_kept db db'"
    using assms(1)
  proof cases
    case (stored t)
    with assms(2,3) v show ?thesis by (simp add: docs_inv_saved history_saved_db)
  next
    case (recorded err base at i)
    then have "db' = snd (recorded_edit c f inp base at db)" by simp
    with assms(2,3) v recorded_edit_inv [of db inp c f base at] show ?thesis
      by (simp add: recorded_edit_def)
  qed
  then show "docs_inv db'" "conflicts_inv db'" "history_kept db db'" by auto
qed

lemma wp_SaveDoc:
  assumes busy: "\<not> busy s" and inv: "docs_inv (committed s)" "conflicts_inv (committed s)" and w: "wire_save inp"
  shows "wp (SaveDoc c f inp)
     (\<lambda>x s'. \<not> busy s' \<and>
        (committed s' = committed s
          \<and> (save_checks c f inp = Some x
             \<or> save_checks c f inp = None
               \<and> (faulty e \<and> (\<exists>m. x = Opaque m) \<or> save_guard (committed s) c f inp = Some x \<and> errors_is x ErrInvalid))
         \<or> save_checks c f inp = None \<and> save_effect c f inp (committed s) (Inl x) (committed s')))
     (\<lambda>a s'. \<not> busy s' \<and> save_checks c f inp = None \<and> save_effect c f inp (committed s) (Inr a) (committed s')) e s"
proof (cases "save_checks c f inp")
  case None
  then have v: "valid_ident c" "valid_ident f" "valid_save inp" by (simp_all add: save_checks_None)
  show ?thesis
    unfolding SaveDoc_checks None option.case
    by (intro wp_transaction busy wp_conseq [OF wp_save_tx [OF _ _ _ v w]]) (use inv busy in auto)
next
  case (Some x)
  then show ?thesis
    by (simp add: SaveDoc_checks wp_fail busy)
qed

section \<open>Reading a family\<close>

lemma family_desc_set: "set (family_desc db c f) = set (family_rows db c f)"
  by (simp add: family_desc_def)

lemma family_versions_distinct:
  assumes "docs_inv db"
  shows "distinct (map d_version (family_rows db c f))"
proof -
  have "distinct (map doc_key (family_rows db c f))"
    using assms by (simp add: family_rows_def docs_inv_def distinct_map_filter)
  then have "inj_on doc_key (set (family_rows db c f))" "distinct (family_rows db c f)"
    by (simp_all add: distinct_map)
  then show ?thesis
    by (auto simp: distinct_map inj_on_def family_rows_set doc_key_def doc_family_def)
qed

text \<open>A family with \<open>m\<close> versions has exactly the versions 1 to \<open>m\<close>.\<close>

lemma family_versions_set:
  assumes inv: "docs_inv db"
  shows "d_version ` set (family_rows db c f) = {1..max_version db c f}"
proof
  show "d_version ` set (family_rows db c f) \<subseteq> {1..max_version db c f}"
    using inv max_version_ge [of _ db c f] by (auto simp: family_rows_set docs_inv_def doc_row_ok_def)
  show "{1..max_version db c f} \<subseteq> d_version ` set (family_rows db c f)"
  proof
    fix k assume k: "k \<in> {1..max_version db c f}"
    then have "max_version db c f \<noteq> 0" by auto
    then obtain d where d: "d \<in> set (doc_versions db)" "doc_family d = (c, f)" "d_version d = max_version db c f"
      by (rule max_version_in)
    show "k \<in> d_version ` set (family_rows db c f)"
    proof (cases "k = max_version db c f")
      case True
      with d show ?thesis by (metis family_rows_set imageI)
    next
      case False
      with k d(3) have "1 \<le> k \<and> k < d_version d" by auto
      with inv d(1,2) obtain d' where "d' \<in> set (doc_versions db)" "doc_family d' = (c, f)" "d_version d' = k"
        unfolding docs_inv_def gapless_def by metis
      then show ?thesis by (metis family_rows_set imageI)
    qed
  qed
qed

lemma family_desc_versions:
  assumes inv: "docs_inv db"
  shows "map d_version (family_desc db c f) = rev [1..max_version db c f]"
proof -
  let ?vs = "rev (map d_version (family_desc db c f))"
  have "sorted (map (\<lambda>d. - d_version d) (family_desc db c f))"
    by (simp add: family_desc_def)
  then have "sorted ?vs"
    by (simp add: sorted_wrt_rev sorted_wrt_map)
  moreover have "mset (map d_version (family_desc db c f)) = mset (map d_version (family_rows db c f))"
    by (simp add: family_desc_def)
  then have "distinct ?vs"
    using family_versions_distinct [OF inv, of c f] by (metis distinct_rev mset_eq_imp_distinct_iff)
  moreover have "set ?vs = {1..max_version db c f}"
    using family_versions_set [OF inv, of c f] by (simp add: family_desc_set)
  ultimately have "?vs = [1..max_version db c f]"
    by (intro sorted_distinct_set_unique) auto
  then show ?thesis by (metis rev_rev_ident)
qed

lemma find_doc_iff:
  assumes inv: "docs_inv db" and v: "1 \<le> version"
  shows "find_doc db c f version = Some d \<longleftrightarrow> d \<in> set (doc_versions db) \<and> doc_key d = (c, f, version)"
proof -
  have "d' = d" if "d \<in> set (doc_versions db)" "d' \<in> set (doc_versions db)" "doc_key d = doc_key d'" for d'
    using inv that unfolding docs_inv_def by (metis distinct_map_unique)
  then show ?thesis
    using v by (auto simp: find_doc_def doc_key_def dest: first_row_Some intro!: first_row_unique)
qed

lemma find_doc_latest:
  assumes inv: "docs_inv db" and "version \<le> 0" and m: "1 \<le> max_version db c f"
  shows "find_doc db c f version = find_doc db c f (max_version db c f)"
proof -
  have "family_desc db c f \<noteq> []" using family_desc_versions [OF inv, of c f] m by force
  then obtain d ds where d: "family_desc db c f = d # ds" by (cases "family_desc db c f") auto
  then have "d_version d = max_version db c f"
    using family_desc_versions [OF inv, of c f] m by (simp add: upto_rec2)
  moreover have "d \<in> set (family_rows db c f)" using d by (metis family_desc_set list.set_intros(1))
  ultimately have "find_doc db c f (max_version db c f) = Some d"
    using m by (simp add: find_doc_iff [OF inv] family_rows_set doc_key_def doc_family_def)
  with d assms(2) show ?thesis by (simp add: find_doc_def)
qed

section \<open>What the reads return\<close>

definition get_doc :: "db \<Rightarrow> string \<Rightarrow> string \<Rightarrow> int \<Rightarrow> gerror + doc_full" where
  "get_doc db c f version =
     (case validateIdent ''collection'' c of Some e \<Rightarrow> Inl e | None \<Rightarrow>
      case validateIdent ''family'' f of Some e \<Rightarrow> Inl e | None \<Rightarrow>
      case find_doc db c f version of
        None \<Rightarrow> Inl (Sentinel ErrNotFound)
      | Some d \<Rightarrow> Inr (doc_full_of d (doc_link_rows db (d_id d))))"

lemma wp_GetDoc:
  assumes "\<not> busy s"
  shows "wp (GetDoc c f version)
     (\<lambda>x s'. committed s' = committed s \<and> \<not> busy s'
        \<and> (faulty e \<and> (\<exists>m. x = Opaque m) \<or> get_doc (committed s) c f version = Inl x))
     (\<lambda>a s'. committed s' = committed s \<and> \<not> busy s' \<and> get_doc (committed s) c f version = Inr a) e s"
  unfolding GetDoc_def by (intro wp_intros) (auto simp: assms get_doc_def)

lemma GetDoc_clean:
  assumes "\<not> busy s" "\<not> faulty e"
  shows "fst (GetDoc c f version e s) = get_doc (committed s) c f version"
  using wp_GetDoc [OF assms(1), of c f version e] assms(2)
  by (auto simp: wp_def split: prod.splits sum.splits)

text \<open>The document a reader gets for a saved version, whatever its status is by then.\<close>

definition saved_view :: "string \<Rightarrow> string \<Rightarrow> doc_version \<Rightarrow> doc_save \<Rightarrow> string \<Rightarrow> doc_full" where
  "saved_view c f v inp st =
     \<lparr>df_meta = \<lparr>dm_collection = c, dm_family = f, dm_version = v_version v, dm_title = s_title inp,
        dm_status = st, dm_tier = s_tier inp, dm_editor = s_editor inp, dm_created = v_created v\<rparr>,
      df_owner = s_owner inp, df_audience = s_audience inp, df_triggers = elems (s_triggers inp),
      df_body = s_body inp, df_links = elems (s_links inp)\<rparr>"

lemma split_stored_triggers:
  assumes "valid_save inp"
  shows "join '','' (elems (s_triggers inp)) \<noteq> [] \<Longrightarrow> split_on (CHR '','') (join '','' (elems (s_triggers inp))) = elems (s_triggers inp)"
    and "join '','' (elems (s_triggers inp)) = [] \<Longrightarrow> elems (s_triggers inp) = []"
  using assms by (auto simp: valid_save_def join_eq_Nil intro!: split_on_join)

lemma saved_doc_links:
  assumes inv: "docs_inv db"
  shows "doc_link_rows (saved_db db c f inp t) (next_id (map d_id (doc_versions db))) = saved_links db inp"
proof -
  let ?i = "next_id (map d_id (doc_versions db))"
  have "filter (\<lambda>l. l_doc l = ?i) (doc_links db) = []"
    using docs_inv_links [OF inv] by (fastforce simp: filter_empty_conv dest: next_id_fresh_map [where f = d_id])
  moreover have "filter (\<lambda>l. l_doc l = ?i) (saved_links db inp) = saved_links db inp"
    by (auto simp: saved_links_def filter_id_conv)
  moreover have "sorted (map l_position (saved_links db inp))"
    by (simp add: saved_links_def o_def sorted_fst_numbered)
  ultimately show ?thesis
    by (simp add: doc_link_rows_def saved_db_def sort_key_id_if_sorted)
qed

lemma saved_links_view: "map doc_link_of (saved_links db inp) = elems (s_links inp)"
proof -
  have "doc_link_of (new_link_row i pl) = snd pl" for i pl
    by (simp add: doc_link_of_def new_link_row_def)
  then show ?thesis by (simp add: saved_links_def o_def)
qed

text \<open>What is stored about a version does not change afterwards.\<close>

lemma find_doc_kept:
  assumes "docs_inv db" "docs_inv db'" "history_kept db db'" "1 \<le> version" "find_doc db c f version = Some d"
  shows "\<exists>d'. find_doc db' c f version = Some d' \<and> doc_step d d' \<and> doc_link_rows db' (d_id d') = doc_link_rows db (d_id d)"
proof -
  have d: "d \<in> set (doc_versions db)" "doc_key d = (c, f, version)"
    using assms(1,4,5) by (simp_all add: find_doc_iff)
  obtain d' where d': "d' \<in> set (doc_versions db')" "doc_step d d'"
    using assms(3) d(1) unfolding history_kept_def by (auto elim: grows_mem)
  then have "find_doc db' c f version = Some d'"
    using assms(2,4) d(2) by (simp add: find_doc_iff doc_step_sel)
  moreover have "filter (\<lambda>l. l_doc l = d_id d) (doc_links db') = filter (\<lambda>l. l_doc l = d_id d) (doc_links db)"
    using assms(3) d(1) unfolding history_kept_def
    by (elim conjE) (erule appends_filter [where P = "\<lambda>_. True", simplified], simp)
  ultimately show ?thesis
    using d'(2) by (auto simp: doc_link_rows_def doc_step_sel)
qed

lemma get_doc_saved:
  assumes inv: "docs_inv db" "docs_inv db'" and v: "valid_ident c" "valid_ident f" "valid_save inp"
    and g: "save_guard db c f inp = None" and h: "history_kept (saved_db db c f inp t) db'"
  shows "\<exists>st. get_doc db' c f (max_version db c f + 1) = Inr (saved_view c f (saved_version db c f inp t) inp st)
            \<and> (st = s_status inp \<or> s_status inp = ''active'' \<and> st = ''superseded'')"
proof -
  let ?n = "max_version db c f + 1" and ?db = "saved_db db c f inp t" and ?d = "saved_row db c f inp t"
  have inv1: "docs_inv ?db" by (rule docs_inv_saved [OF inv(1) v(3,1,2) g])
  have n: "1 \<le> ?n" using max_version_nonneg [OF inv(1)] by simp
  have "?d \<in> set (doc_versions ?db)" by (simp add: saved_db_def)
  then have "find_doc ?db c f ?n = Some ?d" by (simp add: find_doc_iff [OF inv1 n])
  from find_doc_kept [OF inv1 inv(2) h n this] obtain d' where
    d': "find_doc db' c f ?n = Some d'" "doc_step ?d d'" "doc_link_rows db' (d_id d') = saved_links db inp"
    by (auto simp: saved_doc_links [OF inv(1)])
  have "doc_full_of d' (saved_links db inp) = saved_view c f (saved_version db c f inp t) inp (d_status d')"
    by (subst doc_step_sel(4) [OF d'(2)])
       (use split_stored_triggers [OF v(3)] in \<open>auto simp: doc_full_of_def doc_meta_of_def saved_view_def
          saved_version_def saved_row_def new_doc_row_def saved_links_view\<close>)
  moreover have "d_status d' = s_status inp \<or> s_status inp = ''active'' \<and> d_status d' = ''superseded''"
    using d'(2) by (auto simp: doc_step_def)
  ultimately show ?thesis
    using v(1,2) d' by (auto simp: get_doc_def validateIdent_None [THEN iffD2])
qed

lemma distinct_same_length:
  assumes "distinct xs" "\<And>x y. x \<in> set xs \<Longrightarrow> y \<in> set xs \<Longrightarrow> x = y"
  shows "length xs \<le> 1"
proof (cases xs)
  case (Cons x ys)
  with assms(2) [of x] have "set ys \<subseteq> {x}" by auto
  with assms(1) Cons show ?thesis by (cases ys) auto
qed simp

section \<open>Properties\<close>

lemma SaveDoc_run:
  assumes busy: "\<not> busy s" and inv: "docs_inv (committed s)" "conflicts_inv (committed s)" and w: "wire_save inp"
    and run: "SaveDoc c f inp e s = (r, s')"
  shows "\<not> busy s'"
    and "committed s' = committed s
           \<and> (\<exists>x. r = Inl x \<and> (save_checks c f inp = Some x
                \<or> save_checks c f inp = None
                  \<and> (faulty e \<and> (\<exists>m. x = Opaque m) \<or> save_guard (committed s) c f inp = Some x \<and> errors_is x ErrInvalid)))
         \<or> save_checks c f inp = None \<and> save_effect c f inp (committed s) r (committed s')"
proof -
  have "\<not> busy s' \<and> (committed s' = committed s
           \<and> (\<exists>x. r = Inl x \<and> (save_checks c f inp = Some x
                \<or> save_checks c f inp = None
                  \<and> (faulty e \<and> (\<exists>m. x = Opaque m) \<or> save_guard (committed s) c f inp = Some x \<and> errors_is x ErrInvalid)))
         \<or> save_checks c f inp = None \<and> save_effect c f inp (committed s) r (committed s'))"
    using wp_SaveDoc [OF busy inv w, of c f e] run by (auto simp: wp_def split: sum.splits)
  then show "\<not> busy s'" and "committed s' = committed s
           \<and> (\<exists>x. r = Inl x \<and> (save_checks c f inp = Some x
                \<or> save_checks c f inp = None
                  \<and> (faulty e \<and> (\<exists>m. x = Opaque m) \<or> save_guard (committed s) c f inp = Some x \<and> errors_is x ErrInvalid)))
         \<or> save_checks c f inp = None \<and> save_effect c f inp (committed s) r (committed s')"
    by blast+
qed

definition sample_save :: "int option \<Rightarrow> doc_save" where
  "sample_save base =
     \<lparr>s_title = ''Intro'', s_status = ''active'', s_tier = ''b'', s_triggers = Some [''go'', ''sql''],
      s_owner = ''ops'', s_audience = ''all'', s_body = ''text'',
      s_links = Some [\<lparr>lk_relation = ''reference'', lk_collection = ''kernel'', lk_family = ''base'', lk_version = 1\<rparr>],
      s_editor = ''ann'', s_base = base\<rparr>"

lemma sample_save_ok: "wire_save (sample_save b)" if "\<And>x. b = Some x \<Longrightarrow> int64_range x"
  using that by (auto simp: wire_save_def sample_save_def wire_link_def valid_utf8_ascii int64_range_def split: option.split)

lemma sample_save_checks: "save_checks ''docs'' ''intro'' (sample_save b) = None"
proof -
  have "valid_save (sample_save b) = valid_save (sample_save None)" by (simp add: valid_save_def sample_save_def)
  moreover have "save_checks ''docs'' ''intro'' (sample_save None) = None" by code_simp
  ultimately show ?thesis by (simp add: save_checks_None)
qed

lemma sample_self_link: "self_link ''docs'' ''intro'' n (s_links (sample_save b)) = None"
  by (simp add: self_link_def sample_save_def numbered_def)

text \<open>The store after one save.\<close>

definition sample_db :: db where
  "sample_db = saved_db initial_db ''docs'' ''intro'' (sample_save None) ''2024-01-01T00:00:00Z''"

lemma sample_db_inv: "docs_inv sample_db" "conflicts_inv sample_db"
proof -
  have "save_guard initial_db ''docs'' ''intro'' (sample_save None) = None" by code_simp
  then show "docs_inv sample_db"
    using sample_save_checks [of None] by (simp add: sample_db_def docs_inv_saved docs_inv_initial save_checks_None)
  show "conflicts_inv sample_db" by (simp add: sample_db_def conflicts_inv_initial)
qed

lemma sample_db_docs: "map doc_key (doc_versions sample_db) = [(''docs'', ''intro'', 1)]"
  by code_simp

lemma sample_db_max: "max_version sample_db ''docs'' ''intro'' = 1"
  by code_simp

lemma sample_idents: "valid_ident ''docs''" "valid_ident ''intro''"
  using sample_save_checks [of None] by (simp_all add: save_checks_None)

text \<open>C2: A save is all or nothing.  Whatever call on the database fails, and wherever, \<open>SaveDoc\<close>
  returns with the connection free and the database is either exactly as it was, and then an error
  is reported, or it holds exactly one of the two intended effects: the new version with its links and
  the demotion of the previous active one, or the conflict record of a stale save.  Without a
  failure of the database the only error that leaves no trace is \<open>ErrInvalid\<close>.\<close>

theorem SaveDoc_atomic:
  assumes "\<not> busy s" "docs_inv (committed s)" "conflicts_inv (committed s)" "wire_save inp"
    and "SaveDoc c f inp e s = (r, s')"
  shows "\<not> busy s' \<and>
    (committed s' = committed s \<and> (\<exists>x. r = Inl x \<and> (errors_is x ErrInvalid \<or> faulty e \<and> (\<exists>m. x = Opaque m)))
     \<or> save_effect c f inp (committed s) r (committed s'))"
  using SaveDoc_run [OF assms] by (auto dest: save_checks_invalid)

theorem SaveDoc_atomic_witness:
  "let (r, s') = SaveDoc ''docs'' ''intro'' (sample_save None) (calm ''2024-01-01T00:00:00Z'' []) (idle initial_db 0)
   in \<not> busy s' \<and> (committed s' = initial_db \<or> save_effect ''docs'' ''intro'' (sample_save None) initial_db r (committed s'))"
proof -
  obtain r s' where run:
    "SaveDoc ''docs'' ''intro'' (sample_save None) (calm ''2024-01-01T00:00:00Z'' []) (idle initial_db 0) = (r, s')"
    by (cases "SaveDoc ''docs'' ''intro'' (sample_save None) (calm ''2024-01-01T00:00:00Z'' []) (idle initial_db 0)")
  show ?thesis
    using SaveDoc_atomic [OF _ _ _ sample_save_ok run] docs_inv_initial conflicts_inv_initial run by auto
qed

text \<open>C7: The optimistic lock.  With a base version given, valid input and a database that answers, a save
  that targets an existing collection and does not link to itself is stored exactly when the base is the
  family's current version, and gets the next number; otherwise nothing of it is stored, the reply is a
  \<open>ConflictRecordedError\<close> that wraps \<open>ErrConflict\<close>, and its id names the record that holds the attempt.\<close>

theorem SaveDoc_optimistic_lock:
  assumes "\<not> busy s" "docs_inv (committed s)" "conflicts_inv (committed s)" "wire_save inp" "\<not> faulty e"
    and "save_checks c f inp = None" "c \<in> c_name ` set (collections (committed s))"
    and "s_base inp = Some base" "self_link c f (max_version (committed s) c f + 1) (s_links inp) = None"
    and "SaveDoc c f inp e s = (r, s')"
  shows "if base = max_version (committed s) c f
    then \<exists>v. r = Inr v \<and> v_version v = base + 1 \<and> max_version (committed s') c f = base + 1
    else \<exists>i err at. r = Inl (ConflictRecordedError i err) \<and> errors_is err ErrConflict
           \<and> (i, committed s') = recorded_edit c f inp base at (committed s)
           \<and> doc_versions (committed s') = doc_versions (committed s)"
proof -
  let ?db = "committed s"
  have inv: "docs_inv ?db" "conflicts_inv ?db" by (fact assms)+
  have v: "valid_ident c" "valid_ident f" "valid_save inp" using assms(6) by (simp_all add: save_checks_None)
  have g: "save_guard ?db c f inp = (if base = max_version ?db c f then None else Some (stale_error inp (max_version ?db c f)))"
    using assms(7-9) by (auto simp: save_guard_def stale_base_def count_collections_0)
  have eff: "save_effect c f inp ?db r (committed s')"
    using SaveDoc_run(2) [OF assms(1-4,10)] assms(5,6) g
    by (auto simp: stale_error_def err_conflict_def split: if_splits)
  then show ?thesis
  proof cases
    case (stored t)
    have "d_version (saved_row ?db c f inp t) \<le> max_version (saved_db ?db c f inp t) c f"
      by (rule max_version_ge) (simp_all add: saved_db_def)
    moreover have "max_version (saved_db ?db c f inp t) c f \<le> max_version ?db c f + 1"
    proof (cases "max_version (saved_db ?db c f inp t) c f = 0")
      case False
      then obtain d where "d \<in> set (doc_versions (saved_db ?db c f inp t))" "doc_family d = (c, f)"
          "d_version d = max_version (saved_db ?db c f inp t) c f"
        by (rule max_version_in)
      then show ?thesis
        using max_version_ge [of _ ?db c f] by (fastforce simp: saved_db_def elim: demoted_mem)
    qed (use max_version_nonneg [OF inv(1), of c f] in simp)
    ultimately show ?thesis using stored g by (auto simp: saved_version_def split: if_splits)
  next
    case (recorded err base' at i)
    have "doc_versions (snd (recorded_edit c f inp base at ?db)) = doc_versions ?db"
      by (simp add: recorded_edit_def)
    moreover from recorded assms(8) have "(i, committed s') = recorded_edit c f inp base at ?db" by simp
    ultimately have "doc_versions (committed s') = doc_versions ?db" by (metis snd_conv)
    moreover have "base \<noteq> max_version ?db c f" using g recorded(2) by auto
    moreover have "(i, committed s') = recorded_edit c f inp base at ?db" using recorded assms(8) by simp
    ultimately show ?thesis using recorded(1,3) by auto
  qed
qed


theorem SaveDoc_optimistic_lock_witness:
  "\<exists>v s'. SaveDoc ''docs'' ''intro'' (sample_save (Some 0)) (calm ''2024-01-01T00:00:00Z'' []) (idle initial_db 0) = (Inr v, s')
     \<and> v_version v = 1"
proof -
  let ?run = "SaveDoc ''docs'' ''intro'' (sample_save (Some 0)) (calm ''2024-01-01T00:00:00Z'' []) (idle initial_db 0)"
  obtain r s' where run: "?run = (r, s')" by (cases ?run)
  have m: "max_version initial_db ''docs'' ''intro'' = 0"
    by (simp add: max_version_def family_rows_def initial_db_def)
  have "''docs'' \<in> c_name ` set (collections initial_db)" by (simp add: initial_db_def)
  then show ?thesis
    using SaveDoc_optimistic_lock [OF _ _ _ sample_save_ok _ sample_save_checks _ _ sample_self_link run, of 0]
      docs_inv_initial conflicts_inv_initial run m
    by (auto simp: sample_save_def int64_range_def)
qed

text \<open>C21: A saved version reads back as it was written, for ever.  After \<open>SaveDoc\<close> returned version \<open>v\<close>,
  in every later state of the store \<open>GetDoc\<close> for that version returns the title, owner, audience, tier,
  body, editor, triggers and links of the save, in their order; only its status may since have gone from
  active to superseded.\<close>

theorem SaveDoc_GetDoc:
  assumes "\<not> busy s" "docs_inv (committed s)" "conflicts_inv (committed s)" "wire_save inp"
    and "SaveDoc c f inp e s = (Inr v, s')"
    and "history_kept (committed s') (committed t)" "docs_inv (committed t)" "\<not> busy t" "\<not> faulty e'"
  shows "\<exists>st. fst (GetDoc c f (v_version v) e' t) = Inr (saved_view c f v inp st)
           \<and> (st = s_status inp \<or> s_status inp = ''active'' \<and> st = ''superseded'')"
proof -
  have ok: "save_checks c f inp = None" "save_effect c f inp (committed s) (Inr v) (committed s')"
    using SaveDoc_run(2) [OF assms(1-5)] by auto
  from ok(2) obtain t0 where st: "save_guard (committed s) c f inp = None"
      "v = saved_version (committed s) c f inp t0" "committed s' = saved_db (committed s) c f inp t0"
    by (rule save_effect_okE)
  then have "v_version v = max_version (committed s) c f + 1" by (simp add: saved_version_def)
  with get_doc_saved [OF assms(2,7) _ _ _ st(1), of t0] ok(1) st(2,3) assms(6) GetDoc_clean [OF assms(8,9)]
  show ?thesis by (simp add: save_checks_None)
qed

theorem SaveDoc_GetDoc_witness:
  "\<exists>v s'. SaveDoc ''docs'' ''intro'' (sample_save None) (calm ''2024-01-01T00:00:00Z'' []) (idle initial_db 0) = (Inr v, s')
     \<and> (\<exists>st. fst (GetDoc ''docs'' ''intro'' (v_version v) (calm ''2024-01-02T00:00:00Z'' []) s')
          = Inr (saved_view ''docs'' ''intro'' v (sample_save None) st))"
proof -
  let ?run = "SaveDoc ''docs'' ''intro'' (sample_save None) (calm ''2024-01-01T00:00:00Z'' []) (idle initial_db 0)"
  obtain r s' where run: "?run = (r, s')" by (cases ?run)
  have ok: "is_ok r = is_ok (fst ?run)" using run by simp
  have "is_ok (fst ?run)" by code_simp
  with ok obtain v where r: "r = Inr v" by (auto simp: is_ok_iff)
  have pre: "\<not> busy (idle initial_db 0)" "docs_inv (committed (idle initial_db 0))"
    "conflicts_inv (committed (idle initial_db 0))" "wire_save (sample_save None)"
    using docs_inv_initial conflicts_inv_initial sample_save_ok [of None] by simp_all
  note step = SaveDoc_run [OF pre run]
  have v: "valid_ident ''docs''" "valid_ident ''intro''" "valid_save (sample_save None)"
    using sample_save_checks [of None] by (simp_all add: save_checks_None)
  have "docs_inv (committed s')"
    using step(2) r save_effect_inv(1) [OF _ pre(2,3) v pre(4)] by auto
  then show ?thesis
    using SaveDoc_GetDoc [OF pre run [unfolded r] history_refl _ step(1) calm_not_faulty] run r by blast
qed

text \<open>C22: A family's history is complete.  On a database that answers, \<open>DocHistory\<close> of a family with \<open>n > 0\<close> versions
  returns exactly the versions \<open>n\<close>, \<open>n - 1\<close>, ..., 1, and \<open>ErrNotFound\<close> for a family that has none; at
  most one of the versions it lists is active.\<close>

theorem DocHistory_complete:
  assumes "\<not> busy s" "docs_inv (committed s)" "\<not> faulty e" "valid_ident c" "valid_ident f"
  shows "if max_version (committed s) c f = 0 then fst (DocHistory c f e s) = Inl (Sentinel ErrNotFound)
    else \<exists>ms. fst (DocHistory c f e s) = Inr ms \<and> map dm_version ms = rev [1..max_version (committed s) c f]
       \<and> length (filter (\<lambda>m. dm_status m = ''active'') ms) \<le> 1"
proof -
  let ?rows = "family_desc (committed s) c f"
  have run: "fst (DocHistory c f e s) = (if ?rows = [] then Inl (Sentinel ErrNotFound) else Inr (map doc_meta_of ?rows))"
  proof -
    have "wp (DocHistory c f)
       (\<lambda>x s'. Inl x = (if ?rows = [] then Inl (Sentinel ErrNotFound) else Inr (map doc_meta_of ?rows)))
       (\<lambda>a s'. Inr a = (if ?rows = [] then Inl (Sentinel ErrNotFound) else Inr (map doc_meta_of ?rows))) e s"
      unfolding DocHistory_def using assms by (auto intro!: wp_intros simp: validateIdent_None [THEN iffD2])
    then show ?thesis by (auto simp: wp_def split: prod.splits sum.splits)
  qed
  have vs: "map d_version ?rows = rev [1..max_version (committed s) c f]" by (rule family_desc_versions [OF assms(2)])
  have empty: "?rows = [] \<longleftrightarrow> max_version (committed s) c f = 0"
  proof -
    have "?rows = [] \<longleftrightarrow> rev [1..max_version (committed s) c f] = []" using vs by (metis map_is_Nil_conv)
    with max_version_nonneg [OF assms(2), of c f] show ?thesis by auto
  qed
  have "d = d'" if "d \<in> set (filter (\<lambda>d. d_status d = ''active'') ?rows)" "d' \<in> set (filter (\<lambda>d. d_status d = ''active'') ?rows)" for d d'
    using assms(2) that unfolding docs_inv_def one_active_def by (auto simp: family_desc_set family_rows_set)
  moreover have "distinct ?rows" using vs by (metis distinct_map distinct_rev distinct_upto)
  ultimately have "length (filter (\<lambda>d. d_status d = ''active'') ?rows) \<le> 1"
    by (intro distinct_same_length) (auto simp: distinct_filter)
  with vs show ?thesis unfolding run by (simp add: empty o_def doc_meta_of_def filter_map)
qed

theorem DocHistory_complete_witness:
  "\<exists>ms. fst (DocHistory ''docs'' ''intro'' (calm [] []) (idle sample_db 0)) = Inr ms \<and> map dm_version ms = [1]"
  using DocHistory_complete [of "idle sample_db 0" "calm [] []", OF _ _ _ sample_idents] sample_db_inv sample_db_max
  by auto

text \<open>C23: The list of documents names each family once, in order, at its newest version.  On a database that answers,
  \<open>ListDocs\<close> returns one entry per family that has a version, strictly ordered by collection and family, and
  each entry is the family's row of highest version.\<close>

theorem ListDocs_latest:
  assumes "\<not> busy s" "docs_inv (committed s)" "\<not> faulty e"
  shows "\<exists>ms. fst (ListDocs e s) = Inr ms
    \<and> sorted_wrt (<) (map (\<lambda>m. (dm_collection m, dm_family m)) ms)
    \<and> set (map (\<lambda>m. (dm_collection m, dm_family m)) ms) = doc_family ` set (doc_versions (committed s))
    \<and> (\<forall>m \<in> set ms. dm_version m = max_version (committed s) (dm_collection m) (dm_family m)
         \<and> (\<exists>d \<in> set (doc_versions (committed s)). m = doc_meta_of d))"
proof -
  let ?db = "committed s"
  let ?sel = "filter (\<lambda>d. d_version d = max_version ?db (d_collection d) (d_family d)) (doc_versions ?db)"
  have run: "fst (ListDocs e s) = Inr (map doc_meta_of (latest_docs ?db))"
  proof -
    have "wp ListDocs (\<lambda>x s'. False) (\<lambda>a s'. a = map doc_meta_of (latest_docs ?db)) e s"
      unfolding ListDocs_def using assms by (intro wp_intros) auto
    then show ?thesis by (auto simp: wp_def split: prod.splits sum.splits)
  qed
  have keys: "(\<lambda>m. (dm_collection m, dm_family m)) \<circ> doc_meta_of = doc_family"
    by (simp add: fun_eq_iff doc_meta_of_def doc_family_def)
  have "inj_on doc_family (set ?sel)"
  proof (rule inj_onI)
    fix d d' assume d: "d \<in> set ?sel" "d' \<in> set ?sel" "doc_family d = doc_family d'"
    then have "doc_key d = doc_key d'" by (auto simp: doc_key_def doc_family_def)
    with assms(2) d show "d = d'" by (auto simp: docs_inv_def intro: distinct_map_unique)
  qed
  moreover have "distinct ?sel" using assms(2) by (simp add: docs_inv_def distinct_map)
  ultimately have "distinct (map doc_family (latest_docs ?db))"
    by (simp add: latest_docs_def distinct_map)
  then have sorted: "sorted_wrt (<) (map doc_family (latest_docs ?db))"
    by (simp add: latest_docs_def strict_sorted_iff)
  have set: "doc_family ` set (latest_docs ?db) = doc_family ` set (doc_versions ?db)"
  proof -
    have "\<exists>d' \<in> set ?sel. doc_family d' = doc_family d" if d: "d \<in> set (doc_versions ?db)" for d
    proof -
      have "1 \<le> max_version ?db (d_collection d) (d_family d)"
        using assms(2) d max_version_ge [OF d, of "d_collection d" "d_family d"]
        by (auto simp: docs_inv_def doc_row_ok_def doc_family_def)
      then obtain d' where "d' \<in> set (doc_versions ?db)" "doc_family d' = doc_family d"
          "d_version d' = max_version ?db (d_collection d) (d_family d)"
        using max_version_in [of ?db "d_collection d" "d_family d"] by (auto simp: doc_family_def)
      then show ?thesis by (intro bexI [of _ d']) (auto simp: doc_family_def)
    qed
    then have "doc_family ` set (doc_versions ?db) \<subseteq> doc_family ` set ?sel"
      by (metis (no_types, lifting) image_iff image_subsetI)
    then show ?thesis by (auto simp: latest_docs_def)
  qed
  show ?thesis
    using run sorted set keys
    by (intro exI [of _ "map doc_meta_of (latest_docs ?db)"])
       (auto simp: latest_docs_def doc_meta_of_def image_image doc_family_def)
qed

theorem ListDocs_latest_witness:
  "\<exists>ms. fst (ListDocs (calm [] []) (idle sample_db 0)) = Inr ms
     \<and> set (map (\<lambda>m. (dm_collection m, dm_family m)) ms) = {(''docs'', ''intro'')}"
proof -
  have "doc_family ` set (doc_versions sample_db) = {(''docs'', ''intro'')}" by code_simp
  then show ?thesis
    using ListDocs_latest [of "idle sample_db 0" "calm [] []"] sample_db_inv by auto
qed

text \<open>C24: A rejected save can be read back.  When a stale save ends with a recorded conflict, \<open>GetConflict\<close> of the
  id in the reply returns an open edit record of that document that carries the rejected document field
  for field (all but the editor, which the wire form omits), the stale base, the current version and one
  attempt more than the open record had before; it is the only open edit record of the document.\<close>

theorem SaveDoc_conflict_readable:
  assumes "\<not> busy s" "docs_inv (committed s)" "conflicts_inv (committed s)" "wire_save inp"
    and "SaveDoc c f inp e s = (Inl (ConflictRecordedError i err), s')" "\<not> faulty e'"
  shows "\<exists>cf. fst (GetConflict i e' s') = Inr cf \<and> cf_attempted cf = Some (inp\<lparr>s_editor := []\<rparr>)
      \<and> cm_kind (cf_meta cf) = ''edit'' \<and> cm_status (cf_meta cf) = ''open''
      \<and> (cm_collection (cf_meta cf), cm_family (cf_meta cf)) = (c, f) \<and> Some (cm_base (cf_meta cf)) = s_base inp
      \<and> cm_their (cf_meta cf) = max_version (committed s) c f
      \<and> cm_attempts (cf_meta cf) = (case open_conflict_id (committed s) ''edit'' c f of None \<Rightarrow> 1
           | Some j \<Rightarrow> coalesce (map_option x_attempts (find_conflict (committed s) j)) 0 + 1)
      \<and> filter (\<lambda>x. x_status x = ''open'' \<and> conflict_slot x = (''edit'', c, f)) (conflicts (committed s'))
          = [x \<leftarrow> conflicts (committed s'). x_id x = i]"
proof -
  let ?db = "committed s" and ?db' = "committed s'"
  have ok: "save_checks c f inp = None" "save_effect c f inp ?db (Inl (ConflictRecordedError i err)) ?db'"
    using SaveDoc_run(2) [OF assms(1-5)] by (auto dest: save_checks_wrap save_guard_wrap)
  from ok(2) obtain base at where b: "s_base inp = Some base" "recorded_edit c f inp base at ?db = (i, ?db')"
    by (rule save_effect_errE) auto
  have v: "valid_ident c" "valid_ident f" using ok(1) by (simp_all add: save_checks_None)
  have inv': "conflicts_inv ?db'"
    using recorded_edit_inv(1) [OF assms(3,4) v, of base at] b(2) by simp
  let ?g = "refresh_edit base (max_version ?db c f) (marshal_doc_save inp) (s_editor inp) at"
  let ?r = "edit_row c f inp base (max_version ?db c f) at"
  have rec: "fst (recorded (''edit'', c, f) ?g ?r ?db) = i" "snd (recorded (''edit'', c, f) ?g ?r ?db) = ?db'"
    using b(2) by (simp_all add: recorded_edit_def)
  obtain x where x: "find_conflict ?db' i = Some x" "x_attempted x = marshal_doc_save inp" "conflict_slot x = (''edit'', c, f)"
      "x_status x = ''open''" "x_base x = base" "x_their x = max_version ?db c f"
      "x_attempts x = (case open_conflict_id ?db ''edit'' c f of None \<Rightarrow> 1
           | Some j \<Rightarrow> coalesce (map_option x_attempts (find_conflict ?db j)) 0 + 1)"
  proof (cases "open_conflict_id ?db ''edit'' c f")
    case None
    then have "find_conflict ?db' i = Some (?r\<lparr>x_id := i\<rparr>)"
      using recorded_find_new [of "(''edit'', c, f)" ?g ?r ?db i] rec inv' by simp
    then show thesis
      by (rule that) (simp_all add: None edit_row_def open_conflict_row_def conflict_slot_def)
  next
    case (Some j)
    then obtain y where y: "y \<in> set (conflicts ?db)" "x_id y = j" "x_status y = ''open''" "conflict_slot y = (''edit'', c, f)"
      by (rule open_conflict_Some)
    then have fy: "find_conflict ?db j = Some y" by (simp add: find_conflict_iff [OF assms(3)])
    have "j = i" "find_conflict ?db' j = Some (?g y)"
      using recorded_find_old [of "(''edit'', c, f)" ?g ?r ?db j y] rec inv' fy Some refreshes_edit by simp_all
    then show thesis
      using that [of "?g y"] y fy Some by (simp add: refresh_edit_def conflict_slot_def)
  qed
  have mem: "x \<in> set (conflicts ?db')" "x_id x = i" using find_conflict_Some [OF x(1)] by auto
  have sel: "x_status y = ''open'' \<and> conflict_slot y = (''edit'', c, f) \<longleftrightarrow> x_id y = i" if "y \<in> set (conflicts ?db')" for y
    using inv' that mem x(3,4) conflict_unique [OF inv' mem(1) that] unfolding conflicts_inv_def one_open_def by auto
  have "conflict_of_row x = Inr \<lparr>cf_meta = scanConflictMeta x, cf_attempted = Some (inp\<lparr>s_editor := []\<rparr>)\<rparr>"
    using x(2) unmarshal_marshal_doc_save [OF assms(4)] by (simp add: conflict_of_row_def)
  then have "fst (GetConflict i e' s') = Inr \<lparr>cf_meta = scanConflictMeta x, cf_attempted = Some (inp\<lparr>s_editor := []\<rparr>)\<rparr>"
    using wp_GetConflict [OF SaveDoc_run(1) [OF assms(1-5)], of i e'] x(1) assms(6)
    by (auto simp: wp_def get_conflict_def split: prod.splits sum.splits)
  then show ?thesis
    using x(3-7) b(1) sel by (auto simp: scanConflictMeta_def conflict_slot_def cong: filter_cong)
qed

theorem SaveDoc_conflict_readable_witness:
  "\<exists>i err s' cf. SaveDoc ''docs'' ''intro'' (sample_save (Some 0)) (calm ''2024-01-02T00:00:00Z'' []) (idle sample_db 0)
       = (Inl (ConflictRecordedError i err), s')
     \<and> fst (GetConflict i (calm [] []) s') = Inr cf \<and> cf_attempted cf = Some ((sample_save (Some 0))\<lparr>s_editor := []\<rparr>)"
proof -
  let ?run = "SaveDoc ''docs'' ''intro'' (sample_save (Some 0)) (calm ''2024-01-02T00:00:00Z'' []) (idle sample_db 0)"
  have "(case fst ?run of Inl (ConflictRecordedError i err) \<Rightarrow> True | _ \<Rightarrow> False)" by code_simp
  then obtain i err where "fst ?run = Inl (ConflictRecordedError i err)"
    by (auto split: sum.splits gerror.splits)
  then obtain s' where run: "?run = (Inl (ConflictRecordedError i err), s')" by (cases ?run) auto
  have "wire_save (sample_save (Some 0))" by (rule sample_save_ok) (simp add: int64_range_def)
  then show ?thesis
    using SaveDoc_conflict_readable [OF _ _ _ _ run calm_not_faulty] sample_db_inv run by fastforce
qed

section \<open>Properties of resolving\<close>

lemma ResolveConflict_run:
  assumes busy: "\<not> busy s" and inv: "docs_inv (committed s)" "conflicts_inv (committed s)"
    and run: "ResolveConflict i resolution expected save who e s = (Inr cf, s')"
  shows "\<not> busy s'" "trim_space resolution \<noteq> []"
    "resolved_ok (committed s) (committed s') i (trim_space resolution) expected save who"
    "get_conflict (committed s') i = Inr cf"
  using wp_ResolveConflict [OF busy inv, of i resolution expected save who e] run by (auto simp: wp_def)

lemma resolved_ok_inv:
  assumes inv: "docs_inv db" "conflicts_inv db" and r: "resolved_ok db db' i resolution expected save who" "resolution \<noteq> []"
  shows "docs_inv db'" "conflicts_inv db'" "history_kept db db'"
  using r resolved_db_ok(1-3) [OF inv] by (auto simp: resolved_ok_def)

lemma resolve_guard_resolved:
  "find_conflict db i = Some x \<Longrightarrow> x_status x = ''resolved'' \<Longrightarrow>
     resolve_guard db i expected save = Some (err_conflict ''already resolved'')"
  by (simp add: resolve_guard_def)

text \<open>The resolved row of a successful resolve, found in the table.\<close>

lemma resolved_row:
  assumes inv: "docs_inv db" "conflicts_inv db" and r: "resolved_ok db db' i resolution expected save who" "resolution \<noteq> []"
  obtains x at where "find_conflict db i = Some x" "x_status x = ''open''" "conflict_row_ok x"
    "0 \<le> expected \<longrightarrow> expected = x_attempts x"
    "find_conflict db' i = Some (resolve_row who at resolution (winning_version db x save) x)"
proof -
  from r(1) obtain x t at where g: "resolve_guard db i expected save = None" and x: "find_conflict db i = Some x"
      and db': "db' = resolved_db db x save who resolution t at"
    by (auto simp: resolved_ok_def)
  have xm: "x \<in> set (conflicts db)" "x_id x = i" using find_conflict_Some [OF x] by auto
  then have ok: "conflict_row_ok x" using inv(2) by (simp add: conflicts_inv_def)
  have op: "x_status x = ''open''" "0 \<le> expected \<longrightarrow> expected = x_attempts x"
    using g x ok by (auto simp: resolve_guard_def conflict_row_ok_def split: if_splits)
  have "resolve_row who at resolution (winning_version db x save) x \<in> set (conflicts db')"
    using xm op(1) by (auto simp: db' resolved_db_def image_iff)
  then have "find_conflict db' i = Some (resolve_row who at resolution (winning_version db x save) x)"
    using resolved_ok_inv(2) [OF inv r] xm(2) by (simp add: find_conflict_iff)
  with that x op ok show thesis by blast
qed

lemma ResolveConflict_succeeds:
  assumes "\<not> busy s" "docs_inv (committed s)" "conflicts_inv (committed s)" "\<not> faulty e"
    and "trim_space resolution \<noteq> []" "resolve_guard (committed s) i expected save = None"
  shows "\<exists>cf s'. ResolveConflict i resolution expected save who e s = (Inr cf, s')"
  using wp_ResolveConflict [OF assms(1-3), of i resolution expected save who e] assms(4-6)
  by (cases "ResolveConflict i resolution expected save who e s"; cases "fst (ResolveConflict i resolution expected save who e s)")
     (auto simp: wp_def)

text \<open>The sample store with one open edit conflict, number 1.\<close>

definition sample_conflict_db :: db where
  "sample_conflict_db =
     snd (recorded_edit ''docs'' ''intro'' (sample_save (Some 0)) 0 ''2024-01-02T00:00:00Z'' sample_db)"

lemma sample_conflict_db_inv: "docs_inv sample_conflict_db" "conflicts_inv sample_conflict_db"
proof -
  have "wire_save (sample_save (Some 0))" by (rule sample_save_ok) (simp add: int64_range_def)
  then show "conflicts_inv sample_conflict_db"
    using recorded_edit_inv(1) [OF sample_db_inv(2) _ sample_idents] by (simp add: sample_conflict_db_def)
  show "docs_inv sample_conflict_db"
    using sample_db_inv(1) by (simp add: sample_conflict_db_def recorded_edit_def)
qed

lemma sample_conflict_guard:
  "resolve_guard sample_conflict_db 1 1 (Some (sample_save (Some 1))) = None"
  "resolve_guard sample_conflict_db 1 1 None = None"
  "map_option x_attempts (find_conflict sample_conflict_db 1) = Some 1"
  by code_simp+

lemma trim_merged: "trim_space ''merged'' = ''merged''"
  by (simp add: trim_space_word is_word_def)

text \<open>C10: Resolving compares and sets.  Whatever call on the database fails, \<open>ResolveConflict\<close> returns with the
  connection free; the database is as it was, or the conflict was open, had the expected number of attempts
  (when one is required), and is now resolved together with the merged version, if one was given.  An attempt
  count that does not match never changes anything and is answered with \<open>ErrConflict\<close>.\<close>

theorem ResolveConflict_compare_and_set:
  assumes "\<not> busy s" "docs_inv (committed s)" "conflicts_inv (committed s)"
    and "ResolveConflict i resolution expected save who e s = (r, s')"
  shows "\<not> busy s' \<and>
     (committed s' = committed s \<and> \<not> is_ok r
      \<or> (\<exists>x. find_conflict (committed s) i = Some x \<and> x_status x = ''open'' \<and> (0 \<le> expected \<longrightarrow> expected = x_attempts x))
        \<and> resolved_ok (committed s) (committed s') i (trim_space resolution) expected save who)
     \<and> (\<forall>x. find_conflict (committed s) i = Some x \<and> 0 \<le> expected \<and> expected \<noteq> x_attempts x
          \<and> trim_space resolution \<noteq> [] \<and> \<not> faulty e
          \<longrightarrow> committed s' = committed s \<and> (\<exists>err. r = Inl err \<and> errors_is err ErrConflict))"
proof (intro conjI allI impI)
  let ?db = "committed s"
  have inv: "docs_inv ?db" "conflicts_inv ?db" by (fact assms)+
  note w = wp_ResolveConflict [OF assms(1-3), of i resolution expected save who e]
  have upd: "\<exists>x. find_conflict ?db i = Some x \<and> x_status x = ''open'' \<and> (0 \<le> expected \<longrightarrow> expected = x_attempts x)"
    if "resolved_ok ?db (committed s') i (trim_space resolution) expected save who" "trim_space resolution \<noteq> []"
    using resolved_row [OF inv that] by metis
  show "\<not> busy s'" using w assms(4) by (auto simp: wp_def split: sum.splits)
  show "committed s' = ?db \<and> \<not> is_ok r
      \<or> (\<exists>x. find_conflict ?db i = Some x \<and> x_status x = ''open'' \<and> (0 \<le> expected \<longrightarrow> expected = x_attempts x))
        \<and> resolved_ok ?db (committed s') i (trim_space resolution) expected save who"
    using w upd assms(4) by (auto simp: wp_def split: sum.splits if_splits)
  fix x assume x: "find_conflict ?db i = Some x \<and> 0 \<le> expected \<and> expected \<noteq> x_attempts x
          \<and> trim_space resolution \<noteq> [] \<and> \<not> faulty e"
  then have "\<exists>err. resolve_guard ?db i expected save = Some err \<and> errors_is err ErrConflict"
    by (simp add: resolve_guard_def err_conflict_def)
  then show "committed s' = ?db" "\<exists>err. r = Inl err \<and> errors_is err ErrConflict"
    using w assms(4) x by (auto simp: wp_def resolved_ok_def split: sum.splits if_splits)
qed

theorem ResolveConflict_compare_and_set_witness:
  "\<exists>err s'. ResolveConflict 1 ''merged'' 7 None ''ann'' (calm [] []) (idle sample_conflict_db 0) = (Inl err, s')
     \<and> errors_is err ErrConflict \<and> committed s' = sample_conflict_db"
proof -
  let ?run = "ResolveConflict 1 ''merged'' 7 None ''ann'' (calm [] []) (idle sample_conflict_db 0)"
  obtain r s' where run: "?run = (r, s')" by (cases ?run)
  obtain x where "find_conflict sample_conflict_db 1 = Some x" "x_attempts x = 1"
    using sample_conflict_guard(3) by auto
  then show ?thesis
    using ResolveConflict_compare_and_set [OF _ _ _ run] sample_conflict_db_inv trim_merged run by auto
qed

text \<open>C26: A resolved record is final.  After \<open>ResolveConflict\<close> succeeded, the record it returned is what
  \<open>GetConflict\<close> returns in every later state of the store, and every later attempt to resolve it again is
  refused with \<open>ErrConflict\<close> and changes nothing.\<close>

theorem ResolveConflict_final:
  assumes "\<not> busy s" "docs_inv (committed s)" "conflicts_inv (committed s)"
    and "ResolveConflict i resolution expected save who e s = (Inr cf, s')"
    and "history_kept (committed s') (committed t)" "\<not> busy t" "docs_inv (committed t)" "conflicts_inv (committed t)"
    and "\<not> faulty e'" "trim_space resolution' \<noteq> []"
    and "ResolveConflict i resolution' expected' save' who' e' t = (r, t')"
  shows "cm_status (cf_meta cf) = ''resolved'' \<and> fst (GetConflict i e' t) = Inr cf
     \<and> committed t' = committed t \<and> (\<exists>err. r = Inl err \<and> errors_is err ErrConflict)"
proof -
  note run = ResolveConflict_run [OF assms(1-4)]
  obtain x at where x: "find_conflict (committed s') i =
      Some (resolve_row who at (trim_space resolution) (winning_version (committed s) x save) x)"
    by (rule resolved_row [OF assms(2,3) run(3,2)])
  let ?y = "resolve_row who at (trim_space resolution) (winning_version (committed s) x save) x"
  have y: "?y \<in> set (conflicts (committed s'))" "x_id ?y = i" using find_conflict_Some [OF x] by auto
  obtain z where z: "z \<in> set (conflicts (committed t))" "conflict_step ?y z"
    using assms(5) y(1) unfolding history_kept_def by (auto elim: grows_mem)
  then have "z = ?y" by (simp add: conflict_step_def)
  then have find: "find_conflict (committed t) i = Some ?y"
    using z(1) y(2) by (simp add: find_conflict_iff [OF assms(8)])
  have cf: "conflict_of_row ?y = Inr cf" using run(4) x by (simp add: get_conflict_def)
  have "cf_meta cf = scanConflictMeta ?y"
    using cf by (auto simp: conflict_of_row_def split: if_splits option.splits)
  then have "cm_status (cf_meta cf) = ''resolved''" by (simp add: scanConflictMeta_def)
  moreover have "fst (GetConflict i e' t) = Inr cf"
    using wp_GetConflict [OF assms(6), of i e'] assms(9) find cf
    by (auto simp: wp_def get_conflict_def split: prod.splits sum.splits)
  moreover have "committed t' = committed t \<and> (\<exists>err. r = Inl err \<and> errors_is err ErrConflict)"
    using wp_ResolveConflict [OF assms(6-8), of i resolution' expected' save' who' e'] assms(9-11)
      resolve_guard_resolved [OF find, of expected' save']
    by (auto simp: wp_def resolved_ok_def err_conflict_def split: sum.splits if_splits)
  ultimately show ?thesis by blast
qed

theorem ResolveConflict_final_witness:
  "\<exists>cf s'. ResolveConflict 1 ''merged'' 1 None ''ann'' (calm [] []) (idle sample_conflict_db 0) = (Inr cf, s')
     \<and> fst (GetConflict 1 (calm [] []) s') = Inr cf
     \<and> committed (snd (ResolveConflict 1 ''merged'' 1 None ''bob'' (calm [] []) s')) = committed s'"
proof -
  have pre: "\<not> busy (idle sample_conflict_db 0)" "docs_inv (committed (idle sample_conflict_db 0))"
      "conflicts_inv (committed (idle sample_conflict_db 0))" "trim_space ''merged'' \<noteq> []"
    using sample_conflict_db_inv trim_merged by simp_all
  obtain cf s' where run: "ResolveConflict 1 ''merged'' 1 None ''ann'' (calm [] []) (idle sample_conflict_db 0) = (Inr cf, s')"
    using ResolveConflict_succeeds [OF pre(1-3) calm_not_faulty [of "[]" "[]"] pre(4), of 1 1 None "''ann''"] sample_conflict_guard(2) by auto
  note r = ResolveConflict_run [OF pre(1-3) run]
  obtain q t' where again: "ResolveConflict 1 ''merged'' 1 None ''bob'' (calm [] []) s' = (q, t')"
    by (cases "ResolveConflict 1 ''merged'' 1 None ''bob'' (calm [] []) s'")
  show ?thesis
    using ResolveConflict_final [OF pre(1-3) run history_refl r(1) resolved_ok_inv(1,2) [OF pre(2,3) r(3,2)]
        calm_not_faulty pre(4) again] run again by auto
qed

text \<open>C27: A merge stores the document and closes the conflict together.  When \<open>ResolveConflict\<close> of an edit record
  is given the merged document and succeeds, the returned record names as winner the version it just
  stored, the next one of the family, and \<open>GetDoc\<close> of that version returns the merged document.\<close>

theorem ResolveConflict_merge:
  assumes "\<not> busy s" "docs_inv (committed s)" "conflicts_inv (committed s)"
    and "ResolveConflict i resolution expected (Some inp) who e s = (Inr cf, s')" "\<not> faulty e'"
  shows "\<exists>c f v st. (cm_collection (cf_meta cf), cm_family (cf_meta cf)) = (c, f) \<and> cm_kind (cf_meta cf) = ''edit''
     \<and> cm_resolution (cf_meta cf) = trim_space resolution
     \<and> cm_winning (cf_meta cf) = v_version v \<and> v_version v = max_version (committed s) c f + 1
     \<and> fst (GetDoc c f (v_version v) e' s') = Inr (saved_view c f v inp st)"
proof -
  let ?db = "committed s"
  note run = ResolveConflict_run [OF assms(1-4)]
  from run(3) obtain x t at where g: "resolve_guard ?db i expected (Some inp) = None"
      and x: "find_conflict ?db i = Some x"
      and db': "committed s' = resolved_db ?db x (Some inp) who (trim_space resolution) t at"
    by (auto simp: resolved_ok_def)
  let ?c = "x_collection x" and ?f = "x_family x"
  obtain x' at' where x': "find_conflict ?db i = Some x'" "find_conflict (committed s') i =
      Some (resolve_row who at' (trim_space resolution) (winning_version ?db x' (Some inp)) x')"
    by (rule resolved_row [OF assms(2,3) run(3,2)])
  have ok: "conflict_row_ok x" using find_conflict_Some [OF x] assms(3) by (simp add: conflicts_inv_def)
  have k: "x_kind x = ''edit''" "valid_save inp" "save_guard ?db ?c ?f inp = None"
    using g x by (auto simp: resolve_guard_def validateDocSave_None split: if_splits option.splits)
  have inv': "docs_inv (committed s')" by (rule resolved_ok_inv(1) [OF assms(2,3) run(3,2)])
  have h: "history_kept (saved_db ?db ?c ?f inp t) (committed s')"
    using resolve_rows_ok(2) [OF assms(3), of "\<lambda>_. trim_space resolution" "\<lambda>y. x_id y = x_id x" who at
        "\<lambda>_. winning_version ?db x (Some inp)"] run(2)
    by (simp add: db' resolved_db_def resolve_saved_def history_kept_def grows_refl)
  obtain st where "get_doc (committed s') ?c ?f (max_version ?db ?c ?f + 1)
      = Inr (saved_view ?c ?f (saved_version ?db ?c ?f inp t) inp st)"
    using get_doc_saved [OF assms(2) inv' _ _ k(2,3) h] conflict_row_idents [OF ok] by blast
  then have "fst (GetDoc ?c ?f (max_version ?db ?c ?f + 1) e' s') = Inr (saved_view ?c ?f (saved_version ?db ?c ?f inp t) inp st)"
    by (simp add: GetDoc_clean [OF run(1) assms(5)])
  moreover have "cf_meta cf = scanConflictMeta (resolve_row who at' (trim_space resolution) (winning_version ?db x (Some inp)) x)"
    using run(4) x' x by (auto simp: get_conflict_def conflict_of_row_def split: if_splits option.splits)
  ultimately show ?thesis
    using k(1) by (intro exI [of _ ?c] exI [of _ ?f] exI [of _ "saved_version ?db ?c ?f inp t"] exI [of _ st])
      (simp add: scanConflictMeta_def winning_version_def saved_version_def Let_def)
qed

theorem ResolveConflict_merge_witness:
  "\<exists>cf s' v st. ResolveConflict 1 ''merged'' 1 (Some (sample_save (Some 1))) ''ann'' (calm [] []) (idle sample_conflict_db 0) = (Inr cf, s')
     \<and> cm_winning (cf_meta cf) = v_version v
     \<and> fst (GetDoc (cm_collection (cf_meta cf)) (cm_family (cf_meta cf)) (v_version v) (calm [] []) s')
         = Inr (saved_view (cm_collection (cf_meta cf)) (cm_family (cf_meta cf)) v (sample_save (Some 1)) st)"
proof -
  have pre: "\<not> busy (idle sample_conflict_db 0)" "docs_inv (committed (idle sample_conflict_db 0))"
      "conflicts_inv (committed (idle sample_conflict_db 0))" "trim_space ''merged'' \<noteq> []"
    using sample_conflict_db_inv trim_merged by simp_all
  obtain cf s' where run: "ResolveConflict 1 ''merged'' 1 (Some (sample_save (Some 1))) ''ann'' (calm [] []) (idle sample_conflict_db 0) = (Inr cf, s')"
    using ResolveConflict_succeeds [OF pre(1-3) calm_not_faulty [of "[]" "[]"] pre(4), of 1 1 "Some (sample_save (Some 1))" "''ann''"]
      sample_conflict_guard(1) by auto
  show ?thesis
    using ResolveConflict_merge [OF pre(1-3) run calm_not_faulty] run by fastforce
qed

end
