(* ===== verification/Sha256.thy ===== *)
theory Sha256
  imports Prelude "HOL-Library.Word"
begin

unbundle bit_operations_syntax

text \<open>
  \<open>crypto/sha256\<close> (FIPS 180-4), on byte strings.  The store hashes document
  bodies, release contents and bearer tokens with it, and the subscriber
  recomputes the same digests.  The properties of the development hold for every
  input and rest on one fact only, that a digest has 32 bytes; where two inputs
  must have different digests, that is said.
\<close>

type_synonym u32 = "32 word"

record sha_state =
  sha_a :: u32
  sha_b :: u32
  sha_c :: u32
  sha_d :: u32
  sha_e :: u32
  sha_f :: u32
  sha_g :: u32
  sha_h :: u32

definition sha_init :: sha_state where
  "sha_init = \<lparr>sha_a = 0x6a09e667, sha_b = 0xbb67ae85, sha_c = 0x3c6ef372, sha_d = 0xa54ff53a,
     sha_e = 0x510e527f, sha_f = 0x9b05688c, sha_g = 0x1f83d9ab, sha_h = 0x5be0cd19\<rparr>"

text \<open>The 64 round constants, in decimal.\<close>

definition sha_k :: "u32 list" where
  "sha_k =
    [1116352408, 1899447441, 3049323471, 3921009573, 961987163, 1508970993,
     2453635748, 2870763221, 3624381080, 310598401, 607225278, 1426881987,
     1925078388, 2162078206, 2614888103, 3248222580, 3835390401, 4022224774,
     264347078, 604807628, 770255983, 1249150122, 1555081692, 1996064986,
     2554220882, 2821834349, 2952996808, 3210313671, 3336571891, 3584528711,
     113926993, 338241895, 666307205, 773529912, 1294757372, 1396182291,
     1695183700, 1986661051, 2177026350, 2456956037, 2730485921, 2820302411,
     3259730800, 3345764771, 3516065817, 3600352804, 4094571909, 275423344,
     430227734, 506948616, 659060556, 883997877, 958139571, 1322822218,
     1537002063, 1747873779, 1955562222, 2024104815, 2227730452, 2361852424,
     2428436474, 2756734187, 3204031479, 3329325298]"

definition sha_sigma0 :: "u32 \<Rightarrow> u32" where
  "sha_sigma0 x = word_rotr 7 x XOR word_rotr 18 x XOR drop_bit 3 x"

definition sha_sigma1 :: "u32 \<Rightarrow> u32" where
  "sha_sigma1 x = word_rotr 17 x XOR word_rotr 19 x XOR drop_bit 10 x"

definition sha_big_sigma0 :: "u32 \<Rightarrow> u32" where
  "sha_big_sigma0 x = word_rotr 2 x XOR word_rotr 13 x XOR word_rotr 22 x"

definition sha_big_sigma1 :: "u32 \<Rightarrow> u32" where
  "sha_big_sigma1 x = word_rotr 6 x XOR word_rotr 11 x XOR word_rotr 25 x"

definition sha_ch :: "u32 \<Rightarrow> u32 \<Rightarrow> u32 \<Rightarrow> u32" where
  "sha_ch x y z = (x AND y) XOR (NOT x AND z)"

definition sha_maj :: "u32 \<Rightarrow> u32 \<Rightarrow> u32 \<Rightarrow> u32" where
  "sha_maj x y z = (x AND y) XOR (x AND z) XOR (y AND z)"

text \<open>The message schedule: sixteen words of the block, newest word first, extended
  \<open>n\<close> times.\<close>

fun schedule :: "nat \<Rightarrow> u32 list \<Rightarrow> u32 list" where
  "schedule 0 ws = rev ws"
| "schedule (Suc n) ws =
     schedule n ((sha_sigma1 (ws ! 1) + ws ! 6 + sha_sigma0 (ws ! 14) + ws ! 15) # ws)"

definition sha_round :: "u32 \<times> u32 \<Rightarrow> sha_state \<Rightarrow> sha_state" where
  "sha_round kw s =
     (let t1 = sha_h s + sha_big_sigma1 (sha_e s) + sha_ch (sha_e s) (sha_f s) (sha_g s) + fst kw + snd kw;
          t2 = sha_big_sigma0 (sha_a s) + sha_maj (sha_a s) (sha_b s) (sha_c s)
      in \<lparr>sha_a = t1 + t2, sha_b = sha_a s, sha_c = sha_b s, sha_d = sha_c s,
          sha_e = sha_d s + t1, sha_f = sha_e s, sha_g = sha_f s, sha_h = sha_g s\<rparr>)"

definition sha_block :: "u32 list \<Rightarrow> sha_state \<Rightarrow> sha_state" where
  "sha_block ws s =
     (let r = fold sha_round (zip sha_k (schedule 48 (rev ws))) s
      in \<lparr>sha_a = sha_a s + sha_a r, sha_b = sha_b s + sha_b r, sha_c = sha_c s + sha_c r, sha_d = sha_d s + sha_d r,
          sha_e = sha_e s + sha_e r, sha_f = sha_f s + sha_f r, sha_g = sha_g s + sha_g r, sha_h = sha_h s + sha_h r\<rparr>)"

definition byte_word :: "char \<Rightarrow> u32" where
  "byte_word c = word_of_int (of_char c)"

fun words_of :: "string \<Rightarrow> u32 list" where
  "words_of (a # b # c # d # cs) =
     (push_bit 24 (byte_word a) OR push_bit 16 (byte_word b) OR push_bit 8 (byte_word c) OR byte_word d)
     # words_of cs"
| "words_of _ = []"

text \<open>The padding: a one bit, zeros up to 56 modulo 64, the bit length in eight bytes.\<close>

fun be_bytes :: "nat \<Rightarrow> int \<Rightarrow> string" where
  "be_bytes 0 n = []"
| "be_bytes (Suc k) n = be_bytes k (n div 256) @ [char_of (n mod 256)]"

definition sha_pad :: "string \<Rightarrow> string" where
  "sha_pad m =
     m @ CHR 0x80 # replicate ((119 - length m mod 64) mod 64) (CHR 0x00)
       @ be_bytes 8 (8 * int (length m))"

fun sha_blocks :: "nat \<Rightarrow> u32 list \<Rightarrow> sha_state \<Rightarrow> sha_state" where
  "sha_blocks 0 ws s = s"
| "sha_blocks (Suc n) ws s = sha_blocks n (drop 16 ws) (sha_block (take 16 ws) s)"

definition word_bytes :: "u32 \<Rightarrow> string" where
  "word_bytes w = be_bytes 4 (uint w)"

definition sha256 :: "string \<Rightarrow> string" where
  "sha256 m =
     (let p = sha_pad m;
          s = sha_blocks (length p div 64) (words_of p) sha_init
      in word_bytes (sha_a s) @ word_bytes (sha_b s) @ word_bytes (sha_c s) @ word_bytes (sha_d s) @
         word_bytes (sha_e s) @ word_bytes (sha_f s) @ word_bytes (sha_g s) @ word_bytes (sha_h s))"

lemma length_be_bytes [simp]: "length (be_bytes k n) = k"
  by (induction k arbitrary: n) auto

lemma length_sha256 [simp]: "length (sha256 m) = 32"
  by (simp add: sha256_def word_bytes_def Let_def)

text \<open>The padded message is a whole number of blocks that holds the message.\<close>

lemma sha_pad_blocks: "length (sha_pad m) mod 64 = 0"
proof -
  let ?r = "length m mod 64"
  have r: "?r < 64" by simp
  have "(?r + 1 + (119 - ?r) mod 64 + 8) mod 64 = 0"
  proof (cases "?r \<le> 55")
    case True
    then have "(119 - ?r) mod 64 = 55 - ?r" by (simp add: le_mod_geq)
    with True show ?thesis by simp
  next
    case False
    then have "(119 - ?r) mod 64 = 119 - ?r" by simp
    with False r show ?thesis by simp
  qed
  then have "(length m + (1 + (119 - ?r) mod 64 + 8)) mod 64 = 0"
    by (metis add.assoc mod_add_left_eq)
  then show ?thesis by (simp add: sha_pad_def add.assoc)
qed

end
