(* ===== verification/GoTime.thy ===== *)
theory GoTime
  imports GoStrings
begin

text \<open>
  \<open>time.Parse(time.RFC3339, s)\<close> of Go's library, as far as whether it accepts \<open>s\<close>:
  the chunks of the layout in order, each with its range check, the optional
  fractional seconds, the zone and the day-of-month check at the end.
\<close>

text \<open>\<open>getnum\<close>: one or two digits, two when \<open>fixed\<close>.\<close>

fun getnum :: "bool \<Rightarrow> string \<Rightarrow> (nat \<times> string) option" where
  "getnum fixed [] = None"
| "getnum fixed [a] =
     (if fixed then None else (case digit_val a of None \<Rightarrow> None | Some x \<Rightarrow> Some (x, [])))"
| "getnum fixed (a # b # rest) =
     (case digit_val a of
        None \<Rightarrow> None
      | Some x \<Rightarrow>
          (case digit_val b of
             None \<Rightarrow> if fixed then None else Some (x, b # rest)
           | Some y \<Rightarrow> Some (10 * x + y, rest)))"

fun year_num :: "string \<Rightarrow> (nat \<times> string) option" where
  "year_num (a # b # c # d # rest) =
     (case (digit_val a, digit_val b, digit_val c, digit_val d) of
        (Some w, Some x, Some y, Some z) \<Rightarrow> Some (1000 * w + 100 * x + 10 * y + z, rest)
      | _ \<Rightarrow> None)"
| "year_num _ = None"

fun expect :: "char \<Rightarrow> string \<Rightarrow> string option" where
  "expect c [] = None"
| "expect c (d # s) = (if d = c then Some s else None)"

text \<open>Fractional seconds may follow although the layout has none.\<close>

fun skip_fraction :: "string \<Rightarrow> string" where
  "skip_fraction (p # d # rest) =
     (if (p = CHR ''.'' \<or> p = CHR '','') \<and> digit_val d \<noteq> None
      then dropWhile (\<lambda>c. digit_val c \<noteq> None) rest else p # d # rest)"
| "skip_fraction s = s"

fun zone_ok :: "string \<Rightarrow> bool" where
  "zone_ok [sign, h1, h2, colon, m1, m2] =
     ((sign = CHR ''+'' \<or> sign = CHR ''-'') \<and> colon = CHR '':''
      \<and> (case (digit_val h1, digit_val h2, digit_val m1, digit_val m2) of
           (Some a, Some b, Some c, Some d) \<Rightarrow> 10 * a + b \<le> 24 \<and> 10 * c + d \<le> 60
         | _ \<Rightarrow> False))"
| "zone_ok s = (s = ''Z'')"

definition leap_year :: "nat \<Rightarrow> bool" where
  "leap_year y = (y mod 4 = 0 \<and> (y mod 100 \<noteq> 0 \<or> y mod 400 = 0))"

definition days_in :: "nat \<Rightarrow> nat \<Rightarrow> nat" where
  "days_in m y =
     (if m = 2 then (if leap_year y then 29 else 28)
      else if m = 4 \<or> m = 6 \<or> m = 9 \<or> m = 11 then 30 else 31)"

definition accept :: "'a option \<Rightarrow> ('a \<Rightarrow> bool) \<Rightarrow> bool" where
  "accept x k = (case x of None \<Rightarrow> False | Some a \<Rightarrow> k a)"

lemma accept_simps [simp]: "accept (Some a) k = k a" "\<not> accept None k"
  by (simp_all add: accept_def)

text \<open>The clock part: hour, minute, second, fraction, zone.\<close>

definition clock_ok :: "string \<Rightarrow> bool" where
  "clock_ok s =
     accept (getnum False s) (\<lambda>(h, s1). h < 24 \<and>
     accept (expect (CHR '':'') s1) (\<lambda>s2.
     accept (getnum True s2) (\<lambda>(mi, s3). mi < 60 \<and>
     accept (expect (CHR '':'') s3) (\<lambda>s4.
     accept (getnum True s4) (\<lambda>(sec, s5). sec < 60 \<and> zone_ok (skip_fraction s5))))))"

definition rfc3339_ok :: "string \<Rightarrow> bool" where
  "rfc3339_ok s =
     accept (year_num s) (\<lambda>(y, s1).
     accept (expect (CHR ''-'') s1) (\<lambda>s2.
     accept (getnum True s2) (\<lambda>(m, s3). 1 \<le> m \<and> m \<le> 12 \<and>
     accept (expect (CHR ''-'') s3) (\<lambda>s4.
     accept (getnum True s4) (\<lambda>(d, s5).
     accept (expect (CHR ''T'') s5) (\<lambda>s6. clock_ok s6 \<and> 1 \<le> d \<and> d \<le> days_in m y))))))"

lemma rfc3339_example: "rfc3339_ok ''2024-01-01T00:00:00Z''"
  by (simp add: rfc3339_ok_def clock_ok_def digit_val_def days_in_def)

end
