(* ===== verification/Releases.thy ===== *)
theory Releases
  imports Docs Sha256 GoTime
begin

text \<open>
  Releases: the candidate computed from the active documents, its lints and content
  hash, preview and cut, and reading a release back as a manifest and as an archive.
\<close>

section \<open>The candidate\<close>

definition KernelWordCap :: nat where
  "KernelWordCap = 2000"

definition KernelByteCap :: nat where
  "KernelByteCap = 24576"

record rel_doc =
  rel_id :: int
  rel_collection :: string
  rel_path :: string
  rel_version :: int
  rel_family :: string
  rel_body :: string

definition doc_path :: "string \<Rightarrow> string \<Rightarrow> string" where
  "doc_path c f = c @ ''/'' @ f @ ''.md''"

text \<open>\<open>WHERE d.status = 'active' AND c.in_release = 1 ORDER BY d.collection, d.family_id\<close>.\<close>

definition in_release :: "db \<Rightarrow> string \<Rightarrow> bool" where
  "in_release db c = list_ex (\<lambda>r. c_name r = c \<and> c_in_release r = 1) (collections db)"

definition candidate_rows :: "db \<Rightarrow> doc_row list" where
  "candidate_rows db =
     sort_key doc_family
       (filter (\<lambda>d. d_status d = ''active'' \<and> in_release db (d_collection d)) (doc_versions db))"

definition rel_doc_of :: "doc_row \<Rightarrow> rel_doc" where
  "rel_doc_of d =
     \<lparr>rel_id = d_id d, rel_collection = d_collection d, rel_path = doc_path (d_collection d) (d_family d),
      rel_version = d_version d, rel_family = d_family d, rel_body = d_body d\<rparr>"

definition kernel_lint :: "rel_doc \<Rightarrow> gerror option" where
  "kernel_lint d =
     (if rel_collection d = ''kernel'' then
        (if KernelByteCap < length (rel_body d) then
           Some (LintError (rel_collection d) (rel_family d) (rel_version d)
             (''kernel '' @ go_quote (rel_family d) @ '' exceeds '' @ nat_dec KernelByteCap @ ''-byte cap''))
         else if KernelWordCap < length (GoRunes.fields (rel_body d)) then
           Some (LintError (rel_collection d) (rel_family d) (rel_version d)
             (''kernel '' @ go_quote (rel_family d) @ '' exceeds '' @ nat_dec KernelWordCap @ ''-word cap''))
         else None)
      else None)"

text \<open>The loop over the rows: the first lint ends it.\<close>

fun scan_docs :: "doc_row list \<Rightarrow> gerror + rel_doc list" where
  "scan_docs [] = Inr []"
| "scan_docs (r # rs) =
     (case kernel_lint (rel_doc_of r) of
        Some e \<Rightarrow> Inl e
      | None \<Rightarrow> (case scan_docs rs of Inl e \<Rightarrow> Inl e | Inr ds \<Rightarrow> Inr (rel_doc_of r # ds)))"

section \<open>Link lints\<close>

text \<open>The two \<open>LEFT JOIN\<close>s: the target's status and its collection's release flag, or the
  \<open>COALESCE\<close> defaults.\<close>

definition target_status :: "db \<Rightarrow> link_row \<Rightarrow> string" where
  "target_status db l =
     coalesce (map_option d_status
       (first_row (\<lambda>d. doc_key d = (l_collection l, l_family l, l_version l)) (doc_versions db))) []"

definition target_in_release :: "db \<Rightarrow> link_row \<Rightarrow> int" where
  "target_in_release db l =
     coalesce (map_option c_in_release (first_row (\<lambda>r. c_name r = l_collection l) (collections db))) 0"

definition link_reason :: "link_row \<Rightarrow> string \<Rightarrow> int \<Rightarrow> string" where
  "link_reason l status inRelease =
     (let target = l_collection l @ ''/'' @ l_family l @ '' version '' @ int_dec (l_version l) in
      if l_relation l = ''reference'' then
        (if status = [] then ''reference target '' @ target @ '' does not exist''
         else if status \<noteq> ''active'' then
           ''reference target '' @ target @ '' is '' @ status @ ''; target must be active in the release''
         else if inRelease \<noteq> 1 then ''reference target '' @ target @ '' is not release-bearing''
         else [])
      else if l_relation l = ''supersedes'' then
        (if status = [] then ''supersedes target '' @ target @ '' does not exist''
         else if status \<noteq> ''superseded'' then
           ''supersedes target '' @ target @ '' is '' @ status @ ''; target must be superseded''
         else [])
      else [])"

fun first_link_error :: "rel_doc \<Rightarrow> (link_row \<times> string \<times> int) list \<Rightarrow> gerror option" where
  "first_link_error d [] = None"
| "first_link_error d ((l, status, inRelease) # rows) =
     (let reason = link_reason l status inRelease in
      if reason \<noteq> [] then
        Some (LintError (rel_collection d) (rel_family d) (rel_version d)
          (''document '' @ rel_collection d @ ''/'' @ rel_family d @ '': '' @ reason))
      else first_link_error d rows)"

definition joined_links :: "db \<Rightarrow> rel_doc \<Rightarrow> (link_row \<times> string \<times> int) list" where
  "joined_links db d =
     map (\<lambda>l. (l, target_status db l, target_in_release db l)) (doc_link_rows db (rel_id d))"

definition lintDocLinksTx :: "rel_doc \<Rightarrow> unit store" where
  "lintDocLinksTx d =
     bindT (tx_query (\<lambda>db. joined_links db d)) (\<lambda>rows.
     case first_link_error d rows of Some e \<Rightarrow> fail e | None \<Rightarrow> ret ())"

section \<open>The manifest of a candidate\<close>

definition content_bytes :: "(string \<times> string) list \<Rightarrow> string" where
  "content_bytes pbs = concat (map (\<lambda>(path, body). path @ nul # sha256 body) pbs)"

definition content_hash :: "(string \<times> string) list \<Rightarrow> string" where
  "content_hash pbs = ''sha256:'' @ hex_encode (sha256 (content_bytes pbs))"

definition manifest_doc_of :: "rel_doc \<Rightarrow> manifest_doc" where
  "manifest_doc_of d =
     \<lparr>md_path = rel_path d, md_family = rel_family d, md_version = rel_version d,
      md_sha = hex_encode (sha256 (rel_body d))\<rparr>"

definition candidate_manifest :: "rel_doc list \<Rightarrow> string \<Rightarrow> manifest" where
  "candidate_manifest docs created =
     \<lparr>m_release = 0, m_hash = content_hash (map (\<lambda>d. (rel_path d, rel_body d)) docs),
      m_created = created, m_docs = Some (map manifest_doc_of docs), m_resync = False\<rparr>"

lemma candidate_manifest_hash:
  "m_hash (candidate_manifest docs created) = content_hash (map (\<lambda>d. (rel_path d, rel_body d)) docs)"
  by (simp add: candidate_manifest_def)

definition empty_release :: gerror where
  "empty_release = Wrapf ErrLint ''release would be empty''"

definition releaseCandidate :: "(manifest \<times> rel_doc list) store" where
  "releaseCandidate =
     bindT (tx_query candidate_rows) (\<lambda>rows.
     bindT (lift_result (scan_docs rows)) (\<lambda>docs.
     bindT (for_each lintDocLinksTx docs) (\<lambda>_.
     if docs = [] then fail empty_release
     else bindT get_time (\<lambda>created. ret (candidate_manifest docs created, docs)))))"

definition PreviewRelease :: "manifest store" where
  "PreviewRelease = transaction (bindT releaseCandidate (\<lambda>(m, docs). ret m))"

section \<open>Cutting\<close>

text \<open>\<open>xs[i]\<close>: an index out of range panics.\<close>

definition index_at :: "'a list \<Rightarrow> int \<Rightarrow> 'a store" where
  "index_at xs i =
     (if 0 \<le> i \<and> i < int (length xs) then ret (xs ! nat i)
      else fail (Opaque ''runtime error: index out of range''))"

text \<open>\<open>manifestByCollection\<close>: the map of maps as one map on pairs.\<close>

definition manifest_versions :: "manifest_doc list \<Rightarrow> (string \<times> string \<Rightarrow> int option)" where
  "manifest_versions ds = fold (\<lambda>d g. g((split_first (CHR ''/'') (md_path d), md_family d) \<mapsto> md_version d)) ds Map.empty"

definition open_policies :: "db \<Rightarrow> (int \<times> string \<times> string) list" where
  "open_policies db =
     map (\<lambda>x. (x_id x, x_collection x, x_family x))
       (filter (\<lambda>x. x_kind x = ''policy'' \<and> x_status x = ''open'') (conflicts db))"

definition cleared_by :: "int \<Rightarrow> string" where
  "cleared_by rid = ''cleared by release '' @ int_dec rid"

definition cut_tx :: "string \<Rightarrow> string \<Rightarrow> manifest \<Rightarrow> rel_doc list \<Rightarrow> manifest store" where
  "cut_tx expectedHash editorName m docs =
     (if expectedHash \<noteq> [] \<and> m_hash m \<noteq> expectedHash
      then fail (err_conflict ''release candidate changed'')
      else
        bindT (tx_exec (insert_release (m_hash m) (m_created m))) (\<lambda>rid.
        bindT (for_each (\<lambda>(i, d).
                 bindT (index_at (elems (m_docs m)) i) (\<lambda>md.
                 tx_exec (insert_release_doc
                   \<lparr>rd_release = rid, rd_doc = rel_id d, rd_path = rel_path d, rd_sha = md_sha md\<rparr>)))
                 (numbered docs)) (\<lambda>_.
        bindT (tx_query open_policies) (\<lambda>policies.
        bindT get_time (\<lambda>resolvedAt.
        bindT (for_each (\<lambda>(i, c, f).
                 tx_exec (update_conflicts (\<lambda>x. x_id x = i \<and> x_status x = ''open'')
                   (resolve_row editorName resolvedAt (cleared_by rid)
                     (coalesce (manifest_versions (elems (m_docs m)) (c, f)) 0))))
                 policies) (\<lambda>_.
        bindT tx_commit (\<lambda>_. ret (m\<lparr>m_release := rid\<rparr>))))))))"

definition CutRelease :: "string \<Rightarrow> string \<Rightarrow> manifest store" where
  "CutRelease expectedHash editorName =
     transaction (tryT releaseCandidate (\<lambda>r. case r of
       Inr (m, docs) \<Rightarrow> cut_tx expectedHash editorName m docs
     | Inl err \<Rightarrow>
         (case as_lint_error err of
            None \<Rightarrow> fail err
          | Some (c, f, v, reason) \<Rightarrow>
              if errors_is err ErrLint \<and> c \<noteq> [] then
                bindT (upsertPolicyConflictTx c f v editorName reason) (\<lambda>i.
                bindT tx_commit (\<lambda>_. fail (ConflictRecordedError i err)))
              else fail err)))"

section \<open>Reading releases\<close>

record rel_entry =
  re_path :: string
  re_sha :: string
  re_collection :: string
  re_family :: string
  re_version :: int
  re_body :: string

text \<open>\<open>release_docs JOIN doc_versions\<close> on the primary key, for one release.\<close>

definition join_doc :: "db \<Rightarrow> release_doc_row \<Rightarrow> rel_entry option" where
  "join_doc db r =
     map_option (\<lambda>d. \<lparr>re_path = rd_path r, re_sha = rd_sha r, re_collection = d_collection d,
                      re_family = d_family d, re_version = d_version d, re_body = d_body d\<rparr>)
       (first_row (\<lambda>d. d_id d = rd_doc r) (doc_versions db))"

definition release_join :: "db \<Rightarrow> int \<Rightarrow> rel_entry list" where
  "release_join db rid =
     List.map_filter (join_doc db) (filter (\<lambda>r. rd_release r = rid) (release_docs db))"

definition release_rows :: "db \<Rightarrow> int \<Rightarrow> rel_entry list" where
  "release_rows db rid = sort_key (\<lambda>e. (re_collection e, re_family e)) (release_join db rid)"

definition entry_doc :: "rel_entry \<Rightarrow> manifest_doc" where
  "entry_doc e = \<lparr>md_path = re_path e, md_family = re_family e, md_version = re_version e, md_sha = re_sha e\<rparr>"

definition read_manifest :: "(db \<Rightarrow> release_row option) \<Rightarrow> manifest store" where
  "read_manifest sel =
     bindT (db_query sel) (\<lambda>row.
     case row of
       None \<Rightarrow> fail (Sentinel ErrNotFound)
     | Some r \<Rightarrow>
         bindT (db_query (\<lambda>db. release_rows db (r_id r))) (\<lambda>rows.
         ret \<lparr>m_release = r_id r, m_hash = r_hash r, m_created = r_created r,
              m_docs = (if rows = [] then None else Some (map entry_doc rows)), m_resync = False\<rparr>))"

definition find_release :: "db \<Rightarrow> int \<Rightarrow> release_row option" where
  "find_release db i = first_row (\<lambda>r. r_id r = i) (releases db)"

definition current_release :: "db \<Rightarrow> release_row option" where
  "current_release db =
     (case sql_max (map r_id (releases db)) of None \<Rightarrow> None | Some i \<Rightarrow> find_release db i)"

definition CurrentRelease :: "manifest store" where
  "CurrentRelease = read_manifest current_release"

definition Release :: "int \<Rightarrow> manifest store" where
  "Release i = read_manifest (\<lambda>db. find_release db i)"

section \<open>The archive\<close>

record tar_entry =
  te_name :: string
  te_body :: string

text \<open>A write to the response can fail like a driver call.\<close>

definition out_write :: "unit store" where
  "out_write = driver (\<lambda>s. (Inr (), s))"

definition body_query :: "int \<Rightarrow> string \<Rightarrow> db \<Rightarrow> string option" where
  "body_query i path db = map_option re_body (first_row (\<lambda>e. re_path e = path) (release_join db i))"

text \<open>The loop over the manifest; the entries written so far are kept when it stops, and the
  error is that of \<open>WriteArchive\<close>.  Nothing is written behind the last complete entry then, not even
  the trailer.\<close>

fun write_entries :: "int \<Rightarrow> manifest_doc list \<Rightarrow> tar_entry list \<Rightarrow> (tar_entry list \<times> gerror option) store" where
  "write_entries i [] acc =
     tryT out_write (\<lambda>r. case r of Inl e \<Rightarrow> ret (acc, Some e) | Inr _ \<Rightarrow> ret (acc, None))"
| "write_entries i (d # ds) acc =
     tryT (db_query (body_query i (md_path d))) (\<lambda>r. case r of
       Inl e \<Rightarrow> ret (acc, Some e)
     | Inr None \<Rightarrow> ret (acc, Some (Opaque ''sql: no rows in result set''))
     | Inr (Some body) \<Rightarrow>
         tryT (bindT out_write (\<lambda>_. out_write)) (\<lambda>w. case w of
           Inl e \<Rightarrow> ret (acc, Some e)
         | Inr _ \<Rightarrow> write_entries i ds (acc @ [\<lparr>te_name = md_path d, te_body = body\<rparr>])))"

definition WriteArchive :: "int \<Rightarrow> (tar_entry list \<times> gerror option) store" where
  "WriteArchive i =
     tryT (Release i) (\<lambda>r. case r of
       Inl e \<Rightarrow> ret ([], Some e)
     | Inr m \<Rightarrow>
         if \<not> rfc3339_ok (m_created m) then ret ([], Some (Opaque (''parsing time '' @ m_created m)))
         else write_entries i (elems (m_docs m)) [])"

section \<open>The candidate in closed form\<close>

fun first_error :: "('a \<Rightarrow> gerror option) \<Rightarrow> 'a list \<Rightarrow> gerror option" where
  "first_error f [] = None"
| "first_error f (x # xs) = (case f x of Some e \<Rightarrow> Some e | None \<Rightarrow> first_error f xs)"

lemma first_error_None: "first_error f xs = None \<longleftrightarrow> (\<forall>x \<in> set xs. f x = None)"
  by (induction xs) (auto split: option.splits)

lemma first_error_Some: "first_error f xs = Some e \<Longrightarrow> \<exists>x \<in> set xs. f x = Some e"
  by (induction xs) (auto split: option.splits)

lemma scan_docs_eq:
  "scan_docs rows = (case first_error (kernel_lint \<circ> rel_doc_of) rows of
     Some e \<Rightarrow> Inl e | None \<Rightarrow> Inr (map rel_doc_of rows))"
  by (induction rows) (auto split: option.splits)

definition doc_lint :: "db \<Rightarrow> rel_doc \<Rightarrow> gerror option" where
  "doc_lint db d = first_link_error d (joined_links db d)"

definition candidate_docs :: "db \<Rightarrow> rel_doc list" where
  "candidate_docs db = map rel_doc_of (candidate_rows db)"

definition candidate_error :: "db \<Rightarrow> gerror option" where
  "candidate_error db =
     (case first_error kernel_lint (candidate_docs db) of
        Some e \<Rightarrow> Some e
      | None \<Rightarrow>
          (case first_error (doc_lint db) (candidate_docs db) of
             Some e \<Rightarrow> Some e
           | None \<Rightarrow> if candidate_docs db = [] then Some empty_release else None))"

lemma first_error_map: "first_error f (map g xs) = first_error (f \<circ> g) xs"
  by (induction xs) (auto split: option.split)

lemma wp_lintDocLinksTx:
  assumes "busy s"
  shows "wp (lintDocLinksTx d)
     (\<lambda>x s'. s' = tick s \<and> (faulty e \<and> (\<exists>m. x = Opaque m) \<or> doc_lint (pending s) d = Some x))
     (\<lambda>_ s'. s' = tick s \<and> doc_lint (pending s) d = None) e s"
  unfolding lintDocLinksTx_def by (intro wp_intros) (auto simp: assms doc_lint_def)

lemma wp_lint_loop:
  fixes s :: "db sess"
  assumes "busy s"
  shows "wp (for_each lintDocLinksTx docs)
     (\<lambda>x s'. committed s' = committed s \<and> pending s' = pending s \<and> busy s'
        \<and> (faulty e \<and> (\<exists>m. x = Opaque m) \<or> first_error (doc_lint (pending s)) docs = Some x))
     (\<lambda>_ s'. committed s' = committed s \<and> pending s' = pending s \<and> busy s'
        \<and> first_error (doc_lint (pending s)) docs = None) e s"
  using assms
proof (induction docs arbitrary: s)
  case Nil
  then show ?case by (auto intro!: wp_intros)
next
  case (Cons d docs)
  have "wp (for_each lintDocLinksTx docs)
     (\<lambda>x s'. committed s' = committed s \<and> pending s' = pending s \<and> busy s'
        \<and> (faulty e \<and> (\<exists>m. x = Opaque m) \<or> first_error (doc_lint (pending s)) docs = Some x))
     (\<lambda>_ s'. committed s' = committed s \<and> pending s' = pending s \<and> busy s'
        \<and> first_error (doc_lint (pending s)) docs = None) e (tick s)"
    using Cons.IH [of "tick s"] Cons.prems by simp
  then show ?case
    unfolding for_each.simps
    by (intro wp_bindT wp_conseq [OF wp_lintDocLinksTx [OF Cons.prems]]) (auto simp: Cons.prems)
qed

lemma wp_releaseCandidate:
  assumes busy: "busy s"
  shows "wp releaseCandidate
     (\<lambda>x s'. committed s' = committed s \<and> pending s' = pending s \<and> busy s'
        \<and> (faulty e \<and> (\<exists>m. x = Opaque m) \<or> candidate_error (pending s) = Some x))
     (\<lambda>(m, docs) s'. committed s' = committed s \<and> pending s' = pending s \<and> busy s'
        \<and> candidate_error (pending s) = None \<and> docs = candidate_docs (pending s) \<and> docs \<noteq> []
        \<and> (\<exists>created n. created = clock_at e n \<and> m = candidate_manifest docs created)) e s"
proof -
  let ?db = "pending s"
  have scan: "scan_docs (candidate_rows ?db) = (case first_error kernel_lint (candidate_docs ?db) of
     Some e \<Rightarrow> Inl e | None \<Rightarrow> Inr (candidate_docs ?db))"
    by (simp add: scan_docs_eq candidate_docs_def first_error_map cong: option.case_cong)
  have time: "wp get_time (\<lambda>_ _. False) (\<lambda>t s'. s' = tick s1 \<and> (\<exists>n. t = clock_at e n)) e s1" for s1 :: "db sess"
    by (auto simp: wp_def get_time_def)
  show ?thesis
  proof (cases "first_error kernel_lint (candidate_docs ?db)")
    case (Some x)
    then show ?thesis
      unfolding releaseCandidate_def
      by (intro wp_bindT wp_tx_query wp_lift_result) (auto simp: busy scan candidate_error_def)
  next
    case None
    then show ?thesis
      unfolding releaseCandidate_def
      by (intro wp_bindT wp_tx_query wp_lift_result)
         (auto simp: busy scan candidate_error_def split: option.split
           intro!: wp_conseq [OF wp_lint_loop] wp_if wp_fail wp_bindT wp_conseq [OF time] wp_ret)
  qed
qed

lemma wp_PreviewRelease:
  assumes busy: "\<not> busy s"
  shows "wp PreviewRelease
     (\<lambda>x s'. committed s' = committed s \<and> \<not> busy s'
        \<and> (faulty e \<and> (\<exists>m. x = Opaque m) \<or> candidate_error (committed s) = Some x))
     (\<lambda>m s'. committed s' = committed s \<and> \<not> busy s' \<and> candidate_error (committed s) = None
        \<and> (\<exists>created. m = candidate_manifest (candidate_docs (committed s)) created)) e s"
  unfolding PreviewRelease_def
  by (intro wp_transaction wp_bindT wp_conseq [OF wp_releaseCandidate])
     (auto simp: busy intro!: wp_ret)

section \<open>What a cut does\<close>

definition release_doc_row_of :: "int \<Rightarrow> rel_doc \<Rightarrow> release_doc_row" where
  "release_doc_row_of rid d =
     \<lparr>rd_release = rid, rd_doc = rel_id d, rd_path = rel_path d, rd_sha = hex_encode (sha256 (rel_body d))\<rparr>"

definition policy_winner :: "rel_doc list \<Rightarrow> conflict_row \<Rightarrow> int" where
  "policy_winner docs x =
     coalesce (manifest_versions (map manifest_doc_of docs) (x_collection x, x_family x)) 0"

definition cleared_conflicts :: "int \<Rightarrow> rel_doc list \<Rightarrow> string \<Rightarrow> string \<Rightarrow> conflict_row list \<Rightarrow> conflict_row list" where
  "cleared_conflicts rid docs editor at xs =
     map (\<lambda>x. if x_kind x = ''policy'' \<and> x_status x = ''open''
             then resolve_row editor at (cleared_by rid) (policy_winner docs x) x else x) xs"

definition cut_db :: "db \<Rightarrow> string \<Rightarrow> string \<Rightarrow> string \<Rightarrow> db" where
  "cut_db db created editor at =
     (let docs = candidate_docs db; rid = next_id (map r_id (releases db)) in
      db\<lparr>releases := releases db @ [\<lparr>r_id = rid, r_hash = m_hash (candidate_manifest docs created), r_created = created\<rparr>],
         release_docs := release_docs db @ map (release_doc_row_of rid) docs,
         conflicts := cleared_conflicts rid docs editor at (conflicts db)\<rparr>)"

text \<open>Referential integrity of the release tables.\<close>

definition rel_refs :: "db \<Rightarrow> bool" where
  "rel_refs db \<longleftrightarrow>
     distinct (map r_id (releases db))
     \<and> (\<forall>r \<in> set (release_docs db). rd_release r \<in> r_id ` set (releases db) \<and> rd_doc r \<in> d_id ` set (doc_versions db))"

lemma candidate_rows_set:
  "set (candidate_rows db) = {d \<in> set (doc_versions db). d_status d = ''active'' \<and> in_release db (d_collection d)}"
  by (auto simp: candidate_rows_def)

lemma candidate_rows_ids:
  assumes "docs_inv db"
  shows "distinct (map d_id (candidate_rows db))"
proof -
  have "distinct (map d_id (filter (\<lambda>d. d_status d = ''active'' \<and> in_release db (d_collection d)) (doc_versions db)))"
    using assms by (simp add: docs_inv_def distinct_map_filter)
  then show ?thesis
    unfolding candidate_rows_def by (simp add: distinct_map)
qed

lemma rel_doc_of_sel [simp]:
  "rel_id (rel_doc_of d) = d_id d" "rel_body (rel_doc_of d) = d_body d" "rel_family (rel_doc_of d) = d_family d"
  "rel_collection (rel_doc_of d) = d_collection d" "rel_version (rel_doc_of d) = d_version d"
  "rel_path (rel_doc_of d) = doc_path (d_collection d) (d_family d)"
  by (simp_all add: rel_doc_of_def)

lemma release_doc_row_of_sel [simp]:
  "rd_release (release_doc_row_of rid d) = rid" "rd_doc (release_doc_row_of rid d) = rel_id d"
  "rd_path (release_doc_row_of rid d) = rel_path d"
  "rd_sha (release_doc_row_of rid d) = hex_encode (sha256 (rel_body d))"
  by (simp_all add: release_doc_row_of_def)

lemma candidate_docs_ids: "docs_inv db \<Longrightarrow> distinct (map rel_id (candidate_docs db))"
  using candidate_rows_ids by (simp add: candidate_docs_def o_def)

lemma wp_index_at: "0 \<le> i \<Longrightarrow> i < int (length xs) \<Longrightarrow> N (xs ! nat i) s \<Longrightarrow> wp (index_at xs i) E N e s"
  by (simp add: index_at_def wp_def ret_def)

lemma wp_insert_release_docs:
  fixes s :: "db sess"
  assumes busy: "busy s" and db: "pending s = db" and inv: "docs_inv db" "rel_refs db"
    and docs: "docs = candidate_docs db" and rid: "rid = next_id (map r_id (releases db0))"
    and rel: "releases db = releases db0 @ [\<lparr>r_id = rid, r_hash = h, r_created = created\<rparr>]"
    and old: "\<forall>r \<in> set (release_docs db). rd_release r \<in> r_id ` set (releases db0)"
  shows "wp (for_each (\<lambda>(i, d).
                 bindT (index_at (map manifest_doc_of docs) i) (\<lambda>md.
                 tx_exec (insert_release_doc
                   \<lparr>rd_release = rid, rd_doc = rel_id d, rd_path = rel_path d, rd_sha = md_sha md\<rparr>)))
                 (numbered docs))
     (\<lambda>x s'. committed s' = committed s \<and> busy s' \<and> faulty e \<and> (\<exists>m. x = Opaque m))
     (\<lambda>_ s'. committed s' = committed s \<and> busy s'
        \<and> pending s' = db\<lparr>release_docs := release_docs db @ map (release_doc_row_of rid) docs\<rparr>) e s"
proof (rule wp_for_each [where I = "\<lambda>ys s'. committed s' = committed s \<and> busy s'
        \<and> pending s' = db\<lparr>release_docs := release_docs db @ map (\<lambda>p. release_doc_row_of rid (snd p)) ys\<rparr>"])
  fix ys x zs and s' :: "db sess"
  assume xs: "numbered docs = ys @ x # zs" and s': "committed s' = committed s \<and> busy s'
        \<and> pending s' = db\<lparr>release_docs := release_docs db @ map (\<lambda>p. release_doc_row_of rid (snd p)) ys\<rparr>"
  obtain i d where x: "x = (i, d)" by (cases x)
  have "(i, d) \<in> set (numbered docs)" by (simp add: xs x)
  then obtain n where n: "n < length docs" "i = int n" "d = docs ! n" by (auto simp: set_numbered)
  then have at: "map manifest_doc_of docs ! nat i = manifest_doc_of d" by simp
  have "d \<in> set docs" using n by simp
  then have dmem: "rel_id d \<in> d_id ` set (doc_versions db)"
    by (auto simp: docs candidate_docs_def candidate_rows_set)
  have dist: "distinct (map (\<lambda>p. rel_id (snd p)) (ys @ x # zs))"
  proof -
    have "map (\<lambda>p. rel_id (snd p)) (numbered docs) = map rel_id docs" by (simp flip: map_map [unfolded o_def])
    then show ?thesis using candidate_docs_ids [OF inv(1)] xs docs by metis
  qed
  have new: "rel_id (snd p) \<noteq> rel_id d" if "p \<in> set ys" for p
    using distinct_map_mid [OF dist that] by (simp add: x)
  have fresh: "rd_release r \<noteq> rid" if "r \<in> set (release_docs db)" for r
    using old that by (fastforce simp: rid dest: next_id_fresh_map [where f = r_id])
  have "list_all (\<lambda>w. \<not> (rd_release w = rid \<and> rd_doc w = rel_id d)) (release_docs (pending s'))"
    using s' by (simp add: list_all_iff ball_Un new fresh)
  then have ok: "release_doc_insert_ok (pending s') (release_doc_row_of rid d)"
    using s' rel dmem by (auto simp: release_doc_insert_ok_def list_ex_iff)
  have row: "\<lparr>rd_release = rid, rd_doc = rel_id d, rd_path = rel_path d, rd_sha = md_sha (manifest_doc_of d)\<rparr> = release_doc_row_of rid d"
    by (simp add: release_doc_row_of_def manifest_doc_of_def)
  show "wp (case x of (i, d) \<Rightarrow>
                 bindT (index_at (map manifest_doc_of docs) i) (\<lambda>md.
                 tx_exec (insert_release_doc
                   \<lparr>rd_release = rid, rd_doc = rel_id d, rd_path = rel_path d, rd_sha = md_sha md\<rparr>)))
     (\<lambda>x s'. committed s' = committed s \<and> busy s' \<and> faulty e \<and> (\<exists>m. x = Opaque m))
     (\<lambda>_ s'. committed s' = committed s \<and> busy s'
        \<and> pending s' = db\<lparr>release_docs := release_docs db @ map (\<lambda>p. release_doc_row_of rid (snd p)) (ys @ [x])\<rparr>) e s'"
    unfolding x prod.case
    by (intro wp_bindT wp_index_at wp_tx_exec; (unfold at row)?)
       (use n s' ok x in \<open>auto simp: insert_release_doc_def\<close>)
qed (use busy db in \<open>auto simp: o_def simp flip: map_map [unfolded o_def]\<close>)

text \<open>The loop that clears the open policy conflicts.\<close>

definition cleared_upto :: "int set \<Rightarrow> int \<Rightarrow> rel_doc list \<Rightarrow> string \<Rightarrow> string \<Rightarrow> conflict_row list \<Rightarrow> conflict_row list" where
  "cleared_upto ids rid docs editor at xs =
     map (\<lambda>x. if x_id x \<in> ids \<and> x_status x = ''open''
             then resolve_row editor at (cleared_by rid) (policy_winner docs x) x else x) xs"

lemma cleared_upto_insert:
  assumes "conflicts_inv db" and y: "y \<in> set (conflicts db)" "x_id y = i" "x_collection y = c" "x_family y = f"
  shows "map (\<lambda>z. if x_id z = i \<and> x_status z = ''open''
       then resolve_row editor at (cleared_by rid) (coalesce (manifest_versions (map manifest_doc_of docs) (c, f)) 0) z else z)
       (cleared_upto ids rid docs editor at (conflicts db))
     = cleared_upto (insert i ids) rid docs editor at (conflicts db)"
proof -
  have key: "x_collection x = c \<and> x_family x = f" if "x \<in> set (conflicts db)" "x_id x = i" for x
    using conflict_unique [OF assms(1) y(1) that(1)] that(2) y by auto
  show ?thesis
    unfolding cleared_upto_def map_map o_def
    by (rule map_cong [OF refl]) (use key in \<open>auto simp: policy_winner_def\<close>)
qed

lemma cleared_upto_all:
  assumes "conflicts_inv db"
  shows "cleared_upto (fst ` set (open_policies db)) rid docs editor at (conflicts db)
    = cleared_conflicts rid docs editor at (conflicts db)"
proof -
  have "(x_id x \<in> fst ` set (open_policies db) \<and> x_status x = ''open'') = (x_kind x = ''policy'' \<and> x_status x = ''open'')"
    if "x \<in> set (conflicts db)" for x
    using conflict_unique [OF assms that] that by (force simp: open_policies_def)
  then show ?thesis unfolding cleared_conflicts_def cleared_upto_def by (intro map_cong) auto
qed

lemma cleared_upto_none [simp]: "cleared_upto {} rid docs editor at xs = xs"
  by (simp add: cleared_upto_def)

lemma wp_clear_policies:
  fixes s :: "db sess"
  assumes busy: "busy s" and db: "pending s = db" and inv: "conflicts_inv db"
    and ds: "ds = map manifest_doc_of docs"
  shows "wp (for_each (\<lambda>(i, c, f).
                 tx_exec (update_conflicts (\<lambda>x. x_id x = i \<and> x_status x = ''open'')
                   (resolve_row editor at (cleared_by rid) (coalesce (manifest_versions ds (c, f)) 0))))
                 (open_policies db))
     (\<lambda>x s'. committed s' = committed s \<and> busy s' \<and> faulty e \<and> (\<exists>m. x = Opaque m))
     (\<lambda>_ s'. committed s' = committed s \<and> busy s'
        \<and> pending s' = db\<lparr>conflicts := cleared_conflicts rid docs editor at (conflicts db)\<rparr>) e s"
proof (rule wp_for_each [where I = "\<lambda>ys s'. committed s' = committed s \<and> busy s'
        \<and> pending s' = db\<lparr>conflicts := cleared_upto (fst ` set ys) rid docs editor at (conflicts db)\<rparr>"])
  fix ys p zs and s' :: "db sess"
  assume xs: "open_policies db = ys @ p # zs" and s': "committed s' = committed s \<and> busy s'
        \<and> pending s' = db\<lparr>conflicts := cleared_upto (fst ` set ys) rid docs editor at (conflicts db)\<rparr>"
  obtain i c f where p: "p = (i, c, f)" by (cases p)
  have "p \<in> set (open_policies db)" by (simp add: xs)
  then obtain y where y: "y \<in> set (conflicts db)" "x_id y = i" "x_collection y = c" "x_family y = f"
    by (auto simp: open_policies_def p)
  let ?g = "resolve_row editor at (cleared_by rid) (coalesce (manifest_versions ds (c, f)) 0)"
  let ?after = "cleared_upto (fst ` set (ys @ [p])) rid docs editor at (conflicts db)"
  have "update_conflicts (\<lambda>x. x_id x = i \<and> x_status x = ''open'') ?g (pending s') = Inr ((), db\<lparr>conflicts := ?after\<rparr>)"
    unfolding update_conflicts_guarded ds using s' cleared_upto_insert [OF inv y] by (simp add: p)
  then show "wp (case p of (i, c, f) \<Rightarrow>
                 tx_exec (update_conflicts (\<lambda>x. x_id x = i \<and> x_status x = ''open'')
                   (resolve_row editor at (cleared_by rid) (coalesce (manifest_versions ds (c, f)) 0))))
     (\<lambda>x s'. committed s' = committed s \<and> busy s' \<and> faulty e \<and> (\<exists>m. x = Opaque m))
     (\<lambda>_ s'. committed s' = committed s \<and> busy s' \<and> pending s' = db\<lparr>conflicts := ?after\<rparr>) e s'"
    unfolding p prod.case by (intro wp_tx_exec) (use s' p in auto)
qed (use busy db cleared_upto_all [OF inv] in auto)

lemma wp_cut_tx:
  fixes s :: "db sess"
  assumes busy: "busy s" and inv: "docs_inv (pending s)" "conflicts_inv (pending s)" "rel_refs (pending s)"
    and docs: "docs = candidate_docs (pending s)" and m: "m = candidate_manifest docs created"
  shows "wp (cut_tx expected editor m docs)
     (\<lambda>x s'. committed s' = committed s
        \<and> (faulty e \<and> (\<exists>msg. x = Opaque msg)
           \<or> expected \<noteq> [] \<and> m_hash m \<noteq> expected \<and> x = err_conflict ''release candidate changed''))
     (\<lambda>r s'. (expected = [] \<or> m_hash m = expected)
        \<and> r = m\<lparr>m_release := next_id (map r_id (releases (pending s)))\<rparr>
        \<and> (\<exists>at. committed s' = cut_db (pending s) created editor at)) e s"
proof (cases "expected \<noteq> [] \<and> m_hash m \<noteq> expected")
  case True
  then show ?thesis by (simp add: cut_tx_def wp_fail)
next
  case False
  let ?db = "pending s"
  let ?rid = "next_id (map r_id (releases ?db))"
  let ?db1 = "?db\<lparr>releases := releases ?db @ [\<lparr>r_id = ?rid, r_hash = m_hash m, r_created = created\<rparr>]\<rparr>"
  let ?db2 = "?db1\<lparr>release_docs := release_docs ?db @ map (release_doc_row_of ?rid) docs\<rparr>"
  have refs1: "rel_refs ?db1" using inv(3) by (auto simp: rel_refs_def)
  have docs1: "docs = candidate_docs ?db1" by (simp add: docs candidate_docs_def candidate_rows_def in_release_def)
  have ins: "insert_release (m_hash m) (m_created m) ?db = Inr (?rid, ?db1)"
    by (simp add: insert_release_def Let_def m candidate_manifest_def)
  have ds: "elems (m_docs m) = map manifest_doc_of docs" by (simp add: m candidate_manifest_def)
  have fin: "cut_db ?db created editor at = ?db2\<lparr>conflicts := cleared_conflicts ?rid docs editor at (conflicts ?db)\<rparr>" for at
    by (simp add: cut_db_def Let_def m docs candidate_manifest_def)
  have inv2: "conflicts_inv ?db2" using inv(2) by simp
  have pol: "open_policies ?db2 = open_policies ?db" by (simp add: open_policies_def)
  have rows: "wp (for_each (\<lambda>(i, d). bindT (index_at (map manifest_doc_of docs) i) (\<lambda>md.
                 tx_exec (insert_release_doc
                   \<lparr>rd_release = ?rid, rd_doc = rel_id d, rd_path = rel_path d, rd_sha = md_sha md\<rparr>)))
                 (numbered docs))
     (\<lambda>x s'. committed s' = committed s1 \<and> busy s' \<and> faulty e \<and> (\<exists>m. x = Opaque m))
     (\<lambda>_ s'. committed s' = committed s1 \<and> busy s' \<and> pending s' = ?db2) e s1"
    if "busy s1" "pending s1 = ?db1" for s1 :: "db sess"
    by (rule wp_conseq [OF wp_insert_release_docs [OF that _ refs1 docs1 refl]])
       (use inv in \<open>auto simp: rel_refs_def\<close>)
  have clear: "wp (for_each (\<lambda>(i, c, f).
                 tx_exec (update_conflicts (\<lambda>x. x_id x = i \<and> x_status x = ''open'')
                   (resolve_row editor at (cleared_by ?rid)
                     (coalesce (manifest_versions (map manifest_doc_of docs) (c, f)) 0)))) (open_policies ?db))
     (\<lambda>x s'. committed s' = committed s1 \<and> busy s' \<and> faulty e \<and> (\<exists>m. x = Opaque m))
     (\<lambda>_ s'. committed s' = committed s1 \<and> busy s' \<and> pending s' = cut_db ?db created editor at) e s1"
    if "busy s1" "pending s1 = ?db2" for s1 :: "db sess" and at
    using wp_clear_policies [OF that inv2 refl, of editor at ?rid docs e] by (simp add: pol fin)
  show ?thesis
    unfolding cut_tx_def if_not_P [OF False] ds
    apply (intro wp_bindT wp_tx_exec wp_conseq [OF rows] wp_tx_query wp_get_time)
    apply (use False in \<open>auto simp: busy ins pol intro!: wp_bindT wp_conseq [OF rows] wp_conseq [OF clear]
          wp_tx_query wp_get_time wp_tx_commit wp_ret\<close>)
    apply blast+
    done
qed

text \<open>The two effects of a cut: a release, or the record of a lint.\<close>

inductive cut_effect :: "env \<Rightarrow> string \<Rightarrow> string \<Rightarrow> db \<Rightarrow> gerror + manifest \<Rightarrow> db \<Rightarrow> bool"
  for e expected editor db where
  cut: "candidate_error db = None \<Longrightarrow> candidate_docs db \<noteq> []
     \<Longrightarrow> m = candidate_manifest (candidate_docs db) (clock_at e n) \<Longrightarrow> expected = [] \<or> m_hash m = expected
     \<Longrightarrow> cut_effect e expected editor db (Inr (m\<lparr>m_release := next_id (map r_id (releases db))\<rparr>))
           (cut_db db (clock_at e n) editor at)"
| linted: "candidate_error db = Some (LintError c f v reason)
     \<Longrightarrow> recorded_policy c f v editor reason at db = (i, db')
     \<Longrightarrow> cut_effect e expected editor db (Inl (ConflictRecordedError i (LintError c f v reason))) db'"

inductive_cases cut_effect_okE: "cut_effect e expected editor db (Inr m) db'"
inductive_cases cut_effect_errE: "cut_effect e expected editor db (Inl x) db'"

lemma kernel_lint_form:
  "kernel_lint d = Some x \<Longrightarrow> \<exists>reason. x = LintError (rel_collection d) (rel_family d) (rel_version d) reason"
  by (auto simp: kernel_lint_def split: if_splits)

lemma first_link_error_form:
  "first_link_error d rows = Some x \<Longrightarrow> \<exists>reason. x = LintError (rel_collection d) (rel_family d) (rel_version d) reason"
  by (induction d rows rule: first_link_error.induct) (auto simp: Let_def split: if_splits)

lemma doc_lint_form:
  "doc_lint db d = Some x \<Longrightarrow> \<exists>reason. x = LintError (rel_collection d) (rel_family d) (rel_version d) reason"
  unfolding doc_lint_def by (rule first_link_error_form)

lemma candidate_docs_mem:
  assumes "docs_inv db" "d \<in> set (candidate_docs db)"
  shows "valid_ident (rel_collection d)" "valid_ident (rel_family d)" "1 \<le> rel_version d"
    "rel_path d = doc_path (rel_collection d) (rel_family d)" "in_release db (rel_collection d)"
    "\<exists>row \<in> set (doc_versions db). d = rel_doc_of row \<and> d_status row = ''active''"
  using assms by (auto simp: candidate_docs_def candidate_rows_set docs_inv_def doc_row_ok_def)

lemma candidate_error_form:
  assumes "docs_inv db" "candidate_error db = Some x"
  shows "x = empty_release \<or> (\<exists>d \<in> set (candidate_docs db). \<exists>reason.
           x = LintError (rel_collection d) (rel_family d) (rel_version d) reason)"
  using assms(2)
  by (auto simp: candidate_error_def split: option.splits if_splits dest!: first_error_Some)
     (blast dest: kernel_lint_form doc_lint_form)+

lemma valid_ident_nonempty: "valid_ident c \<Longrightarrow> c \<noteq> []"
  by (simp add: valid_ident_def)

lemma wp_CutRelease:
  assumes busy: "\<not> busy s" and inv: "docs_inv (committed s)" "conflicts_inv (committed s)" "rel_refs (committed s)"
  shows "wp (CutRelease expected editor)
     (\<lambda>x s'. \<not> busy s' \<and>
        (committed s' = committed s
           \<and> (faulty e \<and> (\<exists>m. x = Opaque m) \<or> x = empty_release \<and> candidate_error (committed s) = Some x
              \<or> candidate_error (committed s) = None \<and> expected \<noteq> [] \<and> x = err_conflict ''release candidate changed''
                \<and> (\<forall>created. m_hash (candidate_manifest (candidate_docs (committed s)) created) \<noteq> expected))
         \<or> cut_effect e expected editor (committed s) (Inl x) (committed s')))
     (\<lambda>m s'. \<not> busy s' \<and> cut_effect e expected editor (committed s) (Inr m) (committed s')) e s"
proof -
  let ?db = "committed s"
  have lint: "wp (bindT (upsertPolicyConflictTx c f v editor reason) (\<lambda>i.
                bindT tx_commit (\<lambda>_. fail (ConflictRecordedError i (LintError c f v reason)))))
      (\<lambda>x s'. committed s' = ?db \<and> faulty e \<and> (\<exists>m. x = Opaque m) \<or> cut_effect e expected editor ?db (Inl x) (committed s'))
      (\<lambda>a s'. False) e s1"
    if err: "candidate_error ?db = Some (LintError c f v reason)"
      and s1: "busy s1" "committed s1 = ?db" "pending s1 = ?db" for c f v reason s1
  proof -
    have "valid_ident c" "valid_ident f"
      using candidate_error_form [OF inv(1) err] candidate_docs_mem(1,2) [OF inv(1)] by (auto simp: empty_release_def)
    then show ?thesis
      by (intro wp_bindT wp_conseq [OF wp_upsertPolicyConflictTx [OF s1(1)]])
         (use inv(2) s1 in \<open>auto intro!: wp_tx_commit wp_fail wp_bindT cut_effect.linted [OF err] dest: sym\<close>)
  qed
  have named: "rel_collection d \<noteq> []" if "d \<in> set (candidate_docs ?db)" for d
    using candidate_docs_mem(1) [OF inv(1) that] by (rule valid_ident_nonempty)
  have body: "wp (tryT releaseCandidate (\<lambda>r. case r of
       Inr (m, docs) \<Rightarrow> cut_tx expected editor m docs
     | Inl err \<Rightarrow>
         (case as_lint_error err of
            None \<Rightarrow> fail err
          | Some (c, f, v, reason) \<Rightarrow>
              if errors_is err ErrLint \<and> c \<noteq> [] then
                bindT (upsertPolicyConflictTx c f v editor reason) (\<lambda>i.
                bindT tx_commit (\<lambda>_. fail (ConflictRecordedError i err)))
              else fail err)))
     (\<lambda>x s'. committed s' = committed s
           \<and> (faulty e \<and> (\<exists>m. x = Opaque m) \<or> x = empty_release \<and> candidate_error (committed s) = Some x
              \<or> candidate_error (committed s) = None \<and> expected \<noteq> [] \<and> x = err_conflict ''release candidate changed''
                \<and> (\<forall>created. m_hash (candidate_manifest (candidate_docs (committed s)) created) \<noteq> expected))
         \<or> cut_effect e expected editor (committed s) (Inl x) (committed s'))
     (\<lambda>m s'. cut_effect e expected editor (committed s) (Inr m) (committed s')) e s1"
    if s1: "busy s1" "committed s1 = ?db" "pending s1 = ?db" for s1
    apply (rule wp_tryT, rule wp_conseq [OF wp_releaseCandidate [OF s1(1)]])
    subgoal for x s'
      using s1 candidate_error_form [OF inv(1), of x] named
      by (auto simp: empty_release_def intro!: wp_fail wp_conseq [OF lint])
    subgoal for r s'
      using s1 inv
      by (auto intro!: wp_conseq [OF wp_cut_tx] cut_effect.cut simp: candidate_manifest_hash split: prod.splits)
    done
  show ?thesis
    unfolding CutRelease_def by (intro wp_transaction wp_conseq [OF body]) (auto simp: busy)
qed

end
