(* ===== verification/ReleaseFacts.thy ===== *)
theory ReleaseFacts
  imports Releases
begin

text \<open>
  What a release is once it is stored: the rows of a cut release are the candidate it
  was computed from, they do not change in any later state, and what is read back is
  what was cut.
\<close>

section \<open>Stored releases stay what they are\<close>

lemma first_row_id:
  assumes "docs_inv db" "d \<in> set (doc_versions db)"
  shows "first_row (\<lambda>w. d_id w = d_id d) (doc_versions db) = Some d"
  using assms distinct_map_unique [of d_id "doc_versions db"]
  by (intro first_row_unique) (auto simp: docs_inv_def)

lemma join_doc_kept:
  assumes "docs_inv db" "docs_inv db'" "history_kept db db'" "rd_doc r \<in> d_id ` set (doc_versions db)"
  shows "join_doc db' r = join_doc db r"
proof -
  from assms(4) obtain d where d: "d \<in> set (doc_versions db)" "rd_doc r = d_id d" by auto
  from assms(3) have "grows doc_step (doc_versions db) (doc_versions db')" by (simp add: history_kept_def)
  then obtain d' where d': "d' \<in> set (doc_versions db')" "doc_step d d'" using d(1) by (rule grows_mem)
  show ?thesis
    using first_row_id [OF assms(1) d(1)] first_row_id [OF assms(2) d'(1)] d(2) d'(2)
    by (auto simp: join_doc_def doc_step_def)
qed

lemma map_filter_cong: "(\<And>x. x \<in> set xs \<Longrightarrow> f x = g x) \<Longrightarrow> List.map_filter f xs = List.map_filter g xs"
  by (induction xs) (auto simp: List.map_filter_simps split: option.splits)

lemma release_rows_kept:
  assumes "docs_inv db" "docs_inv db'" "history_kept db db'" "rel_refs db" "rid \<in> r_id ` set (releases db)"
  shows "release_rows db' rid = release_rows db rid"
proof -
  have "filter (\<lambda>r. rd_release r = rid) (release_docs db') = filter (\<lambda>r. rd_release r = rid) (release_docs db)"
    using assms(3,5) appends_filter [of rd_release _ "release_docs db" "release_docs db'" rid "\<lambda>_. True"]
    by (auto simp: history_kept_def)
  then have "release_join db' rid = release_join db rid"
    unfolding release_join_def using assms(4) join_doc_kept [OF assms(1-3)]
    by (auto simp: rel_refs_def intro!: map_filter_cong)
  then show ?thesis by (simp add: release_rows_def)
qed

lemma find_release_iff:
  assumes "rel_refs db"
  shows "find_release db i = Some r \<longleftrightarrow> r \<in> set (releases db) \<and> r_id r = i"
proof
  assume "r \<in> set (releases db) \<and> r_id r = i"
  then show "find_release db i = Some r"
    unfolding find_release_def using assms distinct_map_unique [of r_id "releases db"]
    by (intro first_row_unique) (auto simp: rel_refs_def)
qed (auto simp: find_release_def dest: first_row_Some)

lemma find_release_kept:
  assumes "history_kept db db'" "find_release db i = Some r"
  shows "find_release db' i = Some r"
  using assms by (auto simp: history_kept_def appends_def find_release_def first_row_append)

section \<open>Invariant of the release tables\<close>

definition entry_of :: "rel_doc \<Rightarrow> rel_entry" where
  "entry_of d =
     \<lparr>re_path = rel_path d, re_sha = hex_encode (sha256 (rel_body d)), re_collection = rel_collection d,
      re_family = rel_family d, re_version = rel_version d, re_body = rel_body d\<rparr>"

definition entry_family :: "rel_entry \<Rightarrow> string \<times> string" where
  "entry_family e = (re_collection e, re_family e)"

definition entry_ok :: "rel_entry \<Rightarrow> bool" where
  "entry_ok e \<longleftrightarrow> re_sha e = hex_encode (sha256 (re_body e)) \<and> re_path e = doc_path (re_collection e) (re_family e)
     \<and> valid_ident (re_collection e) \<and> valid_ident (re_family e)"

definition release_ok :: "db \<Rightarrow> release_row \<Rightarrow> bool" where
  "release_ok db r \<longleftrightarrow>
     (let rows = release_rows db (r_id r) in
      rows \<noteq> [] \<and> rfc3339_ok (r_created r)
      \<and> r_hash r = content_hash (map (\<lambda>e. (re_path e, re_body e)) rows)
      \<and> (\<forall>e \<in> set rows. entry_ok e) \<and> distinct (map entry_family rows))"

definition releases_inv :: "db \<Rightarrow> bool" where
  "releases_inv db \<longleftrightarrow> rel_refs db \<and> (\<forall>r \<in> set (releases db). release_ok db r)"

lemma releases_inv_initial: "releases_inv initial_db"
  by (simp add: releases_inv_def rel_refs_def initial_db_def)

lemma releases_inv_refs: "releases_inv db \<Longrightarrow> rel_refs db"
  by (simp add: releases_inv_def)

text \<open>An operation that adds no release keeps the invariant.\<close>

lemma releases_inv_kept:
  assumes "releases_inv db" "docs_inv db" "docs_inv db'" "history_kept db db'"
    and same: "releases db' = releases db" "release_docs db' = release_docs db"
  shows "releases_inv db'"
proof -
  have "rel_refs db'"
  proof -
    have "d_id ` set (doc_versions db) \<subseteq> d_id ` set (doc_versions db')"
      using assms(4) by (auto simp: history_kept_def dest: grows_ids)
    with assms(1) show ?thesis by (auto simp: releases_inv_def rel_refs_def same)
  qed
  moreover have "release_ok db' r" if "r \<in> set (releases db)" for r
    using assms(1) that release_rows_kept [OF assms(2,3,4) releases_inv_refs [OF assms(1)], of "r_id r"]
    by (simp add: releases_inv_def release_ok_def)
  ultimately show ?thesis by (simp add: releases_inv_def same)
qed

section \<open>The rows of a cut\<close>

lemma cut_db_sel [simp]:
  "collections (cut_db db created editor at) = collections db"
  "doc_versions (cut_db db created editor at) = doc_versions db"
  "doc_links (cut_db db created editor at) = doc_links db"
  "heartbeats (cut_db db created editor at) = heartbeats db"
  "resync_requests (cut_db db created editor at) = resync_requests db"
  "host_tokens (cut_db db created editor at) = host_tokens db"
  "conflicts (cut_db db created editor at) =
     cleared_conflicts (next_id (map r_id (releases db))) (candidate_docs db) editor at (conflicts db)"
  "releases (cut_db db created editor at) = releases db @
     [\<lparr>r_id = next_id (map r_id (releases db)), r_hash = m_hash (candidate_manifest (candidate_docs db) created),
       r_created = created\<rparr>]"
  "release_docs (cut_db db created editor at) = release_docs db @
     map (release_doc_row_of (next_id (map r_id (releases db)))) (candidate_docs db)"
  by (simp_all add: cut_db_def Let_def)

lemma docs_inv_doc_tables:
  "collections db' = collections db \<Longrightarrow> doc_versions db' = doc_versions db \<Longrightarrow> doc_links db' = doc_links db
   \<Longrightarrow> docs_inv db' = docs_inv db"
  by (simp add: docs_inv_def doc_row_ok_def links_inv_def)

lemma docs_inv_cut [simp]: "docs_inv (cut_db db created editor at) = docs_inv db"
  by (rule docs_inv_doc_tables) simp_all

lemma join_doc_candidate:
  assumes "docs_inv db" "doc_versions db' = doc_versions db" "d \<in> set (candidate_docs db)"
  shows "join_doc db' (release_doc_row_of rid d) = Some (entry_of d)"
proof -
  obtain row where row: "row \<in> set (doc_versions db)" "d = rel_doc_of row"
    using candidate_docs_mem(6) [OF assms(1,3)] by blast
  then show ?thesis
    using first_row_id [OF assms(1) row(1)] assms(2) by (simp add: join_doc_def entry_of_def)
qed

lemma map_filter_all:
  "(\<And>x. x \<in> set xs \<Longrightarrow> f (h x) = Some (g x)) \<Longrightarrow> List.map_filter f (map h xs) = map g xs"
  by (induction xs) (auto simp: List.map_filter_simps)

lemma entry_family_of [simp]: "entry_family (entry_of (rel_doc_of d)) = doc_family d"
  by (simp add: entry_family_def entry_of_def doc_family_def)

lemma candidate_families: "map (entry_family \<circ> entry_of) (candidate_docs db) = map doc_family (candidate_rows db)"
  by (simp add: candidate_docs_def o_def)

lemma candidate_families_distinct:
  assumes "docs_inv db"
  shows "distinct (map doc_family (candidate_rows db))"
proof -
  have "inj_on doc_family (set (candidate_rows db))"
    using assms by (auto simp: candidate_rows_set inj_on_def docs_inv_def one_active_def)
  moreover have "distinct (candidate_rows db)"
    using candidate_rows_ids [OF assms] by (simp add: distinct_map)
  ultimately show ?thesis by (simp add: distinct_map)
qed

lemma release_rows_cut:
  assumes "docs_inv db" "rel_refs db"
  shows "release_rows (cut_db db created editor at) (next_id (map r_id (releases db))) = map entry_of (candidate_docs db)"
proof -
  let ?db' = "cut_db db created editor at" and ?rid = "next_id (map r_id (releases db))"
  have "filter (\<lambda>r. rd_release r = ?rid) (release_docs db) = []"
    using assms(2) unfolding rel_refs_def filter_empty_conv by (metis next_id_notin_image)
  then have "release_join ?db' ?rid = List.map_filter (join_doc ?db') (map (release_doc_row_of ?rid) (candidate_docs db))"
    by (simp add: release_join_def filter_map o_def)
  also have "\<dots> = map entry_of (candidate_docs db)"
    by (rule map_filter_all) (rule join_doc_candidate [OF assms(1)], simp_all)
  finally have join: "release_join ?db' ?rid = map entry_of (candidate_docs db)" .
  have "sorted (map doc_family (candidate_rows db))" by (simp add: candidate_rows_def)
  then have "sorted (map entry_family (map entry_of (candidate_docs db)))"
    by (simp add: candidate_families [symmetric])
  then show ?thesis
    unfolding release_rows_def join entry_family_def [symmetric, abs_def] by (rule sort_key_id_if_sorted)
qed

lemma history_cut:
  assumes "rel_refs db"
  shows "history_kept db (cut_db db created editor at)"
  unfolding history_kept_def
  by (auto simp: grows_refl appends_def cleared_conflicts_def conflict_step_def resolve_row_def conflict_slot_def
        intro!: grows_map [where zs = "[]", simplified])

lemma conflicts_inv_cut:
  assumes "conflicts_inv db"
  shows "conflicts_inv (cut_db db created editor at)"
  using resolve_rows_ok(1) [OF assms, of "\<lambda>_. cleared_by (next_id (map r_id (releases db)))" "\<lambda>x. x_kind x = ''policy''"
    editor at "policy_winner (candidate_docs db)"]
  by (simp add: conflicts_inv_def cleared_conflicts_def cleared_by_def)

lemma release_ok_cut:
  assumes "docs_inv db" "rel_refs db" "candidate_docs db \<noteq> []" "rfc3339_ok created"
  shows "release_ok (cut_db db created editor at)
     \<lparr>r_id = next_id (map r_id (releases db)), r_hash = m_hash (candidate_manifest (candidate_docs db) created),
      r_created = created\<rparr>"
proof -
  have "entry_ok (entry_of d)" if "d \<in> set (candidate_docs db)" for d
    using candidate_docs_mem(1,2,4) [OF assms(1) that] by (simp add: entry_ok_def entry_of_def)
  moreover have "map entry_family (map entry_of (candidate_docs db)) = map doc_family (candidate_rows db)"
    using candidate_families by simp
  ultimately show ?thesis
    using assms(3,4) candidate_families_distinct [OF assms(1)]
    by (simp add: release_ok_def Let_def release_rows_cut [OF assms(1,2)] candidate_manifest_hash entry_of_def o_def)
qed

lemma releases_inv_cut:
  assumes "docs_inv db" "releases_inv db" "candidate_docs db \<noteq> []" "rfc3339_ok created"
  shows "releases_inv (cut_db db created editor at)"
proof -
  let ?db' = "cut_db db created editor at"
  have refs: "rel_refs db" using assms(2) by (rule releases_inv_refs)
  have "rd_doc r \<in> d_id ` set (doc_versions db)" if "r \<in> set (map (release_doc_row_of rid) (candidate_docs db))" for r rid
    using that by (auto simp: candidate_docs_def candidate_rows_set)
  then have "rel_refs ?db'" using refs by (auto simp: rel_refs_def)
  moreover have "release_ok ?db' r" if "r \<in> set (releases db)" for r
    using assms(2) that release_rows_kept [OF assms(1) _ history_cut [OF refs] refs] assms(1)
    by (simp add: releases_inv_def release_ok_def)
  ultimately show ?thesis
    using release_ok_cut [OF assms(1) refs assms(3,4)] by (simp add: releases_inv_def)
qed

section \<open>Reading back\<close>

definition stored_manifest :: "db \<Rightarrow> release_row \<Rightarrow> manifest" where
  "stored_manifest db r =
     (let rows = release_rows db (r_id r) in
      \<lparr>m_release = r_id r, m_hash = r_hash r, m_created = r_created r,
       m_docs = (if rows = [] then None else Some (map entry_doc rows)), m_resync = False\<rparr>)"

lemma wp_read_manifest:
  assumes "\<not> busy s"
  shows "wp (read_manifest sel)
     (\<lambda>x s'. committed s' = committed s \<and> \<not> busy s'
        \<and> (faulty e \<and> (\<exists>m. x = Opaque m) \<or> x = Sentinel ErrNotFound \<and> sel (committed s) = None))
     (\<lambda>m s'. committed s' = committed s \<and> \<not> busy s'
        \<and> (\<exists>r. sel (committed s) = Some r \<and> m = stored_manifest (committed s) r)) e s"
  unfolding read_manifest_def
  by (intro wp_bindT wp_db_query wp_case_option wp_fail wp_ret) (auto simp: assms stored_manifest_def Let_def)

lemma current_release_cut:
  assumes "rel_refs db"
  shows "current_release (cut_db db created editor at) =
     Some \<lparr>r_id = next_id (map r_id (releases db)), r_hash = m_hash (candidate_manifest (candidate_docs db) created),
           r_created = created\<rparr>"
proof -
  let ?rid = "next_id (map r_id (releases db))"
  have "sql_max (map r_id (releases db) @ [?rid]) = Some ?rid"
    using sql_max_in [of "map r_id (releases db)"] next_id_fresh [of _ "map r_id (releases db)"]
    by (fastforce simp: sql_max_append max_def split: option.splits)
  moreover have "first_row (\<lambda>r. r_id r = ?rid) (releases db) = None"
    using next_id_fresh_map [of _ "releases db" r_id] by fastforce
  then have "first_row (\<lambda>r. r_id r = ?rid) (releases db @ [r]) = Some r" if "r_id r = ?rid" for r
    using that by (simp only: first_row_append option.case) (simp add: first_row_def)
  ultimately show ?thesis
    by (simp add: current_release_def find_release_def)
qed

text \<open>The manifest read back is the manifest the cut returned.\<close>

lemma stored_manifest_cut:
  assumes "docs_inv db" "rel_refs db" "candidate_docs db \<noteq> []"
  shows "stored_manifest (cut_db db created editor at)
       \<lparr>r_id = next_id (map r_id (releases db)), r_hash = m_hash (candidate_manifest (candidate_docs db) created),
        r_created = created\<rparr>
     = (candidate_manifest (candidate_docs db) created)\<lparr>m_release := next_id (map r_id (releases db))\<rparr>"
  using assms(3)
  by (simp add: stored_manifest_def Let_def release_rows_cut [OF assms(1,2)] candidate_manifest_def
      entry_doc_def entry_of_def manifest_doc_of_def o_def)

lemma stored_manifest_kept:
  assumes "docs_inv db" "docs_inv db'" "history_kept db db'" "rel_refs db" "r \<in> set (releases db)"
  shows "stored_manifest db' r = stored_manifest db r"
  using release_rows_kept [OF assms(1-4), of "r_id r"] assms(5) by (simp add: stored_manifest_def)

section \<open>The archive\<close>

lemma ident_no_slash: "valid_ident c \<Longrightarrow> CHR ''/'' \<notin> set c"
  by (auto simp: valid_ident_def)

lemma doc_path_inj:
  assumes "valid_ident c" "valid_ident c'" "doc_path c f = doc_path c' f'"
  shows "c = c' \<and> f = f'"
proof -
  have "split_first (CHR ''/'') (doc_path c f) = c" "split_first (CHR ''/'') (doc_path c' f') = c'"
    using assms(1,2) by (simp_all add: doc_path_def split_first_append ident_no_slash)
  then have "c = c'" using assms(3) by metis
  then show ?thesis using assms(3) by (simp add: doc_path_def)
qed

lemma entry_path_inj: "entry_ok x \<Longrightarrow> entry_ok y \<Longrightarrow> re_path x = re_path y \<Longrightarrow> entry_family x = entry_family y"
  using doc_path_inj [of "re_collection x" "re_collection y" "re_family x" "re_family y"]
  by (simp add: entry_ok_def entry_family_def)

lemma entry_paths_distinct:
  assumes "\<forall>x \<in> set xs. entry_ok x" "distinct (map entry_family xs)"
  shows "distinct (map re_path xs)"
proof -
  have "inj_on re_path (set xs)"
  proof (rule inj_onI)
    fix x y assume xy: "x \<in> set xs" "y \<in> set xs" "re_path x = re_path y"
    then have "entry_family x = entry_family y" using assms(1) entry_path_inj by blast
    then show "x = y" using assms(2) xy by (auto dest: distinct_map_unique)
  qed
  then show ?thesis using assms(2) by (simp add: distinct_map)
qed

lemma release_rows_set: "set (release_rows db rid) = set (release_join db rid)"
  by (simp add: release_rows_def)

lemma body_query_row:
  assumes "release_ok db r" "e \<in> set (release_rows db (r_id r))"
  shows "body_query (r_id r) (re_path e) db = Some (re_body e)"
proof -
  have "e' = e" if "e' \<in> set (release_rows db (r_id r))" "re_path e' = re_path e" for e'
  proof -
    have "entry_family e' = entry_family e"
      using assms that by (intro entry_path_inj) (auto simp: release_ok_def Let_def)
    then show ?thesis
      using assms that(1) distinct_map_unique [of entry_family "release_rows db (r_id r)" e' e]
      by (simp add: release_ok_def Let_def)
  qed
  then have "first_row (\<lambda>w. re_path w = re_path e) (release_join db (r_id r)) = Some e"
    using assms(2) by (intro first_row_unique) (auto simp: release_rows_set)
  then show ?thesis by (simp add: body_query_def)
qed

definition tar_of :: "rel_entry \<Rightarrow> tar_entry" where
  "tar_of e = \<lparr>te_name = re_path e, te_body = re_body e\<rparr>"

lemma wp_out_write: "\<not> busy s \<Longrightarrow> (\<And>m. faulty e \<Longrightarrow> E (Opaque m) (tick s)) \<Longrightarrow> N () (tick s) \<Longrightarrow> wp out_write E N e s"
  by (auto simp: wp_def out_write_def driver_def faulty_def split: option.splits)

lemma wp_write_entries:
  fixes s :: "db sess"
  assumes "\<not> busy s" "committed s = db" "\<forall>x \<in> set es. body_query i (re_path x) db = Some (re_body x)"
  shows "wp (write_entries i (map entry_doc es) acc) (\<lambda>_ _. False)
     (\<lambda>(out, err) s'. committed s' = db \<and> \<not> busy s'
        \<and> (err = None \<and> out = acc @ map tar_of es
           \<or> faulty e \<and> (\<exists>m. err = Some (Opaque m)) \<and> (\<exists>k. out = acc @ map tar_of (take k es)))) e s"
  using assms
proof (induction es arbitrary: acc s)
  case Nil
  then show ?case by (auto intro!: wp_tryT wp_out_write wp_ret)
next
  case (Cons x es)
  have stop: "\<exists>k. acc = acc @ map tar_of (take k (x # es))" by (rule exI [of _ 0]) simp
  have rest: "wp (write_entries i (map entry_doc es) (acc @ [tar_of x])) (\<lambda>_ _. False)
     (\<lambda>(out, err) s'. committed s' = db \<and> \<not> busy s'
        \<and> (err = None \<and> out = acc @ map tar_of (x # es)
           \<or> faulty e \<and> (\<exists>m. err = Some (Opaque m)) \<and> (\<exists>k. out = acc @ map tar_of (take k (x # es))))) e s1"
    if "\<not> busy s1" "committed s1 = db" for s1
  proof -
    have "\<exists>k. acc @ tar_of x # map tar_of (take j es) = acc @ map tar_of (take k (x # es))" for j
      by (rule exI [of _ "Suc j"]) simp
    then show ?thesis
      using that Cons.prems(3) by (auto intro!: wp_conseq [OF Cons.IH [of s1 "acc @ [tar_of x]"]])
  qed
  have entry: "\<lparr>te_name = re_path x, te_body = re_body x\<rparr> = tar_of x"
    by (simp add: tar_of_def)
  show ?case
    unfolding list.map write_entries.simps
    apply (intro wp_tryT wp_db_query)
    using Cons.prems stop
    by (auto simp: entry entry_doc_def intro!: wp_tryT wp_bindT wp_out_write wp_ret wp_conseq [OF rest])
qed

lemma wp_WriteArchive:
  fixes s :: "db sess"
  assumes busy: "\<not> busy s" and inv: "releases_inv (committed s)"
  shows "wp (WriteArchive i) (\<lambda>_ _. False)
     (\<lambda>(out, err) s'. committed s' = committed s \<and> \<not> busy s'
        \<and> (case find_release (committed s) i of
             None \<Rightarrow> out = [] \<and> (err = Some (Sentinel ErrNotFound) \<or> faulty e \<and> (\<exists>m. err = Some (Opaque m)))
           | Some r \<Rightarrow>
               err = None \<and> out = map tar_of (release_rows (committed s) i)
               \<or> faulty e \<and> (\<exists>m. err = Some (Opaque m))
                 \<and> (\<exists>k. out = map tar_of (take k (release_rows (committed s) i))))) e s"
proof -
  have entries: "rfc3339_ok (m_created (stored_manifest (committed s) r))"
    "wp (write_entries i (elems (m_docs (stored_manifest (committed s) r))) []) (\<lambda>_ _. False)
     (\<lambda>(out, err) s'. committed s' = committed s \<and> \<not> busy s'
        \<and> (err = None \<and> out = map tar_of (release_rows (committed s) i)
               \<or> faulty e \<and> (\<exists>m. err = Some (Opaque m))
                 \<and> (\<exists>k. out = map tar_of (take k (release_rows (committed s) i))))) e s1"
    if "find_release (committed s) i = Some r" "committed s1 = committed s" "\<not> busy s1" for r s1
  proof -
    have r: "r \<in> set (releases (committed s))" "r_id r = i"
      using that(1) find_release_iff [OF releases_inv_refs [OF inv]] by auto
    then have ok: "release_ok (committed s) r" using inv by (simp add: releases_inv_def)
    then have m: "elems (m_docs (stored_manifest (committed s) r)) = map entry_doc (release_rows (committed s) i)"
      using r(2) by (simp add: stored_manifest_def Let_def)
    show "rfc3339_ok (m_created (stored_manifest (committed s) r))"
      using ok by (simp add: stored_manifest_def Let_def release_ok_def)
    show "wp (write_entries i (elems (m_docs (stored_manifest (committed s) r))) []) (\<lambda>_ _. False)
     (\<lambda>(out, err) s'. committed s' = committed s \<and> \<not> busy s'
        \<and> (err = None \<and> out = map tar_of (release_rows (committed s) i)
               \<or> faulty e \<and> (\<exists>m. err = Some (Opaque m))
                 \<and> (\<exists>k. out = map tar_of (take k (release_rows (committed s) i))))) e s1"
      unfolding m using body_query_row [OF ok] r(2) that(2,3)
      by (intro wp_conseq [OF wp_write_entries [where db = "committed s"]]) auto
  qed
  have stop: "\<exists>k. [] = map tar_of (take k xs)" for xs by (rule exI [of _ 0]) simp
  show ?thesis
    unfolding WriteArchive_def Release_def
    by (intro wp_tryT wp_conseq [OF wp_read_manifest [OF busy]])
       (auto intro!: wp_ret wp_conseq [OF entries(2)] stop simp: entries(1) split: option.splits)
qed

end
