(* ===== verification/ReleaseProps.thy ===== *)
theory ReleaseProps
  imports ReleaseFacts
begin

text \<open>
  The properties of releases: a cut is all or nothing, publishes exactly what was
  previewed, obeys the lints, clears the policy conflicts, and what it published never
  changes afterwards.
\<close>

section \<open>Shared facts\<close>

definition clock_rfc3339 :: "env \<Rightarrow> bool" where
  "clock_rfc3339 e \<longleftrightarrow> (\<forall>n. rfc3339_ok (clock_at e n))"

lemma calm_clock: "rfc3339_ok t \<Longrightarrow> clock_rfc3339 (calm t bs)"
  by (simp add: clock_rfc3339_def calm_def)

definition store_inv :: "db \<Rightarrow> bool" where
  "store_inv db \<longleftrightarrow> docs_inv db \<and> conflicts_inv db \<and> releases_inv db"

lemma store_invD: "store_inv db \<Longrightarrow> docs_inv db" "store_inv db \<Longrightarrow> conflicts_inv db"
    "store_inv db \<Longrightarrow> releases_inv db" "store_inv db \<Longrightarrow> rel_refs db"
  by (simp_all add: store_inv_def releases_inv_def)

lemma store_inv_initial: "store_inv initial_db"
  by (simp add: store_inv_def docs_inv_initial conflicts_inv_initial releases_inv_initial)

lemma recorded_policy_tables:
  assumes "recorded_policy c f v editor reason at db = (i, db')"
  shows "releases db' = releases db" "release_docs db' = release_docs db"
    "collections db' = collections db" "doc_versions db' = doc_versions db" "doc_links db' = doc_links db"
  using assms by (auto simp: recorded_policy_def recorded_def Let_def split: option.splits prod.splits)

lemma lint_idents:
  assumes "docs_inv db" "candidate_error db = Some (LintError c f v reason)"
  shows "valid_ident c" "valid_ident f"
  using candidate_error_form [OF assms] candidate_docs_mem(1,2) [OF assms(1)] by (auto simp: empty_release_def)

lemma cut_effect_inv:
  assumes inv: "store_inv db" and clock: "clock_rfc3339 e" and eff: "cut_effect e expected editor db r db'"
  shows "store_inv db'" "history_kept db db'"
proof -
  note i = store_invD [OF inv]
  have "store_inv db' \<and> history_kept db db'"
    using eff
  proof cases
    case (cut m n at)
    then show ?thesis
      using i clock history_cut [OF i(4)] conflicts_inv_cut [OF i(2)] releases_inv_cut [OF i(1,3)]
      by (simp add: store_inv_def clock_rfc3339_def)
  next
    case (linted c f v reason at j)
    note t = recorded_policy_tables [OF linted(3)]
    have db': "db' = snd (recorded_policy c f v editor reason at db)" using linted(3) by simp
    have h: "history_kept db db'" "conflicts_inv db'"
      using recorded_policy_inv [OF i(2) lint_idents [OF i(1) linted(2)]] unfolding db' by blast+
    moreover have d: "docs_inv db'" using i(1) docs_inv_doc_tables [OF t(3-5)] by simp
    ultimately show ?thesis
      using releases_inv_kept [OF i(3,1) d h(1) t(1,2)] by (simp add: store_inv_def)
  qed
  then show "store_inv db'" "history_kept db db'" by auto
qed

lemma CutRelease_run:
  assumes "\<not> busy s" "store_inv (committed s)" "CutRelease expected editor e s = (r, s')"
  shows "\<not> busy s'"
    "committed s' = committed s \<and> (\<exists>x. r = Inl x
           \<and> (faulty e \<and> (\<exists>m. x = Opaque m) \<or> x = empty_release \<and> candidate_error (committed s) = Some x
              \<or> candidate_error (committed s) = None \<and> expected \<noteq> [] \<and> x = err_conflict ''release candidate changed''
                \<and> (\<forall>created. m_hash (candidate_manifest (candidate_docs (committed s)) created) \<noteq> expected)))
     \<or> cut_effect e expected editor (committed s) r (committed s')"
  using wp_CutRelease [OF assms(1) store_invD(1,2,4) [OF assms(2)], of expected editor e] assms(3)
  by (auto simp: wp_def split: sum.splits)

lemma CutRelease_ok:
  assumes "\<not> busy s" "store_inv (committed s)" "CutRelease expected editor e s = (Inr m, s')"
  obtains n at where "candidate_error (committed s) = None" "candidate_docs (committed s) \<noteq> []"
    "m = (candidate_manifest (candidate_docs (committed s)) (clock_at e n))\<lparr>m_release := next_id (map r_id (releases (committed s)))\<rparr>"
    "expected = [] \<or> m_hash m = expected" "committed s' = cut_db (committed s) (clock_at e n) editor at"
  using CutRelease_run(2) [OF assms] by (auto elim!: cut_effect_okE)

lemma CutRelease_succeeds:
  assumes "\<not> busy s" "store_inv (committed s)" "\<not> faulty e" "candidate_error (committed s) = None"
    and "expected = [] \<or> expected = m_hash (candidate_manifest (candidate_docs (committed s)) created)"
  obtains m s' where "CutRelease expected editor e s = (Inr m, s')"
proof -
  obtain r s' where run: "CutRelease expected editor e s = (r, s')" by (cases "CutRelease expected editor e s")
  have "\<exists>m. r = Inr m"
    using CutRelease_run(2) [OF assms(1,2) run] assms(3-5)
    by (cases r) (auto simp: candidate_manifest_hash elim: cut_effect_errE)
  with run that show thesis by auto
qed

lemma CutRelease_keeps:
  assumes "\<not> busy s" "store_inv (committed s)" "clock_rfc3339 e" "CutRelease expected editor e s = (r, s')"
  shows "\<not> busy s'" "store_inv (committed s')" "history_kept (committed s) (committed s')"
  using CutRelease_run [OF assms(1,2,4)] cut_effect_inv [OF assms(2,3)] assms(2) by auto

lemma CutRelease_refused:
  assumes "\<not> busy s" "store_inv (committed s)" "\<not> faulty e" "candidate_error (committed s) = None"
    and "h \<noteq> []" "h \<noteq> m_hash (candidate_manifest (candidate_docs (committed s)) created)"
  obtains s' where "CutRelease h editor e s = (Inl (err_conflict ''release candidate changed''), s')"
    "committed s' = committed s"
proof -
  obtain r s' where run: "CutRelease h editor e s = (r, s')" by (cases "CutRelease h editor e s")
  have "\<not> cut_effect e h editor (committed s) r (committed s')"
    using assms(4-6) by (auto elim!: cut_effect.cases simp: candidate_manifest_hash)
  then show thesis
    using CutRelease_run(2) [OF assms(1,2) run] assms(3,4) run that by auto
qed

text \<open>A store with one document that can be released.\<close>

definition plain_save :: doc_save where
  "plain_save = (sample_save None)\<lparr>s_links := None\<rparr>"

definition plain_db :: db where
  "plain_db = saved_db initial_db ''kernel'' ''base'' plain_save ''2024-01-01T00:00:00Z''"

lemma plain_save_checks: "save_checks ''kernel'' ''base'' plain_save = None" "save_guard initial_db ''kernel'' ''base'' plain_save = None"
  by code_simp+

lemma plain_db_inv: "store_inv plain_db"
proof -
  have d: "docs_inv plain_db"
    using plain_save_checks by (simp add: plain_db_def docs_inv_saved docs_inv_initial save_checks_None)
  have h: "history_kept initial_db plain_db"
    using plain_save_checks by (simp add: plain_db_def history_saved_db docs_inv_initial save_checks_None)
  have "releases_inv plain_db"
    by (rule releases_inv_kept [OF releases_inv_initial docs_inv_initial d h]) (simp_all add: plain_db_def)
  then show ?thesis using d by (simp add: store_inv_def) (simp add: plain_db_def conflicts_inv_initial)
qed

lemma plain_docs:
  "map (\<lambda>d. (rel_collection d, rel_body d)) (candidate_docs plain_db) = [(''kernel'', ''text'')]"
  "length (doc_links plain_db) = 0"
  by code_simp+

lemma plain_words: "GoRunes.fields ''text'' = [''text'']"
  by (rule fields_word) (simp add: is_word_def)

lemma plain_candidate: "candidate_docs plain_db \<noteq> []" "candidate_error plain_db = None"
proof -
  show ne: "candidate_docs plain_db \<noteq> []" using plain_docs(1) by auto
  have "kernel_lint d = None \<and> doc_lint plain_db d = None" if "d \<in> set (candidate_docs plain_db)" for d
  proof -
    have "(rel_collection d, rel_body d) \<in> set [(''kernel'', ''text'')]"
      unfolding plain_docs(1) [symmetric] using that by auto
    then show ?thesis using plain_docs(2) plain_words
      by (simp add: kernel_lint_def KernelByteCap_def KernelWordCap_def doc_lint_def joined_links_def doc_link_rows_def)
  qed
  then have "first_error kernel_lint (candidate_docs plain_db) = None"
    "first_error (doc_lint plain_db) (candidate_docs plain_db) = None" by (simp_all add: first_error_None)
  with ne show "candidate_error plain_db = None" by (simp add: candidate_error_def)
qed

lemma plain_cut:
  obtains m s' where "CutRelease [] ''ann'' (calm ''2024-01-01T00:00:00Z'' []) (idle plain_db 0) = (Inr m, s')"
    "\<not> busy s'" "store_inv (committed s')"
    "release_rows (committed s') (m_release m) = map entry_of (candidate_docs plain_db)"
    "find_release (committed s') (m_release m) \<noteq> None"
proof -
  obtain m s' where run: "CutRelease [] ''ann'' (calm ''2024-01-01T00:00:00Z'' []) (idle plain_db 0) = (Inr m, s')"
    using CutRelease_succeeds [of "idle plain_db 0" "calm ''2024-01-01T00:00:00Z'' []" "[]"] plain_db_inv plain_candidate(2)
    by auto
  note i = store_invD [OF plain_db_inv]
  have idle: "\<not> busy (idle plain_db 0)" "store_inv (committed (idle plain_db 0))" using plain_db_inv by simp_all
  obtain n at where c: "m_release m = next_id (map r_id (releases plain_db))"
    "committed s' = cut_db plain_db (clock_at (calm ''2024-01-01T00:00:00Z'' []) n) ''ann'' at"
    by (rule CutRelease_ok [OF idle run]) simp
  have "release_rows (committed s') (m_release m) = map entry_of (candidate_docs plain_db)"
    unfolding c by (rule release_rows_cut [OF i(1,4)])
  moreover have "find_release (committed s') (m_release m) \<noteq> None"
    unfolding c by (simp add: find_release_def)
  moreover have "\<not> busy s'" "store_inv (committed s')"
    using CutRelease_keeps [OF _ _ _ run] plain_db_inv calm_clock [OF rfc3339_example] by auto
  ultimately show thesis using run that by blast
qed

lemma sample_clock: "clock_rfc3339 (calm ''2024-01-01T00:00:00Z'' bs)"
  by (rule calm_clock) (rule rfc3339_example)

section \<open>Cutting\<close>

text \<open>C17: A cut is all or nothing.  Whatever fails and wherever, \<open>CutRelease\<close> returns with the
  connection free; on a returned manifest the database holds exactly the release, its document rows and
  the cleared policy conflicts; on an error it is as it was, or holds exactly the record of the lint that
  the error reports.  In every case the invariants of the store hold and nothing stored before is lost or
  rewritten.\<close>

theorem CutRelease_atomic:
  assumes "\<not> busy s" "store_inv (committed s)" "clock_rfc3339 e"
    and "CutRelease expected editor e s = (r, s')"
  shows "\<not> busy s' \<and> store_inv (committed s') \<and> history_kept (committed s) (committed s') \<and>
    (committed s' = committed s \<and> (\<exists>x. r = Inl x) \<or> cut_effect e expected editor (committed s) r (committed s'))"
  using CutRelease_run(2) [OF assms(1,2,4)] CutRelease_keeps [OF assms] by auto

theorem CutRelease_atomic_witness:
  "store_inv (committed (snd (CutRelease [] ''ann'' (calm ''2024-01-01T00:00:00Z'' []) (idle plain_db 0))))"
proof -
  obtain r s' where run: "CutRelease [] ''ann'' (calm ''2024-01-01T00:00:00Z'' []) (idle plain_db 0) = (r, s')"
    by (cases "CutRelease [] ''ann'' (calm ''2024-01-01T00:00:00Z'' []) (idle plain_db 0)")
  then show ?thesis
    using CutRelease_atomic [OF _ _ sample_clock run] plain_db_inv by simp
qed

text \<open>C3: Preview and cut agree.  The hash a preview showed can be given to the cut: without a
  failure of the database the cut succeeds and publishes the documents and the hash of the preview.  Any
  other non-empty hash is refused as a conflict and changes nothing.\<close>

theorem Preview_Cut_agree:
  assumes inv: "\<not> busy s" "store_inv (committed s)" "\<not> faulty e'"
    and preview: "PreviewRelease e s = (Inr m, s1)"
  shows "(\<exists>m' s2. CutRelease (m_hash m) editor e' s1 = (Inr m', s2) \<and> m_hash m' = m_hash m \<and> m_docs m' = m_docs m)
    \<and> (\<forall>h. h \<noteq> [] \<longrightarrow> h \<noteq> m_hash m \<longrightarrow>
         (\<exists>s2. CutRelease h editor e' s1 = (Inl (err_conflict ''release candidate changed''), s2)
            \<and> committed s2 = committed s))"
proof -
  from wp_PreviewRelease [OF inv(1), of e] preview
  have s1: "committed s1 = committed s" "\<not> busy s1" and ok: "candidate_error (committed s1) = None"
    and "\<exists>created. m = candidate_manifest (candidate_docs (committed s1)) created"
    by (auto simp: wp_def)
  then obtain created where m: "m = candidate_manifest (candidate_docs (committed s1)) created" by blast
  have inv1: "store_inv (committed s1)" using inv(2) s1(1) by simp
  obtain m' s2 where cut: "CutRelease (m_hash m) editor e' s1 = (Inr m', s2)"
    using CutRelease_succeeds [OF s1(2) inv1 inv(3) ok, of "m_hash m" created] m by blast
  have "m_hash m' = m_hash m \<and> m_docs m' = m_docs m"
    by (rule CutRelease_ok [OF s1(2) inv1 cut]) (simp add: m candidate_manifest_def)
  moreover have "\<exists>s2. CutRelease h editor e' s1 = (Inl (err_conflict ''release candidate changed''), s2)
            \<and> committed s2 = committed s" if h: "h \<noteq> []" "h \<noteq> m_hash m" for h
    by (rule CutRelease_refused [OF s1(2) inv1 inv(3) ok h(1), of created editor]) (use h(2) m s1(1) in auto)
  ultimately show ?thesis using cut by blast
qed

theorem Preview_Cut_agree_witness:
  "\<exists>m s1 m' s2. PreviewRelease (calm ''2024-01-01T00:00:00Z'' []) (idle plain_db 0) = (Inr m, s1)
     \<and> CutRelease (m_hash m) ''ann'' (calm ''2024-01-02T00:00:00Z'' []) s1 = (Inr m', s2) \<and> m_hash m' = m_hash m"
proof -
  obtain r s1 where run: "PreviewRelease (calm ''2024-01-01T00:00:00Z'' []) (idle plain_db 0) = (r, s1)"
    by (cases "PreviewRelease (calm ''2024-01-01T00:00:00Z'' []) (idle plain_db 0)")
  moreover obtain m where "r = Inr m"
    using wp_PreviewRelease [of "idle plain_db 0" "calm ''2024-01-01T00:00:00Z'' []"] run plain_candidate(2)
    by (cases r) (auto simp: wp_def)
  ultimately show ?thesis
    using Preview_Cut_agree [of "idle plain_db 0" "calm ''2024-01-02T00:00:00Z'' []" _ m s1 "''ann''"] plain_db_inv
    by (metis calm_not_faulty idle_sel(1,2))
qed

section \<open>What was published stays\<close>

lemma Release_calm:
  assumes "\<not> busy s" "\<not> faulty e" "find_release (committed s) i = Some r"
  shows "fst (Release i e s) = Inr (stored_manifest (committed s) r)"
  using wp_read_manifest [OF assms(1), of "\<lambda>db. find_release db i" e] assms(2,3)
  by (auto simp: Release_def wp_def split: prod.splits sum.splits)

lemma WriteArchive_calm:
  assumes "\<not> busy s" "releases_inv (committed s)" "\<not> faulty e" "find_release (committed s) i = Some r"
  shows "fst (WriteArchive i e s) = Inr (map tar_of (release_rows (committed s) i), None)"
  using wp_WriteArchive [OF assms(1,2), of i e] assms(3,4)
  by (cases "fst (WriteArchive i e s)") (auto simp: wp_def split: prod.splits)

lemma CurrentRelease_calm:
  assumes "\<not> busy s" "\<not> faulty e" "current_release (committed s) = Some r"
  shows "fst (CurrentRelease e s) = Inr (stored_manifest (committed s) r)"
  using wp_read_manifest [OF assms(1), of current_release e] assms(2,3)
  by (auto simp: CurrentRelease_def wp_def split: prod.splits sum.splits)

text \<open>C20: A cut is published.  After a successful cut the current release read back is, field for field,
  the manifest the cut returned, and in every later state that keeps the history the release with that
  number still has this manifest.\<close>

theorem CutRelease_published:
  assumes inv: "\<not> busy s" "store_inv (committed s)" "clock_rfc3339 e"
    and cut: "CutRelease expected editor e s = (Inr m, s')"
    and later: "\<not> busy t" "history_kept (committed s') (committed t)" "docs_inv (committed t)"
    and calm: "\<not> faulty e'" "\<not> faulty e''"
  shows "fst (CurrentRelease e' s') = Inr m
    \<and> fst (Release (m_release m) e'' t) = Inr m"
proof (intro conjI)
  obtain n at where c: "candidate_docs (committed s) \<noteq> []"
    "m = (candidate_manifest (candidate_docs (committed s)) (clock_at e n))\<lparr>m_release := next_id (map r_id (releases (committed s)))\<rparr>"
    "committed s' = cut_db (committed s) (clock_at e n) editor at"
    by (rule CutRelease_ok [OF inv(1,2) cut])
  let ?r = "\<lparr>r_id = next_id (map r_id (releases (committed s))),
    r_hash = m_hash (candidate_manifest (candidate_docs (committed s)) (clock_at e n)), r_created = clock_at e n\<rparr>"
  note i = store_invD [OF inv(2)]
  have busy': "\<not> busy s'" and inv': "store_inv (committed s')"
    using CutRelease_keeps [OF inv cut] by auto
  note i' = store_invD [OF inv']
  have m: "stored_manifest (committed s') ?r = m"
    unfolding c(2,3) by (rule stored_manifest_cut [OF i(1,4) c(1)])
  have cur: "current_release (committed s') = Some ?r"
    unfolding c(3) by (rule current_release_cut [OF i(4)])
  show "fst (CurrentRelease e' s') = Inr m"
    using CurrentRelease_calm [OF busy' calm(1) cur] m by simp
  have r: "?r \<in> set (releases (committed s'))" by (simp add: c(3))
  then have "find_release (committed s') (m_release m) = Some ?r"
    using find_release_iff [OF i'(4)] by (simp add: c(2))
  then have "find_release (committed t) (m_release m) = Some ?r"
    by (rule find_release_kept [OF later(2)])
  then show "fst (Release (m_release m) e'' t) = Inr m"
    using Release_calm [OF later(1) calm(2)] stored_manifest_kept [OF i'(1) later(3,2) i'(4) r] m by simp
qed

theorem CutRelease_published_witness:
  "\<exists>m s'. CutRelease [] ''ann'' (calm ''2024-01-01T00:00:00Z'' []) (idle plain_db 0) = (Inr m, s')
     \<and> fst (CurrentRelease (calm [] []) s') = Inr m"
proof -
  obtain m s' where run: "CutRelease [] ''ann'' (calm ''2024-01-01T00:00:00Z'' []) (idle plain_db 0) = (Inr m, s')"
    and i: "\<not> busy s'" "store_inv (committed s')" by (rule plain_cut)
  have "fst (CurrentRelease (calm [] []) s') = Inr m"
    by (rule CutRelease_published [OF _ _ sample_clock run i(1) history_refl _ _ calm_not_faulty, THEN conjunct1])
       (use plain_db_inv i(2) store_invD(1) in simp_all)
  with run show ?thesis by blast
qed

text \<open>C18: A release is immutable.  In any two states of which the second keeps the history of the first,
  a release of the first has the same manifest and the same archive in the second, byte for byte.\<close>

theorem release_immutable:
  assumes "\<not> busy s" "\<not> busy t" "store_inv (committed s)" "store_inv (committed t)"
    and "history_kept (committed s) (committed t)" "find_release (committed s) i \<noteq> None"
    and "\<not> faulty e" "\<not> faulty e'"
  shows "fst (Release i e t) = fst (Release i e' s)
    \<and> fst (WriteArchive i e t) = fst (WriteArchive i e' s)
    \<and> (\<exists>m out. fst (Release i e' s) = Inr m \<and> fst (WriteArchive i e' s) = Inr (out, None))"
proof (intro conjI)
  obtain r where r: "find_release (committed s) i = Some r" using assms(6) by auto
  note i = store_invD [OF assms(3)] and j = store_invD [OF assms(4)]
  have t: "find_release (committed t) i = Some r" by (rule find_release_kept [OF assms(5) r])
  have mem: "r \<in> set (releases (committed s))" "r_id r = i" using r find_release_iff [OF i(4)] by auto
  show "fst (Release i e t) = fst (Release i e' s)"
    using Release_calm [OF assms(2,7) t] Release_calm [OF assms(1,8) r]
      stored_manifest_kept [OF i(1) j(1) assms(5) i(4) mem(1)] by simp
  show "fst (WriteArchive i e t) = fst (WriteArchive i e' s)"
    using WriteArchive_calm [OF assms(2) j(3) assms(7) t] WriteArchive_calm [OF assms(1) i(3) assms(8) r]
      release_rows_kept [OF i(1) j(1) assms(5) i(4), of i] mem by force
  show "\<exists>m out. fst (Release i e' s) = Inr m \<and> fst (WriteArchive i e' s) = Inr (out, None)"
    using WriteArchive_calm [OF assms(1) i(3) assms(8) r] Release_calm [OF assms(1,8) r] by simp
qed

theorem release_immutable_witness:
  "\<exists>m s'. CutRelease [] ''ann'' (calm ''2024-01-01T00:00:00Z'' []) (idle plain_db 0) = (Inr m, s')
     \<and> fst (Release (m_release m) (calm [] []) s') = fst (Release (m_release m) (calm [] ''x'') s')"
proof -
  obtain m s' where run: "CutRelease [] ''ann'' (calm ''2024-01-01T00:00:00Z'' []) (idle plain_db 0) = (Inr m, s')"
    and i: "\<not> busy s'" "store_inv (committed s')" and f: "find_release (committed s') (m_release m) \<noteq> None"
    by (rule plain_cut)
  have "fst (Release (m_release m) (calm [] []) s') = fst (Release (m_release m) (calm [] ''x'') s')"
    by (rule release_immutable [OF i(1,1,2,2) history_refl f calm_not_faulty calm_not_faulty, THEN conjunct1])
  with run show ?thesis by blast
qed

section \<open>What a release contains\<close>

text \<open>C19: The archive carries what the manifest promises.  The manifest of a release and its archive, read
  at different times and the archive without an error, agree: the entries are the documents of the manifest
  in its order, each under its path with a body of the stated SHA-256, no path twice, and the content hash
  recomputed over the entries is the hash of the manifest.\<close>

theorem WriteArchive_matches_manifest:
  assumes "\<not> busy s" "store_inv (committed s)"
    and m: "Release i e s = (Inr m, s1)" and out: "WriteArchive i e' s = (Inr (out, None), s2)"
  shows "map te_name out = map md_path (elems (m_docs m))
    \<and> map (\<lambda>t. hex_encode (sha256 (te_body t))) out = map md_sha (elems (m_docs m))
    \<and> distinct (map te_name out)
    \<and> content_hash (map (\<lambda>t. (te_name t, te_body t)) out) = m_hash m"
proof (intro conjI)
  note i = store_invD [OF assms(2)]
  obtain r where r: "find_release (committed s) i = Some r" "m = stored_manifest (committed s) r"
    using wp_read_manifest [OF assms(1), of "\<lambda>db. find_release db i" e] m by (auto simp: Release_def wp_def)
  have mem: "r \<in> set (releases (committed s))" "r_id r = i" using r find_release_iff [OF i(4)] by auto
  let ?rows = "release_rows (committed s) i"
  have ok: "\<forall>x \<in> set ?rows. entry_ok x" "distinct (map entry_family ?rows)"
      "r_hash r = content_hash (map (\<lambda>x. (re_path x, re_body x)) ?rows)"
    using i(3) mem by (auto simp: releases_inv_def release_ok_def Let_def)
  have o: "out = map tar_of ?rows"
    using wp_WriteArchive [OF assms(1) i(3), of i e'] out r(1) by (simp add: wp_def)
  have d: "elems (m_docs m) = map entry_doc ?rows" by (simp add: r(2) stored_manifest_def Let_def mem)
  show "map te_name out = map md_path (elems (m_docs m))" by (simp add: o d tar_of_def entry_doc_def)
  show "map (\<lambda>t. hex_encode (sha256 (te_body t))) out = map md_sha (elems (m_docs m))"
    using ok(1) by (simp add: o d tar_of_def entry_doc_def entry_ok_def)
  show "distinct (map te_name out)" using entry_paths_distinct [OF ok(1,2)] by (simp add: o tar_of_def o_def)
  show "content_hash (map (\<lambda>t. (te_name t, te_body t)) out) = m_hash m"
    using ok(3) by (simp add: o r(2) stored_manifest_def Let_def tar_of_def o_def)
qed

theorem WriteArchive_matches_manifest_witness:
  "\<exists>i m out s. \<not> busy s \<and> fst (Release i (calm [] []) s) = Inr m \<and> fst (WriteArchive i (calm [] []) s) = Inr (out, None)
     \<and> out \<noteq> [] \<and> content_hash (map (\<lambda>t. (te_name t, te_body t)) out) = m_hash m"
proof -
  obtain m s where run: "CutRelease [] ''ann'' (calm ''2024-01-01T00:00:00Z'' []) (idle plain_db 0) = (Inr m, s)"
    and i: "\<not> busy s" "store_inv (committed s)"
    and rows: "release_rows (committed s) (m_release m) = map entry_of (candidate_docs plain_db)"
    and f: "find_release (committed s) (m_release m) \<noteq> None"
    by (rule plain_cut)
  obtain r where r: "find_release (committed s) (m_release m) = Some r" using f by auto
  note fm = Release_calm [OF i(1) calm_not_faulty r, of "[]" "[]"]
  note fo = WriteArchive_calm [OF i(1) store_invD(3) [OF i(2)] calm_not_faulty r, of "[]" "[]"]
  have m: "Release (m_release m) (calm [] []) s = (Inr (stored_manifest (committed s) r), snd (Release (m_release m) (calm [] []) s))"
    using fm by (metis prod.collapse)
  let ?out = "map tar_of (release_rows (committed s) (m_release m))"
  have out: "WriteArchive (m_release m) (calm [] []) s = (Inr (?out, None), snd (WriteArchive (m_release m) (calm [] []) s))"
    using fo by (metis prod.collapse)
  have "?out \<noteq> []" using rows plain_candidate(1) by simp
  with WriteArchive_matches_manifest [OF i m out, THEN conjunct2, THEN conjunct2, THEN conjunct2] fm fo i(1) show ?thesis by blast
qed

section \<open>Lints\<close>

lemma candidate_error_None:
  assumes "candidate_error db = None" "d \<in> set (candidate_docs db)"
  shows "kernel_lint d = None" "doc_lint db d = None"
  using assms by (auto simp: candidate_error_def first_error_None split: option.splits if_splits)

text \<open>C28: The kernel stays within its caps.  In a release that a cut published, every document of the
  collection \<open>kernel\<close> has at most 24576 bytes and at most 2000 words.\<close>

theorem CutRelease_kernel_caps:
  assumes "\<not> busy s" "store_inv (committed s)" "CutRelease expected editor e s = (Inr m, s')"
    and "x \<in> set (release_rows (committed s') (m_release m))" "re_collection x = ''kernel''"
  shows "length (re_body x) \<le> 24576 \<and> length (GoRunes.fields (re_body x)) \<le> 2000"
proof -
  obtain n at where c: "candidate_error (committed s) = None"
    "m = (candidate_manifest (candidate_docs (committed s)) (clock_at e n))\<lparr>m_release := next_id (map r_id (releases (committed s)))\<rparr>"
    "committed s' = cut_db (committed s) (clock_at e n) editor at"
    by (rule CutRelease_ok [OF assms(1-3)])
  note i = store_invD [OF assms(2)]
  have "release_rows (committed s') (m_release m) = map entry_of (candidate_docs (committed s))"
    unfolding c(2,3) using release_rows_cut [OF i(1,4)] by simp
  with assms(4) obtain d where d: "d \<in> set (candidate_docs (committed s))" "x = entry_of d" by auto
  then show ?thesis
    using candidate_error_None(1) [OF c(1) d(1)] assms(5)
    by (auto simp: kernel_lint_def entry_of_def KernelByteCap_def KernelWordCap_def split: if_splits)
qed

theorem CutRelease_kernel_caps_witness:
  "\<exists>m s'. CutRelease [] ''ann'' (calm ''2024-01-01T00:00:00Z'' []) (idle plain_db 0) = (Inr m, s')
     \<and> (\<exists>x \<in> set (release_rows (committed s') (m_release m)). re_collection x = ''kernel'' \<and> length (re_body x) \<le> 24576)"
proof -
  obtain m s' where run: "CutRelease [] ''ann'' (calm ''2024-01-01T00:00:00Z'' []) (idle plain_db 0) = (Inr m, s')"
    and rows: "release_rows (committed s') (m_release m) = map entry_of (candidate_docs plain_db)"
    by (rule plain_cut)
  obtain d where "d \<in> set (candidate_docs plain_db)" "rel_collection d = ''kernel''"
    using plain_docs(1) by auto
  then have x: "entry_of d \<in> set (release_rows (committed s') (m_release m))" "re_collection (entry_of d) = ''kernel''"
    by (auto simp: rows entry_of_def)
  have "length (re_body (entry_of d)) \<le> 24576"
    using CutRelease_kernel_caps [OF _ _ run x] plain_db_inv by simp
  with run x show ?thesis by blast
qed

lemma first_link_error_None:
  "first_link_error d rows = None \<longleftrightarrow> (\<forall>(l, status, inRelease) \<in> set rows. link_reason l status inRelease = [])"
  by (induction d rows rule: first_link_error.induct) (auto simp: Let_def)

lemma link_reason_reference:
  "link_reason l status inRelease = [] \<Longrightarrow> l_relation l = ''reference'' \<Longrightarrow> status = ''active'' \<and> inRelease = 1"
  by (auto simp: link_reason_def Let_def split: if_splits)

lemma link_reason_supersedes:
  "link_reason l status inRelease = [] \<Longrightarrow> l_relation l = ''supersedes'' \<Longrightarrow> status = ''superseded''"
  by (auto simp: link_reason_def Let_def split: if_splits)

lemma target_status_Some:
  assumes "target_status db l = st" "st \<noteq> []"
  obtains d where "d \<in> set (doc_versions db)" "doc_key d = (l_collection l, l_family l, l_version l)" "d_status d = st"
proof (cases "first_row (\<lambda>d. doc_key d = (l_collection l, l_family l, l_version l)) (doc_versions db)")
  case None
  with assms show ?thesis by (simp add: target_status_def)
next
  case (Some d)
  with assms have "d_status d = st" by (simp add: target_status_def)
  then show ?thesis using first_row_Some [OF Some] that by blast
qed

lemma target_in_release_1:
  assumes "target_in_release db l = 1"
  shows "in_release db (l_collection l)"
proof (cases "first_row (\<lambda>r. c_name r = l_collection l) (collections db)")
  case None
  with assms show ?thesis by (simp add: target_in_release_def)
next
  case (Some r)
  with assms have "c_in_release r = 1" by (simp add: target_in_release_def)
  then show ?thesis using first_row_Some [OF Some] by (auto simp: in_release_def list_ex_iff)
qed

text \<open>The links of a document of a candidate without a lint.\<close>

lemma candidate_link:
  assumes "candidate_error db = None" "d \<in> set (candidate_docs db)" "l \<in> set (doc_links db)" "l_doc l = rel_id d"
  shows "link_reason l (target_status db l) (target_in_release db l) = []"
  using candidate_error_None(2) [OF assms(1,2)] assms(3,4)
  by (auto simp: doc_lint_def first_link_error_None joined_links_def doc_link_rows_def)

lemma candidate_reference:
  assumes "candidate_error db = None" "d \<in> set (candidate_docs db)" "l \<in> set (doc_links db)" "l_doc l = rel_id d"
    and "l_relation l = ''reference''"
  obtains w where "rel_doc_of w \<in> set (candidate_docs db)" "doc_key w = (l_collection l, l_family l, l_version l)"
proof -
  have st: "target_status db l = ''active''" "target_in_release db l = 1"
    using link_reason_reference [OF candidate_link [OF assms(1-4)] assms(5)] by auto
  obtain w where w: "w \<in> set (doc_versions db)" "doc_key w = (l_collection l, l_family l, l_version l)" "d_status w = ''active''"
    by (rule target_status_Some [OF st(1)]) auto
  have "w \<in> set (candidate_rows db)"
    using w target_in_release_1 [OF st(2)] by (auto simp: candidate_rows_set doc_key_def)
  with w(2) that show thesis by (auto simp: candidate_docs_def)
qed

text \<open>C29: A published release is closed under its references.  For every document of a release a cut
  published, each \<open>reference\<close> link names a document that is in the same release with exactly the linked
  version, and each \<open>supersedes\<close> link names a stored version that is superseded.\<close>

theorem CutRelease_links_sound:
  assumes "\<not> busy s" "store_inv (committed s)" "CutRelease expected editor e s = (Inr m, s')"
    and "row \<in> set (release_docs (committed s'))" "rd_release row = m_release m"
    and "l \<in> set (doc_links (committed s'))" "l_doc l = rd_doc row"
  shows "(l_relation l = ''reference'' \<longrightarrow>
      (\<exists>x \<in> set (elems (m_docs m)). md_path x = doc_path (l_collection l) (l_family l) \<and> md_version x = l_version l))
    \<and> (l_relation l = ''supersedes'' \<longrightarrow>
      (\<exists>d \<in> set (doc_versions (committed s')). doc_key d = (l_collection l, l_family l, l_version l) \<and> d_status d = ''superseded''))"
proof (intro conjI impI)
  obtain n at where c: "candidate_error (committed s) = None"
    "m = (candidate_manifest (candidate_docs (committed s)) (clock_at e n))\<lparr>m_release := next_id (map r_id (releases (committed s)))\<rparr>"
    "committed s' = cut_db (committed s) (clock_at e n) editor at"
    by (rule CutRelease_ok [OF assms(1-3)])
  have "row \<notin> set (release_docs (committed s))"
    using store_invD(4) [OF assms(2)] assms(5) next_id_fresh_map [of _ "releases (committed s)" r_id]
    by (force simp: rel_refs_def c(2) simp del: next_id_notin_image)
  then obtain d where d: "d \<in> set (candidate_docs (committed s))" "rd_doc row = rel_id d"
    using assms(4) by (auto simp: c(3))
  have l: "l \<in> set (doc_links (committed s))" "l_doc l = rel_id d" using assms(6,7) d(2) by (simp_all add: c(3))
  show "\<exists>x \<in> set (elems (m_docs m)). md_path x = doc_path (l_collection l) (l_family l) \<and> md_version x = l_version l"
    if "l_relation l = ''reference''"
  proof (rule candidate_reference [OF c(1) d(1) l that])
    fix w assume w: "rel_doc_of w \<in> set (candidate_docs (committed s))" "doc_key w = (l_collection l, l_family l, l_version l)"
    then have "manifest_doc_of (rel_doc_of w) \<in> set (elems (m_docs m))" by (simp add: c(2) candidate_manifest_def)
    moreover have "md_path (manifest_doc_of (rel_doc_of w)) = doc_path (l_collection l) (l_family l)"
      "md_version (manifest_doc_of (rel_doc_of w)) = l_version l"
      using w(2) by (auto simp: manifest_doc_of_def doc_key_def)
    ultimately show ?thesis by blast
  qed
  show "\<exists>d \<in> set (doc_versions (committed s')). doc_key d = (l_collection l, l_family l, l_version l) \<and> d_status d = ''superseded''"
    if "l_relation l = ''supersedes''"
    by (rule target_status_Some [OF link_reason_supersedes [OF candidate_link [OF c(1) d(1) l] that]])
       (auto simp: c(3))
qed

text \<open>A second document that references the first.\<close>

definition linked_db :: db where
  "linked_db = saved_db plain_db ''docs'' ''intro'' (sample_save None) ''2024-01-02T00:00:00Z''"

lemma linked_db_inv: "store_inv linked_db"
proof -
  note p = store_invD [OF plain_db_inv]
  have "save_guard plain_db ''docs'' ''intro'' (sample_save None) = None" by code_simp
  then have d: "docs_inv linked_db"
    using sample_save_checks [of None] p(1) by (simp add: linked_db_def docs_inv_saved save_checks_None)
  have h: "history_kept plain_db linked_db" using p(1) by (simp add: linked_db_def history_saved_db)
  have "releases_inv linked_db"
    by (rule releases_inv_kept [OF p(3,1) d h]) (simp_all add: linked_db_def)
  then show ?thesis using d p(2) by (simp add: store_inv_def linked_db_def)
qed

lemma linked_docs:
  "map (\<lambda>d. (rel_id d, rel_body d, doc_lint linked_db d = None)) (candidate_docs linked_db)
     = [(2, ''text'', True), (1, ''text'', True)]"
  "list_ex (\<lambda>l. l_doc l = 2 \<and> l_relation l = ''reference'' \<and> l_collection l = ''kernel'' \<and> l_family l = ''base'') (doc_links linked_db)"
  by code_simp+

lemma linked_candidate: "candidate_error linked_db = None"
proof -
  have ne: "candidate_docs linked_db \<noteq> []" using linked_docs(1) by auto
  have "kernel_lint d = None \<and> doc_lint linked_db d = None" if "d \<in> set (candidate_docs linked_db)" for d
  proof -
    have "(rel_id d, rel_body d, doc_lint linked_db d = None) \<in> set [(2, ''text'', True), (1, ''text'', True)]"
      unfolding linked_docs(1) [symmetric] using that by auto
    then show ?thesis using plain_words by (auto simp: kernel_lint_def KernelByteCap_def KernelWordCap_def)
  qed
  then have "first_error kernel_lint (candidate_docs linked_db) = None"
    "first_error (doc_lint linked_db) (candidate_docs linked_db) = None" by (simp_all add: first_error_None)
  with ne show ?thesis by (simp add: candidate_error_def)
qed

theorem CutRelease_links_sound_witness:
  "\<exists>m s' x. CutRelease [] ''ann'' (calm ''2024-01-01T00:00:00Z'' []) (idle linked_db 0) = (Inr m, s')
     \<and> x \<in> set (elems (m_docs m)) \<and> md_path x = doc_path ''kernel'' ''base''"
proof -
  have idle: "\<not> busy (idle linked_db 0)" "store_inv (committed (idle linked_db 0))" using linked_db_inv by simp_all
  obtain m s' where run: "CutRelease [] ''ann'' (calm ''2024-01-01T00:00:00Z'' []) (idle linked_db 0) = (Inr m, s')"
    by (rule CutRelease_succeeds [OF idle calm_not_faulty, of "[]"]) (use linked_candidate in auto)
  obtain n at where c: "m_release m = next_id (map r_id (releases linked_db))"
    "committed s' = cut_db linked_db (clock_at (calm ''2024-01-01T00:00:00Z'' []) n) ''ann'' at"
    by (rule CutRelease_ok [OF idle run]) simp
  obtain l where l: "l \<in> set (doc_links linked_db)" "l_doc l = 2" "l_relation l = ''reference''"
    "l_collection l = ''kernel''" "l_family l = ''base''" using linked_docs(2) by (auto simp: list_ex_iff)
  have "2 \<in> rel_id ` set (candidate_docs linked_db)"
    using arg_cong [OF linked_docs(1), of "\<lambda>xs. fst ` set xs"] by (auto simp: image_image)
  then obtain d where d: "d \<in> set (candidate_docs linked_db)" "rel_id d = 2" by auto
  have "release_doc_row_of (m_release m) d \<in> set (release_docs (committed s'))" using d(1) by (simp add: c)
  then have "\<exists>x \<in> set (elems (m_docs m)). md_path x = doc_path (l_collection l) (l_family l) \<and> md_version x = l_version l"
    by (rule CutRelease_links_sound [OF idle run, THEN conjunct1, rule_format]) (use l d in \<open>simp_all add: c\<close>)
  with run l show ?thesis by auto
qed

end
