(* ===== verification/ReleaseConflicts.thy ===== *)
theory ReleaseConflicts
  imports ReleaseProps
begin

text \<open>
  Releases and the conflict table: a lint that stops a cut is recorded as a policy
  conflict that an operator can find, and a cut that succeeds resolves every open policy
  conflict and nothing else.
\<close>

section \<open>The recorded lint\<close>

lemma recorded_policy_row:
  assumes inv: "conflicts_inv db" and c: "valid_ident c" "valid_ident f"
    and rec: "recorded_policy c f v editor reason at db = (i, db')"
  obtains y where "find_conflict db' i = Some y" "conflict_slot y = (''policy'', c, f)" "x_status y = ''open''"
    "x_their y = v" "x_detail y = reason" "x_opened_by y = editor"
    "x_attempts y = (case open_conflict_id db ''policy'' c f of None \<Rightarrow> 1
       | Some j \<Rightarrow> (case find_conflict db j of None \<Rightarrow> 1 | Some x \<Rightarrow> x_attempts x + 1))"
proof -
  let ?g = "refresh_policy v editor reason at" and ?r = "policy_row c f v editor reason at"
  have inv': "conflicts_inv (snd (recorded (''policy'', c, f) ?g ?r db))"
    using recorded_policy_inv(1) [OF inv c] by (simp add: recorded_policy_def)
  have e: "recorded (''policy'', c, f) ?g ?r db = (i, db')" using rec by (simp add: recorded_policy_def)
  show thesis
  proof (cases "open_conflict_id db ''policy'' c f")
    case None
    then have "find_conflict db' i = Some (?r\<lparr>x_id := i\<rparr>)" using recorded_find_new [OF inv', of i] e by simp
    then show thesis
      using that None by (simp add: policy_row_def open_conflict_row_def conflict_slot_def)
  next
    case (Some j)
    obtain x where x: "find_conflict db j = Some x" "x_status x = ''open''" "conflict_slot x = (''policy'', c, f)"
      using open_conflict_Some [OF Some] find_conflict_iff [OF inv] by (auto simp: conflict_slot_def)
    have "i = j" "find_conflict db' i = Some (?g x)"
      using recorded_find_old [OF inv' x(1)] Some e refreshes_policy by auto
    then show thesis
      using that Some x by (simp add: refresh_policy_def conflict_slot_def)
  qed
qed

text \<open>C30: A lint is recorded.  When the candidate has a lint and nothing fails, the cut is refused with
  that lint, wrapped with the number of an open policy conflict on the offending document that carries the
  lint's text; the attempt count of a record that was already open goes up by one.  No release is made and
  no table but the conflicts changes.\<close>

theorem CutRelease_lint_recorded:
  assumes "\<not> busy s" "store_inv (committed s)" "\<not> faulty e"
    and lint: "candidate_error (committed s) = Some x" "x \<noteq> empty_release"
  shows "\<exists>i c f v reason y s'. x = LintError c f v reason
    \<and> CutRelease expected editor e s = (Inl (ConflictRecordedError i x), s')
    \<and> (\<exists>d \<in> set (candidate_docs (committed s)). rel_collection d = c \<and> rel_family d = f \<and> rel_version d = v)
    \<and> find_conflict (committed s') i = Some y \<and> conflict_slot y = (''policy'', c, f) \<and> x_status y = ''open''
    \<and> x_their y = v \<and> x_detail y = reason \<and> x_opened_by y = editor
    \<and> x_attempts y = (case open_conflict_id (committed s) ''policy'' c f of None \<Rightarrow> 1
         | Some j \<Rightarrow> (case find_conflict (committed s) j of None \<Rightarrow> 1 | Some x \<Rightarrow> x_attempts x + 1))
    \<and> committed s' = (committed s)\<lparr>conflicts := conflicts (committed s')\<rparr>"
proof -
  note i = store_invD [OF assms(2)]
  obtain r s' where run: "CutRelease expected editor e s = (r, s')" by (cases "CutRelease expected editor e s")
  have "cut_effect e expected editor (committed s) r (committed s')"
    using CutRelease_run(2) [OF assms(1,2) run] assms(3) lint by auto
  then obtain c f v reason at j where x: "x = LintError c f v reason"
    and rec: "recorded_policy c f v editor reason at (committed s) = (j, committed s')"
    and r: "r = Inl (ConflictRecordedError j x)"
    using lint(1) by cases auto
  have ids: "valid_ident c" "valid_ident f" using lint_idents [OF i(1)] lint(1) x by auto
  obtain y where y: "find_conflict (committed s') j = Some y" "conflict_slot y = (''policy'', c, f)" "x_status y = ''open''"
    "x_their y = v" "x_detail y = reason" "x_opened_by y = editor"
    "x_attempts y = (case open_conflict_id (committed s) ''policy'' c f of None \<Rightarrow> 1
       | Some j \<Rightarrow> (case find_conflict (committed s) j of None \<Rightarrow> 1 | Some x \<Rightarrow> x_attempts x + 1))"
    by (rule recorded_policy_row [OF i(2) ids rec])
  have d: "\<exists>d \<in> set (candidate_docs (committed s)). rel_collection d = c \<and> rel_family d = f \<and> rel_version d = v"
    using candidate_error_form [OF i(1) lint(1)] by (auto simp: x empty_release_def)
  have "committed s' = snd (recorded_policy c f v editor reason at (committed s))" using rec by simp
  then have "committed s' = (committed s)\<lparr>conflicts := conflicts (committed s')\<rparr>"
    by (simp add: recorded_policy_def recorded_def Let_def split: option.split)
  with x run r y d show ?thesis by blast
qed

lemma sample_db_store: "store_inv sample_db"
proof -
  have h: "history_kept initial_db sample_db" by (simp add: sample_db_def history_saved_db docs_inv_initial)
  have "releases_inv sample_db"
    by (rule releases_inv_kept [OF releases_inv_initial docs_inv_initial sample_db_inv(1) h]) (simp_all add: sample_db_def)
  then show ?thesis using sample_db_inv by (simp add: store_inv_def)
qed

theorem CutRelease_lint_recorded_witness:
  "\<exists>i x s'. CutRelease [] ''ann'' (calm ''2024-01-01T00:00:00Z'' []) (idle sample_db 0) = (Inl (ConflictRecordedError i x), s')
     \<and> conflicts (committed s') \<noteq> conflicts sample_db"
proof -
  have doc: "map (\<lambda>d. (rel_collection d, case doc_lint sample_db d of None \<Rightarrow> False | Some _ \<Rightarrow> True)) (candidate_docs sample_db)
       = [(''docs'', True)]" "length (conflicts sample_db) = 0" by code_simp+
  then have ds: "candidate_docs sample_db \<noteq> []" by auto
  have "kernel_lint d = None \<and> doc_lint sample_db d \<noteq> None" if "d \<in> set (candidate_docs sample_db)" for d
  proof -
    have "(rel_collection d, case doc_lint sample_db d of None \<Rightarrow> False | Some _ \<Rightarrow> True) \<in> set [(''docs'', True)]"
      unfolding doc(1) [symmetric] using that by auto
    then show ?thesis by (auto simp: kernel_lint_def split: option.splits)
  qed
  then have "first_error kernel_lint (candidate_docs sample_db) = None"
    "first_error (doc_lint sample_db) (candidate_docs sample_db) \<noteq> None"
    using ds by (auto simp: first_error_None) (metis list.set_intros(1) neq_Nil_conv)
  then obtain x where x: "candidate_error sample_db = Some x" "first_error (doc_lint sample_db) (candidate_docs sample_db) = Some x"
    by (auto simp: candidate_error_def)
  have "x \<noteq> empty_release" using first_error_Some [OF x(2)] doc_lint_form by (force simp: empty_release_def)
  then obtain i y s' where
    run: "CutRelease [] ''ann'' (calm ''2024-01-01T00:00:00Z'' []) (idle sample_db 0) = (Inl (ConflictRecordedError i x), s')"
      "find_conflict (committed s') i = Some y"
    using CutRelease_lint_recorded [of "idle sample_db 0" "calm ''2024-01-01T00:00:00Z'' []" x "[]" "''ann''"]
      x(1) sample_db_store calm_not_faulty unfolding idle_sel by blast
  have "conflicts (committed s') \<noteq> []" using find_conflict_Some [OF run(2)] by auto
  then have "conflicts (committed s') \<noteq> conflicts sample_db" using doc(2) by simp
  with run(1) show ?thesis by blast
qed

section \<open>The conflicts a cut clears\<close>

definition md_key :: "manifest_doc \<Rightarrow> string \<times> string" where
  "md_key d = (split_first (CHR ''/'') (md_path d), md_family d)"

lemma manifest_versions_fold:
  "distinct (map md_key ds) \<Longrightarrow>
   fold (\<lambda>d g. g(md_key d \<mapsto> md_version d)) ds g k =
     (case first_row (\<lambda>d. md_key d = k) ds of Some d \<Rightarrow> Some (md_version d) | None \<Rightarrow> g k)"
proof (induction ds arbitrary: g)
  case (Cons x ds)
  show ?case
  proof (cases "md_key x = k")
    case True
    with Cons.prems have "k \<notin> md_key ` set ds" by auto
    then have none: "first_row (\<lambda>d. md_key d = k) ds = None" by (simp only: first_row_None) blast
    have d: "distinct (map md_key ds)" using Cons.prems by simp
    show ?thesis
      unfolding fold_simps Cons.IH [OF d] none option.case using True by (simp add: first_row_def)
  next
    case False
    with Cons show ?thesis by (simp add: first_row_def)
  qed
qed (simp add: first_row_def)

lemma manifest_versions_lookup:
  "distinct (map md_key ds) \<Longrightarrow>
   manifest_versions ds k = map_option md_version (first_row (\<lambda>d. md_key d = k) ds)"
  using manifest_versions_fold [of ds Map.empty k]
  by (simp add: manifest_versions_def md_key_def split: option.split)

lemma manifest_doc_key:
  assumes "docs_inv db" "d \<in> set (candidate_docs db)"
  shows "md_key (manifest_doc_of d) = (rel_collection d, rel_family d)"
  using candidate_docs_mem(1,4) [OF assms]
  by (simp add: md_key_def manifest_doc_of_def doc_path_def split_first_append ident_no_slash)

lemma candidate_keys:
  assumes "docs_inv db"
  shows "distinct (map md_key (map manifest_doc_of (candidate_docs db)))"
proof -
  have "map md_key (map manifest_doc_of (candidate_docs db)) = map (\<lambda>d. (rel_collection d, rel_family d)) (candidate_docs db)"
    using manifest_doc_key [OF assms] by simp
  also have "\<dots> = map doc_family (candidate_rows db)" by (simp add: candidate_docs_def doc_family_def o_def)
  finally show ?thesis using candidate_families_distinct [OF assms] by simp
qed

text \<open>The version of the family in the release, or 0 when the release does not carry it.\<close>

lemma policy_winner_in:
  assumes inv: "docs_inv db" and d: "d \<in> set (candidate_docs db)" "rel_collection d = x_collection x" "rel_family d = x_family x"
  shows "policy_winner (candidate_docs db) x = rel_version d"
proof -
  let ?ms = "map manifest_doc_of (candidate_docs db)"
  have "first_row (\<lambda>m. md_key m = (x_collection x, x_family x)) ?ms = Some (manifest_doc_of d)"
    using d manifest_doc_key [OF inv d(1)] distinct_map_unique [OF candidate_keys [OF inv]]
    by (intro first_row_unique) auto
  then show ?thesis
    by (simp add: policy_winner_def manifest_versions_lookup [OF candidate_keys [OF inv]] manifest_doc_of_def)
qed

lemma policy_winner_out:
  assumes inv: "docs_inv db"
    and out: "\<And>d. d \<in> set (candidate_docs db) \<Longrightarrow> (rel_collection d, rel_family d) \<noteq> (x_collection x, x_family x)"
  shows "policy_winner (candidate_docs db) x = 0"
proof (cases "first_row (\<lambda>m. md_key m = (x_collection x, x_family x)) (map manifest_doc_of (candidate_docs db))")
  case None
  then show ?thesis
    unfolding policy_winner_def manifest_versions_lookup [OF candidate_keys [OF inv]] by (simp only: option.map coalesce.simps)
next
  case (Some m)
  then show ?thesis using out manifest_doc_key [OF inv] by (auto dest!: first_row_Some)
qed

text \<open>The two cases in terms of the manifest.\<close>

lemma policy_winner_manifest:
  assumes inv: "docs_inv db" and x: "conflict_row_ok x" and ds: "ds = map manifest_doc_of (candidate_docs db)"
  shows "if \<exists>d \<in> set ds. md_path d = doc_path (x_collection x) (x_family x)
     then \<exists>d \<in> set ds. md_path d = doc_path (x_collection x) (x_family x) \<and> policy_winner (candidate_docs db) x = md_version d
     else policy_winner (candidate_docs db) x = 0"
proof -
  have key: "md_path (manifest_doc_of d) = doc_path (x_collection x) (x_family x)
      \<longleftrightarrow> rel_collection d = x_collection x \<and> rel_family d = x_family x" if "d \<in> set (candidate_docs db)" for d
    using candidate_docs_mem(1,4) [OF inv that] conflict_row_idents [OF x] doc_path_inj [of "rel_collection d" "x_collection x"]
    by (auto simp: manifest_doc_of_def)
  show ?thesis
  proof (cases "\<exists>d \<in> set (candidate_docs db). rel_collection d = x_collection x \<and> rel_family d = x_family x")
    case True
    then obtain d where d: "d \<in> set (candidate_docs db)" "rel_collection d = x_collection x" "rel_family d = x_family x" by blast
    have "policy_winner (candidate_docs db) x = md_version (manifest_doc_of d)"
      using policy_winner_in [OF inv d] by (simp add: manifest_doc_of_def)
    then show ?thesis using key [OF d(1)] d ds by auto
  next
    case False
    then have "policy_winner (candidate_docs db) x = 0" using policy_winner_out [OF inv] by auto
    then show ?thesis using False key ds by auto
  qed
qed

text \<open>C31: A cut clears the policy conflicts.  After a successful cut no policy conflict is open.  Each one
  that was open is resolved, says by which release, and names as its winner the version of its document in
  that release, or 0 when the release does not carry the document.  Every other conflict record is exactly
  as before.\<close>

theorem CutRelease_clears_policies:
  assumes "\<not> busy s" "store_inv (committed s)" "CutRelease expected editor e s = (Inr m, s')"
  shows "(\<forall>y \<in> set (conflicts (committed s')). x_kind y = ''policy'' \<longrightarrow> x_status y = ''resolved'')
    \<and> (\<forall>i x. find_conflict (committed s) i = Some x \<and> (x_kind x \<noteq> ''policy'' \<or> x_status x \<noteq> ''open'')
           \<longrightarrow> find_conflict (committed s') i = Some x)
    \<and> (\<forall>i x. find_conflict (committed s) i = Some x \<and> x_kind x = ''policy'' \<and> x_status x = ''open''
           \<longrightarrow> (\<exists>at w. find_conflict (committed s') i = Some (resolve_row editor at (cleared_by (m_release m)) w x)
               \<and> (if \<exists>d \<in> set (elems (m_docs m)). md_path d = doc_path (x_collection x) (x_family x)
                  then \<exists>d \<in> set (elems (m_docs m)). md_path d = doc_path (x_collection x) (x_family x) \<and> w = md_version d
                  else w = 0)))"
proof (intro conjI)
  obtain n at where c: "candidate_docs (committed s) \<noteq> []"
    "m = (candidate_manifest (candidate_docs (committed s)) (clock_at e n))\<lparr>m_release := next_id (map r_id (releases (committed s)))\<rparr>"
    "committed s' = cut_db (committed s) (clock_at e n) editor at"
    by (rule CutRelease_ok [OF assms])
  let ?db = "committed s"
  let ?f = "\<lambda>x. if x_kind x = ''policy'' \<and> x_status x = ''open''
       then resolve_row editor at (cleared_by (m_release m)) (policy_winner (candidate_docs ?db) x) x else x"
  note i = store_invD [OF assms(2)]
  have cs: "conflicts (committed s') = map ?f (conflicts ?db)" by (simp add: c(2,3) cleared_conflicts_def)
  have inv': "conflicts_inv (committed s')" unfolding c(3) by (rule conflicts_inv_cut [OF i(2)])
  have find: "find_conflict (committed s') j = Some (?f x)" if "find_conflict ?db j = Some x" for j x
    using that unfolding find_conflict_iff [OF inv'] find_conflict_iff [OF i(2)] cs by auto
  show "\<forall>y \<in> set (conflicts (committed s')). x_kind y = ''policy'' \<longrightarrow> x_status y = ''resolved''"
    using i(2) by (auto simp: cs conflicts_inv_def conflict_row_ok_def)
  show "\<forall>i x. find_conflict ?db i = Some x \<and> (x_kind x \<noteq> ''policy'' \<or> x_status x \<noteq> ''open'')
           \<longrightarrow> find_conflict (committed s') i = Some x"
    using find by auto
  have winner: "if \<exists>d \<in> set (elems (m_docs m)). md_path d = doc_path (x_collection x) (x_family x)
        then \<exists>d \<in> set (elems (m_docs m)). md_path d = doc_path (x_collection x) (x_family x)
               \<and> policy_winner (candidate_docs ?db) x = md_version d
        else policy_winner (candidate_docs ?db) x = 0" if x: "x \<in> set (conflicts ?db)" for x
    by (rule policy_winner_manifest [OF i(1)]) (use i(2) x in \<open>simp_all add: conflicts_inv_def c(2) candidate_manifest_def\<close>)
  show "\<forall>i x. find_conflict ?db i = Some x \<and> x_kind x = ''policy'' \<and> x_status x = ''open''
           \<longrightarrow> (\<exists>at w. find_conflict (committed s') i = Some (resolve_row editor at (cleared_by (m_release m)) w x)
               \<and> (if \<exists>d \<in> set (elems (m_docs m)). md_path d = doc_path (x_collection x) (x_family x)
                  then \<exists>d \<in> set (elems (m_docs m)). md_path d = doc_path (x_collection x) (x_family x) \<and> w = md_version d
                  else w = 0))"
  proof (intro allI impI)
    fix j x assume x: "find_conflict ?db j = Some x \<and> x_kind x = ''policy'' \<and> x_status x = ''open''"
    then have mem: "x \<in> set (conflicts ?db)" using find_conflict_Some by blast
    show "\<exists>at w. find_conflict (committed s') j = Some (resolve_row editor at (cleared_by (m_release m)) w x)
               \<and> (if \<exists>d \<in> set (elems (m_docs m)). md_path d = doc_path (x_collection x) (x_family x)
                  then \<exists>d \<in> set (elems (m_docs m)). md_path d = doc_path (x_collection x) (x_family x) \<and> w = md_version d
                  else w = 0)"
      using find [of j x] x
      by (intro exI [of _ at] exI [of _ "policy_winner (candidate_docs ?db) x"] conjI winner [OF mem]) simp
  qed
qed

text \<open>The store of one document with an open policy conflict on it.\<close>

definition policy_db :: db where
  "policy_db = snd (recorded_policy ''kernel'' ''base'' 1 ''ann'' ''too long'' ''2024-01-01T00:00:00Z'' plain_db)"

lemma policy_db_inv: "store_inv policy_db"
proof -
  have ids: "valid_ident ''kernel''" "valid_ident ''base''" using plain_save_checks(1) by (simp_all add: save_checks_None)
  note p = store_invD [OF plain_db_inv]
  have rec: "conflicts_inv policy_db" "history_kept plain_db policy_db"
    using recorded_policy_inv [OF p(2) ids] by (simp_all add: policy_db_def)
  have "docs_inv policy_db" "releases policy_db = releases plain_db" "release_docs policy_db = release_docs plain_db"
    using p(1) by (simp_all add: policy_db_def recorded_policy_def)
  with rec releases_inv_kept [OF p(3,1)] show ?thesis by (simp add: store_inv_def)
qed

lemma policy_db_candidate: "candidate_error policy_db = None"
proof -
  have docs: "candidate_docs policy_db = candidate_docs plain_db"
    by (simp add: policy_db_def recorded_policy_def candidate_docs_def candidate_rows_def in_release_def)
  have lint: "doc_lint policy_db = doc_lint plain_db"
    by (simp add: policy_db_def recorded_policy_def doc_lint_def joined_links_def fun_eq_iff
        target_status_def target_in_release_def doc_link_rows_def)
  show ?thesis using plain_candidate(2) unfolding candidate_error_def docs lint .
qed

theorem CutRelease_clears_policies_witness:
  "\<exists>m s'. CutRelease [] ''ann'' (calm ''2024-01-02T00:00:00Z'' []) (idle policy_db 0) = (Inr m, s')
     \<and> (\<exists>y \<in> set (conflicts (committed s')). x_kind y = ''policy'' \<and> x_status y = ''resolved'')"
proof -
  obtain m s' where run: "CutRelease [] ''ann'' (calm ''2024-01-02T00:00:00Z'' []) (idle policy_db 0) = (Inr m, s')"
    by (rule CutRelease_succeeds [of "idle policy_db 0" "calm ''2024-01-02T00:00:00Z'' []" "[]"])
       (use policy_db_inv policy_db_candidate in auto)
  have "list_ex (\<lambda>x. x_id x = 1 \<and> x_kind x = ''policy'' \<and> x_status x = ''open'') (conflicts policy_db)" by code_simp
  then obtain x where "x \<in> set (conflicts policy_db)" "x_id x = 1" "x_kind x = ''policy''" "x_status x = ''open''"
    by (auto simp: list_ex_iff)
  then have "find_conflict policy_db 1 = Some x \<and> x_kind x = ''policy'' \<and> x_status x = ''open''"
    using find_conflict_iff [OF store_invD(2) [OF policy_db_inv]] by blast
  then obtain at w where "find_conflict (committed s') 1 = Some (resolve_row ''ann'' at (cleared_by (m_release m)) w x)"
    using CutRelease_clears_policies [OF _ _ run, THEN conjunct2, THEN conjunct2] policy_db_inv by fastforce
  then have "resolve_row ''ann'' at (cleared_by (m_release m)) w x \<in> set (conflicts (committed s'))"
    "x_kind (resolve_row ''ann'' at (cleared_by (m_release m)) w x) = ''policy''"
    using \<open>find_conflict policy_db 1 = Some x \<and> _\<close> find_conflict_Some by (auto simp: resolve_row_def)
  moreover have "\<forall>y \<in> set (conflicts (committed s')). x_kind y = ''policy'' \<longrightarrow> x_status y = ''resolved''"
    by (rule CutRelease_clears_policies [OF _ _ run, THEN conjunct1]) (use policy_db_inv in simp_all)
  ultimately show ?thesis using run by blast
qed

end
