(* ===== verification/Hosts.thy ===== *)
theory Hosts
  imports Docs Sha256 GoTime
begin

text \<open>
  What the server keeps about the hosts that subscribe: the last heartbeat, the pending
  force-resync flag and the bearer token, stored as its digest only.
\<close>

section \<open>Operations\<close>

definition Heartbeat :: "string \<Rightarrow> int \<Rightarrow> bool \<Rightarrow> string \<Rightarrow> bool \<Rightarrow> unit store" where
  "Heartbeat host releaseID ok errMsg resyncApplied =
     (case validateIdent ''host'' host of
        Some e \<Rightarrow> fail e
      | None \<Rightarrow>
          transaction
            (bindT get_time (\<lambda>seen.
             bindT (tx_exec (upsert_heartbeat
                      \<lparr>h_host = host, h_release = releaseID, h_ok = (if ok then 1 else 0), h_error = errMsg, h_seen = seen\<rparr>)) (\<lambda>_.
             bindT (if ok \<and> resyncApplied then tx_exec (delete_resync host) else ret ()) (\<lambda>_.
             tx_commit)))))"

definition RequestResync :: "string \<Rightarrow> unit store" where
  "RequestResync host =
     (case validateIdent ''host'' host of
        Some e \<Rightarrow> fail e
      | None \<Rightarrow>
          bindT get_time (\<lambda>at. db_exec (upsert_resync \<lparr>q_host = host, q_requested = at\<rparr>)))"

definition token_digest :: "string \<Rightarrow> string" where
  "token_digest token = hex_encode (sha256 token)"

definition IssueHostToken :: "string \<Rightarrow> string store" where
  "IssueHostToken host =
     (case validateIdent ''host'' host of
        Some e \<Rightarrow> fail e
      | None \<Rightarrow>
          bindT rand_read (\<lambda>raw.
          bindT get_time (\<lambda>at.
          bindT (db_exec (upsert_token
                   \<lparr>t_host = host, t_hash = token_digest (hex_encode raw), t_created = at\<rparr>)) (\<lambda>_.
          ret (hex_encode raw)))))"

definition no_token :: "string \<Rightarrow> gerror" where
  "no_token host = Wrapf ErrNotFound (''no token for host '' @ go_quote host)"

definition RevokeHostToken :: "string \<Rightarrow> unit store" where
  "RevokeHostToken host =
     (case validateIdent ''host'' host of
        Some e \<Rightarrow> fail e
      | None \<Rightarrow>
          bindT (db_exec (delete_token host)) (\<lambda>n. if n = 0 then fail (no_token host) else ret ()))"

text \<open>\<open>Some host\<close> is the result with \<open>found\<close> true, \<open>None\<close> the one with \<open>found\<close> false.\<close>

definition token_host :: "db \<Rightarrow> string \<Rightarrow> string option" where
  "token_host db token = map_option t_host (first_row (\<lambda>t. t_hash t = token_digest token) (host_tokens db))"

definition HostForToken :: "string \<Rightarrow> string option store" where
  "HostForToken token = db_query (\<lambda>db. token_host db token)"

definition resync_pending :: "db \<Rightarrow> string \<Rightarrow> bool" where
  "resync_pending db host = (0 < length (filter (\<lambda>r. q_host r = host) (resync_requests db)))"

definition ResyncPending :: "string \<Rightarrow> bool store" where
  "ResyncPending host = (if host = [] then ret False else db_query (\<lambda>db. resync_pending db host))"

definition known_hosts :: "db \<Rightarrow> string list" where
  "known_hosts db =
     sort (remdups (map h_host (heartbeats db) @ map q_host (resync_requests db) @ map t_host (host_tokens db)))"

definition host_status_of :: "db \<Rightarrow> string \<Rightarrow> host_status" where
  "host_status_of db host =
     (let h = first_row (\<lambda>r. h_host r = host) (heartbeats db) in
      \<lparr>hs_host = host,
       hs_release = coalesce (map_option h_release h) 0,
       hs_ok = (coalesce (map_option h_ok h) 0 \<noteq> 0),
       hs_error = coalesce (map_option h_error h) [],
       hs_seen = coalesce (map_option h_seen h) [],
       hs_resync_at = coalesce (map_option q_requested (first_row (\<lambda>r. q_host r = host) (resync_requests db))) [],
       hs_token_at = coalesce (map_option t_created (first_row (\<lambda>r. t_host r = host) (host_tokens db))) []\<rparr>)"

definition ListHosts :: "host_status list store" where
  "ListHosts = db_query (\<lambda>db. map (host_status_of db) (known_hosts db))"

section \<open>Tables with one row per host\<close>

lemma upsert_keys: "key ` set (upsert key r rs) = insert (key r) (key ` set rs)"
  by (auto simp: upsert_def list_ex_iff image_iff)

lemma upsert_distinct: "distinct (map key rs) \<Longrightarrow> distinct (map key (upsert key r rs))"
proof (cases "list_ex (\<lambda>w. key w = key r) rs")
  case True
  assume "distinct (map key rs)"
  moreover have "map key (map (\<lambda>w. if key w = key r then r else w) rs) = map key rs" by simp
  ultimately show ?thesis using True by (simp only: upsert_def if_True)
next
  case False
  then show "distinct (map key rs) \<Longrightarrow> ?thesis" by (auto simp: upsert_def list_ex_iff)
qed

lemma upsert_set:
  assumes "distinct (map key rs)"
  shows "x \<in> set (upsert key r rs) \<longleftrightarrow> x = r \<or> x \<in> set rs \<and> key x \<noteq> key r"
  by (auto simp: upsert_def list_ex_iff split: if_splits)

lemma first_row_replace:
  "first_row (\<lambda>w. key w = k) (map (\<lambda>w. if key w = key r then r else w) rs) =
     (if k = key r \<and> list_ex (\<lambda>w. key w = key r) rs then Some r else first_row (\<lambda>w. key w = k) rs)"
  by (induction rs) (auto simp: first_row_def)

lemma find_append: "find P (xs @ ys) = (case find P xs of None \<Rightarrow> find P ys | Some x \<Rightarrow> Some x)"
  by (induction xs) auto

lemma first_row_upsert:
  "first_row (\<lambda>w. key w = k) (upsert key r rs) = (if k = key r then Some r else first_row (\<lambda>w. key w = k) rs)"
proof (cases "list_ex (\<lambda>w. key w = key r) rs")
  case True
  then show ?thesis by (simp add: upsert_def first_row_replace)
next
  case False
  then have none: "find (\<lambda>w. key w = key r) rs = None" by (simp add: find_None_iff list_ex_iff)
  from False have "upsert key r rs = rs @ [r]" by (simp add: upsert_def)
  then show ?thesis
    using none by (cases "find (\<lambda>w. key w = k) rs") (auto simp: first_row_def find_append)
qed

section \<open>Invariant\<close>

definition hosts_inv :: "db \<Rightarrow> bool" where
  "hosts_inv db \<longleftrightarrow>
     distinct (map h_host (heartbeats db)) \<and> distinct (map q_host (resync_requests db))
     \<and> distinct (map t_host (host_tokens db)) \<and> distinct (map t_hash (host_tokens db))
     \<and> (\<forall>h \<in> set (heartbeats db). valid_ident (h_host h) \<and> h_ok h \<in> {0, 1} \<and> h_seen h \<noteq> [])
     \<and> (\<forall>r \<in> set (resync_requests db). valid_ident (q_host r) \<and> q_requested r \<noteq> [])
     \<and> (\<forall>t \<in> set (host_tokens db). valid_ident (t_host t) \<and> length (t_hash t) = 64 \<and> t_created t \<noteq> [])"

lemma hosts_inv_initial: "hosts_inv initial_db"
  by (simp add: hosts_inv_def initial_db_def)

lemma hosts_inv_tables:
  "heartbeats db' = heartbeats db \<Longrightarrow> resync_requests db' = resync_requests db \<Longrightarrow> host_tokens db' = host_tokens db
   \<Longrightarrow> hosts_inv db' = hosts_inv db"
  by (simp add: hosts_inv_def)

lemma hosts_inv_heartbeat:
  assumes "hosts_inv db" "valid_ident (h_host h)" "h_ok h \<in> {0, 1}" "h_seen h \<noteq> []"
  shows "hosts_inv (db\<lparr>heartbeats := upsert h_host h (heartbeats db)\<rparr>)"
  using assms upsert_distinct [of h_host "heartbeats db" h] by (auto simp: hosts_inv_def upsert_set)

lemma hosts_inv_resync:
  assumes "hosts_inv db" "valid_ident (q_host r)" "q_requested r \<noteq> []"
  shows "hosts_inv (db\<lparr>resync_requests := upsert q_host r (resync_requests db)\<rparr>)"
  using assms upsert_distinct [of q_host "resync_requests db" r] by (auto simp: hosts_inv_def upsert_set)

lemma hosts_inv_drop:
  "hosts_inv db \<Longrightarrow> hosts_inv (db\<lparr>resync_requests := filter P (resync_requests db)\<rparr>)"
  "hosts_inv db \<Longrightarrow> hosts_inv (db\<lparr>host_tokens := filter Q (host_tokens db)\<rparr>)"
  by (auto simp: hosts_inv_def distinct_map_filter)

lemma hosts_inv_token:
  assumes inv: "hosts_inv db" and t: "valid_ident (t_host t)" "length (t_hash t) = 64" "t_created t \<noteq> []"
    and ok: "upsert_token t db = Inr (u, db')"
  shows "hosts_inv db'" "db' = db\<lparr>host_tokens := upsert t_host t (host_tokens db)\<rparr>"
proof -
  let ?ts = "host_tokens db"
  show db': "db' = db\<lparr>host_tokens := upsert t_host t ?ts\<rparr>"
    using ok by (auto simp: upsert_token_def split: if_splits)
  have d: "distinct (map t_host (upsert t_host t ?ts))" using inv by (simp add: hosts_inv_def upsert_distinct)
  have new: "t_hash w \<noteq> t_hash t" if "w \<in> set ?ts" "t_host w \<noteq> t_host t" for w
    using ok that by (auto simp: upsert_token_def list_ex_iff split: if_splits)
  have mem: "x \<in> set (upsert t_host t ?ts) \<longleftrightarrow> x = t \<or> x \<in> set ?ts \<and> t_host x \<noteq> t_host t" for x
    using inv upsert_set [of t_host ?ts x t] by (simp add: hosts_inv_def)
  have "inj_on t_hash (set (upsert t_host t ?ts))"
  proof (rule inj_onI)
    fix x y assume "x \<in> set (upsert t_host t ?ts)" "y \<in> set (upsert t_host t ?ts)" "t_hash x = t_hash y"
    then show "x = y"
      using new [of x] new [of y] inv distinct_map_unique [of t_hash ?ts x y] by (auto simp: mem hosts_inv_def)
  qed
  then have "distinct (map t_hash (upsert t_host t ?ts))"
    using d by (simp add: distinct_map)
  then show "hosts_inv db'" using inv t d by (auto simp: db' hosts_inv_def mem)
qed

section \<open>What the operations do\<close>

definition heartbeat_db :: "db \<Rightarrow> heartbeat_row \<Rightarrow> bool \<Rightarrow> db" where
  "heartbeat_db db h clear =
     (let db1 = db\<lparr>heartbeats := upsert h_host h (heartbeats db)\<rparr> in
      if clear then db1\<lparr>resync_requests := filter (\<lambda>r. q_host r \<noteq> h_host h) (resync_requests db)\<rparr> else db1)"

text \<open>The clock never reads the empty string.\<close>

definition clock_reads :: "env \<Rightarrow> bool" where
  "clock_reads e \<longleftrightarrow> (\<forall>n. clock_at e n \<noteq> [])"

lemma wp_clock: "(\<And>n. N (clock_at e n) (tick s)) \<Longrightarrow> wp get_time E N e s"
  by (simp add: wp_def get_time_def)

lemma wp_Heartbeat:
  assumes busy: "\<not> busy s"
  shows "wp (Heartbeat host rid ok msg applied)
     (\<lambda>x s'. \<not> busy s' \<and> committed s' = committed s
        \<and> (faulty e \<and> (\<exists>m. x = Opaque m) \<or> validateIdent ''host'' host = Some x))
     (\<lambda>_ s'. \<not> busy s' \<and> valid_ident host
        \<and> (\<exists>n. committed s' = heartbeat_db (committed s)
             \<lparr>h_host = host, h_release = rid, h_ok = (if ok then 1 else 0), h_error = msg, h_seen = clock_at e n\<rparr> (ok \<and> applied))) e s"
proof (cases "validateIdent ''host'' host")
  case (Some x)
  then show ?thesis using busy by (simp add: Heartbeat_def wp_fail)
next
  case None
  then show ?thesis
    unfolding Heartbeat_def None option.case
    by (intro wp_transaction wp_bindT wp_clock wp_tx_exec wp_if wp_tx_commit wp_ret)
       (use None in \<open>auto simp: busy validateIdent_None upsert_heartbeat_def delete_resync_def heartbeat_db_def Let_def\<close>)
qed

lemma wp_RequestResync:
  assumes busy: "\<not> busy s"
  shows "wp (RequestResync host)
     (\<lambda>x s'. \<not> busy s' \<and> committed s' = committed s
        \<and> (faulty e \<and> (\<exists>m. x = Opaque m) \<or> validateIdent ''host'' host = Some x))
     (\<lambda>_ s'. \<not> busy s' \<and> valid_ident host
        \<and> (\<exists>n. committed s' = (committed s)\<lparr>resync_requests :=
              upsert q_host \<lparr>q_host = host, q_requested = clock_at e n\<rparr> (resync_requests (committed s))\<rparr>)) e s"
  unfolding RequestResync_def
  by (intro wp_case_option wp_fail wp_bindT wp_clock wp_db_exec)
     (auto simp: busy upsert_resync_def validateIdent_None)

lemma wp_IssueHostToken:
  assumes busy: "\<not> busy s"
  shows "wp (IssueHostToken host)
     (\<lambda>x s'. \<not> busy s' \<and> committed s' = committed s
        \<and> (faulty e \<and> (\<exists>m. x = Opaque m) \<or> validateIdent ''host'' host = Some x
           \<or> x = Opaque constraint_failed
             \<and> (\<exists>n raw. entropy e n = Inr raw \<and> (\<exists>w \<in> set (host_tokens (committed s)).
                  t_hash w = token_digest (hex_encode raw) \<and> t_host w \<noteq> host))))
     (\<lambda>token s'. \<not> busy s' \<and> valid_ident host
        \<and> (\<exists>n k raw. entropy e k = Inr raw \<and> token = hex_encode raw
             \<and> upsert_token \<lparr>t_host = host, t_hash = token_digest token, t_created = clock_at e n\<rparr> (committed s)
                 = Inr ((), committed s'))) e s"
  unfolding IssueHostToken_def
  by (intro wp_case_option wp_fail wp_bindT wp_clock wp_rand_read wp_db_exec wp_ret)
     (auto simp: busy validateIdent_None upsert_token_def list_ex_iff split: if_splits)

lemma wp_RevokeHostToken:
  assumes busy: "\<not> busy s"
  shows "wp (RevokeHostToken host)
     (\<lambda>x s'. \<not> busy s' \<and> committed s' = committed s
        \<and> (faulty e \<and> (\<exists>m. x = Opaque m) \<or> validateIdent ''host'' host = Some x
           \<or> x = no_token host \<and> host \<notin> t_host ` set (host_tokens (committed s))))
     (\<lambda>_ s'. \<not> busy s' \<and> valid_ident host \<and> host \<in> t_host ` set (host_tokens (committed s))
        \<and> committed s' = (committed s)\<lparr>host_tokens := filter (\<lambda>t. t_host t \<noteq> host) (host_tokens (committed s))\<rparr>) e s"
proof -
  have none: "(db::db)\<lparr>host_tokens := filter (\<lambda>t. t_host t \<noteq> host) (host_tokens db)\<rparr> = db"
    if "filter (\<lambda>t. t_host t = host) (host_tokens db) = []" for db
  proof -
    have "filter (\<lambda>t. t_host t \<noteq> host) (host_tokens db) = host_tokens db"
      using that by (intro filter_True) (auto simp: filter_empty_conv)
    then show ?thesis by simp
  qed
  show ?thesis
    unfolding RevokeHostToken_def
    by (intro wp_case_option wp_fail wp_bindT wp_db_exec wp_if wp_ret)
       (auto simp: busy validateIdent_None delete_token_def none filter_empty_conv image_iff)
qed

section \<open>The resync flag\<close>

lemma resync_pending_iff: "resync_pending db h \<longleftrightarrow> h \<in> q_host ` set (resync_requests db)"
  by (auto simp: resync_pending_def length_greater_0_conv filter_empty_conv)

lemma resync_pending_requested:
  "resync_pending (db\<lparr>resync_requests := upsert q_host r (resync_requests db)\<rparr>) h \<longleftrightarrow> h = q_host r \<or> resync_pending db h"
  by (simp add: resync_pending_iff upsert_keys)

lemma resync_pending_heartbeat:
  "resync_pending (heartbeat_db db h clear) k \<longleftrightarrow> resync_pending db k \<and> \<not> (clear \<and> k = h_host h)"
  by (auto simp: resync_pending_iff heartbeat_db_def Let_def)

text \<open>C32: A force-resync stays until it is done.  After a request for a host, whatever heartbeat comes
  next and however it ends, the host's flag is still set unless it was that host's own heartbeat, it
  reported success and that the resync was applied, and it was stored.\<close>

theorem resync_flag_cleared:
  assumes "\<not> busy s" "RequestResync host e s = (Inr (), s1)" "Heartbeat host' rid ok msg applied e' s1 = (r, s2)"
  shows "(fst (ResyncPending host e'' s2) = Inr (\<not> (host' = host \<and> ok \<and> applied \<and> r = Inr ())) \<or> faulty e'')
    \<and> resync_pending (committed s2) host = (\<not> (host' = host \<and> ok \<and> applied \<and> r = Inr ()))"
proof (intro conjI)
  have s1: "\<not> busy s1" "valid_ident host" "resync_pending (committed s1) host"
    using wp_RequestResync [OF assms(1), of host e] assms(2) by (auto simp: wp_def resync_pending_requested)
  have s2: "\<not> busy s2" "resync_pending (committed s2) host = (\<not> (host' = host \<and> ok \<and> applied \<and> r = Inr ()))"
    using wp_Heartbeat [OF s1(1), of host' rid ok msg applied e'] assms(3) s1(3)
    by (auto simp: wp_def resync_pending_heartbeat split: sum.splits)
  show "resync_pending (committed s2) host = (\<not> (host' = host \<and> ok \<and> applied \<and> r = Inr ()))" by (rule s2(2))
  have "host \<noteq> []" using s1(2) by (simp add: valid_ident_def)
  have "wp (ResyncPending host) (\<lambda>x s'. faulty e'') (\<lambda>b s'. b = resync_pending (committed s2) host) e'' s2"
    unfolding ResyncPending_def using \<open>host \<noteq> []\<close> s2(1) by (auto intro!: wp_intros)
  then show "fst (ResyncPending host e'' s2) = Inr (\<not> (host' = host \<and> ok \<and> applied \<and> r = Inr ())) \<or> faulty e''"
    using s2(2) by (auto simp: wp_def split: prod.splits sum.splits)
qed

lemma valid_host: "valid_ident host \<Longrightarrow> validateIdent field host = None"
  by (simp add: validateIdent_None)

lemma sample_host: "valid_ident ''web''"
  by (simp add: valid_ident_def backslash_def)

lemma RequestResync_succeeds:
  assumes "\<not> busy s" "\<not> faulty e" "valid_ident host"
  obtains s' where "RequestResync host e s = (Inr (), s')"
  using wp_RequestResync [OF assms(1), of host e] assms(2,3)
  by (cases "RequestResync host e s"; cases "fst (RequestResync host e s)") (auto simp: wp_def valid_host)

theorem resync_flag_cleared_witness:
  "\<exists>s1 r s2. RequestResync ''web'' (calm ''2024-01-01T00:00:00Z'' []) (idle initial_db 0) = (Inr (), s1)
     \<and> Heartbeat ''web'' 3 True [] False (calm ''2024-01-02T00:00:00Z'' []) s1 = (r, s2) \<and> resync_pending (committed s2) ''web''"
proof -
  obtain s1 where s1: "RequestResync ''web'' (calm ''2024-01-01T00:00:00Z'' []) (idle initial_db 0) = (Inr (), s1)"
    by (rule RequestResync_succeeds [OF _ calm_not_faulty sample_host]) auto
  obtain r s2 where s2: "Heartbeat ''web'' 3 True [] False (calm ''2024-01-02T00:00:00Z'' []) s1 = (r, s2)"
    by (cases "Heartbeat ''web'' 3 True [] False (calm ''2024-01-02T00:00:00Z'' []) s1")
  show ?thesis using resync_flag_cleared [OF _ s1 s2, THEN conjunct2] s1 s2 by auto
qed

section \<open>Tokens\<close>

lemma token_host_iff:
  assumes "hosts_inv db"
  shows "token_host db tok = Some h \<longleftrightarrow> (\<exists>t \<in> set (host_tokens db). t_hash t = token_digest tok \<and> t_host t = h)"
proof
  assume "\<exists>t \<in> set (host_tokens db). t_hash t = token_digest tok \<and> t_host t = h"
  then obtain t where t: "t \<in> set (host_tokens db)" "t_hash t = token_digest tok" "t_host t = h" by blast
  then have "first_row (\<lambda>w. t_hash w = token_digest tok) (host_tokens db) = Some t"
    using assms distinct_map_unique [of t_hash "host_tokens db"] by (intro first_row_unique) (auto simp: hosts_inv_def)
  then show "token_host db tok = Some h" using t by (simp add: token_host_def)
qed (auto simp: token_host_def dest!: first_row_Some)

lemma token_host_none:
  assumes "hosts_inv db"
  shows "token_host db tok = None \<longleftrightarrow> (\<forall>t \<in> set (host_tokens db). t_hash t \<noteq> token_digest tok)"
  using token_host_iff [OF assms, of tok] by (cases "token_host db tok") auto

text \<open>Two databases whose tokens with the digest differ only in those of one host.\<close>

lemma token_host_without:
  assumes inv: "hosts_inv db" "hosts_inv db'"
    and mem: "\<And>t. t_hash t = token_digest tok \<Longrightarrow> t \<in> set (host_tokens db') \<longleftrightarrow> t \<in> set (host_tokens db) \<and> t_host t \<noteq> host"
  shows "token_host db' tok = (if token_host db tok = Some host then None else token_host db tok)"
proof (cases "token_host db tok")
  case None
  then have "token_host db' tok = None" using mem unfolding token_host_none [OF inv(1)] token_host_none [OF inv(2)] by blast
  with None show ?thesis by simp
next
  case (Some h)
  then obtain t where t: "t \<in> set (host_tokens db)" "t_hash t = token_digest tok" "t_host t = h"
    using token_host_iff [OF inv(1)] by blast
  have uniq: "u = t" if "u \<in> set (host_tokens db)" "t_hash u = token_digest tok" for u
    using inv(1) that t distinct_map_unique [of t_hash "host_tokens db" u t] by (simp add: hosts_inv_def)
  show ?thesis
  proof (cases "h = host")
    case True
    then have "token_host db' tok = None" using mem uniq t unfolding token_host_none [OF inv(2)] by blast
    with True Some show ?thesis by simp
  next
    case False
    then have "token_host db' tok = Some h" using mem t unfolding token_host_iff [OF inv(2)] by blast
    with False Some show ?thesis by simp
  qed
qed

lemma length_token_digest [simp]: "length (token_digest tok) = 64"
  by (simp add: token_digest_def)

lemma IssueHostToken_run:
  assumes "\<not> busy s" "hosts_inv (committed s)" "clock_reads e" "IssueHostToken host e s = (Inr tok, s')"
  shows "\<not> busy s'" "hosts_inv (committed s')" "valid_ident host" "token_host (committed s') tok = Some host"
    and "\<exists>n raw. entropy e n = Inr raw \<and> tok = hex_encode raw"
    and "\<exists>at. host_tokens (committed s') = upsert t_host \<lparr>t_host = host, t_hash = token_digest tok, t_created = at\<rparr> (host_tokens (committed s))"
    and "resync_requests (committed s') = resync_requests (committed s)"
proof -
  obtain n k raw where run: "\<not> busy s'" "valid_ident host" "entropy e k = Inr raw" "tok = hex_encode raw"
    "upsert_token \<lparr>t_host = host, t_hash = token_digest tok, t_created = clock_at e n\<rparr> (committed s) = Inr ((), committed s')"
    using wp_IssueHostToken [OF assms(1), of host e] assms(4) by (auto simp: wp_def)
  then show "\<not> busy s'" "valid_ident host" "\<exists>n raw. entropy e n = Inr raw \<and> tok = hex_encode raw" by auto
  from hosts_inv_token [OF assms(2) _ _ _ run(5)] run(2) assms(3)
  have t: "hosts_inv (committed s')" "committed s' = (committed s)\<lparr>host_tokens := upsert t_host
      \<lparr>t_host = host, t_hash = token_digest tok, t_created = clock_at e n\<rparr> (host_tokens (committed s))\<rparr>"
    by (simp_all add: clock_reads_def)
  show inv': "hosts_inv (committed s')" by (rule t(1))
  have "\<lparr>t_host = host, t_hash = token_digest tok, t_created = clock_at e n\<rparr> \<in> set (host_tokens (committed s'))"
    using assms(2) by (subst t(2)) (simp add: upsert_set hosts_inv_def)
  then show "token_host (committed s') tok = Some host"
    unfolding token_host_iff [OF inv'] by force
  show "\<exists>at. host_tokens (committed s') = upsert t_host \<lparr>t_host = host, t_hash = token_digest tok, t_created = at\<rparr> (host_tokens (committed s))"
    "resync_requests (committed s') = resync_requests (committed s)"
    by (subst t(2), force)+
qed

text \<open>C33: Issuing a token rotates it.  The token returned is the hexadecimal form of the random bytes and
  from then on resolves to its host; every other token resolves as before, except that the token the host
  had until then no longer resolves to anything.\<close>

theorem IssueHostToken_rotates:
  assumes "\<not> busy s" "hosts_inv (committed s)" "clock_reads e" "IssueHostToken host e s = (Inr tok, s')"
  shows "token_host (committed s') tok = Some host
    \<and> (\<forall>tok'. token_digest tok' \<noteq> token_digest tok \<longrightarrow>
      token_host (committed s') tok' =
        (if token_host (committed s) tok' = Some host then None else token_host (committed s) tok'))
    \<and> (\<exists>n raw. entropy e n = Inr raw \<and> tok = hex_encode raw)"
proof (intro conjI)
  note run = IssueHostToken_run [OF assms]
  obtain at where ts: "host_tokens (committed s') = upsert t_host \<lparr>t_host = host, t_hash = token_digest tok, t_created = at\<rparr> (host_tokens (committed s))"
    using run(6) by blast
  have mem: "t \<in> set (host_tokens (committed s')) \<longleftrightarrow>
      t = \<lparr>t_host = host, t_hash = token_digest tok, t_created = at\<rparr> \<or> t \<in> set (host_tokens (committed s)) \<and> t_host t \<noteq> host" for t
    using assms(2) upsert_set [of t_host "host_tokens (committed s)" t] by (simp add: ts hosts_inv_def)
  show "token_host (committed s') tok = Some host" by (rule run(4))
  show "\<forall>tok'. token_digest tok' \<noteq> token_digest tok \<longrightarrow>
      token_host (committed s') tok' =
        (if token_host (committed s) tok' = Some host then None else token_host (committed s) tok')"
    by (intro allI impI token_host_without [OF assms(2) run(2)]) (auto simp: mem)
  show "\<exists>n raw. entropy e n = Inr raw \<and> tok = hex_encode raw" by (rule run(5))
qed

lemma IssueHostToken_first:
  assumes "\<not> busy s" "\<not> faulty e" "valid_ident host" "host_tokens (committed s) = []"
  obtains tok s' where "IssueHostToken host e s = (Inr tok, s')"
  using wp_IssueHostToken [OF assms(1), of host e] assms(2-4)
  by (cases "IssueHostToken host e s"; cases "fst (IssueHostToken host e s)") (auto simp: wp_def valid_host)

lemma calm_clock_reads: "t \<noteq> [] \<Longrightarrow> clock_reads (calm t bs)"
  by (simp add: clock_reads_def calm_def)

theorem IssueHostToken_rotates_witness:
  "\<exists>tok s'. IssueHostToken ''web'' (calm ''2024-01-01T00:00:00Z'' ''r'') (idle initial_db 0) = (Inr tok, s')
     \<and> token_host (committed s') tok = Some ''web''"
proof -
  obtain tok s' where run: "IssueHostToken ''web'' (calm ''2024-01-01T00:00:00Z'' ''r'') (idle initial_db 0) = (Inr tok, s')"
    by (rule IssueHostToken_first [OF _ calm_not_faulty sample_host]) (auto simp: initial_db_def)
  show ?thesis
    using IssueHostToken_rotates [OF _ _ calm_clock_reads run, THEN conjunct1] run hosts_inv_initial by auto
qed

text \<open>C34: Revoking a token ends it.  After a successful revocation no token resolves to the host, every
  token of another host resolves as before, and revoking again without a failure of the database is
  \<open>ErrNotFound\<close> and changes nothing.\<close>

theorem RevokeHostToken_ends:
  assumes "\<not> busy s" "hosts_inv (committed s)" "RevokeHostToken host e s = (Inr (), s')"
  shows "(\<forall>tok. token_host (committed s') tok =
        (if token_host (committed s) tok = Some host then None else token_host (committed s) tok))
    \<and> (\<not> faulty e' \<longrightarrow> (\<exists>s''. RevokeHostToken host e' s' = (Inl (no_token host), s'') \<and> committed s'' = committed s'))"
proof (intro conjI impI)
  have run: "\<not> busy s'" "valid_ident host"
    "committed s' = (committed s)\<lparr>host_tokens := filter (\<lambda>t. t_host t \<noteq> host) (host_tokens (committed s))\<rparr>"
    using wp_RevokeHostToken [OF assms(1), of host e] assms(3) by (auto simp: wp_def)
  have inv': "hosts_inv (committed s')" unfolding run(3) by (rule hosts_inv_drop(2) [OF assms(2)])
  have mem: "set (host_tokens (committed s')) = {t \<in> set (host_tokens (committed s)). t_host t \<noteq> host}"
    by (auto simp: run(3))
  show "\<forall>tok. token_host (committed s') tok =
        (if token_host (committed s) tok = Some host then None else token_host (committed s) tok)"
    by (intro allI token_host_without [OF assms(2) inv']) (simp add: mem)
  have gone: "host \<notin> t_host ` set (host_tokens (committed s'))" by (auto simp: run(3))
  show "\<exists>s''. RevokeHostToken host e' s' = (Inl (no_token host), s'') \<and> committed s'' = committed s'" if "\<not> faulty e'"
    using wp_RevokeHostToken [OF run(1), of host e'] gone that run(2)
    by (cases "RevokeHostToken host e' s'"; cases "fst (RevokeHostToken host e' s')") (auto simp: wp_def valid_host)
qed

theorem RevokeHostToken_ends_witness:
  "\<exists>tok s1 s2. IssueHostToken ''web'' (calm ''2024-01-01T00:00:00Z'' ''r'') (idle initial_db 0) = (Inr tok, s1)
     \<and> RevokeHostToken ''web'' (calm [] []) s1 = (Inr (), s2) \<and> token_host (committed s2) tok = None"
proof -
  obtain tok s1 where run: "IssueHostToken ''web'' (calm ''2024-01-01T00:00:00Z'' ''r'') (idle initial_db 0) = (Inr tok, s1)"
    by (rule IssueHostToken_first [OF _ calm_not_faulty sample_host]) (auto simp: initial_db_def)
  note i = IssueHostToken_run [OF _ _ calm_clock_reads run]
  have s1: "\<not> busy s1" "hosts_inv (committed s1)" "''web'' \<in> t_host ` set (host_tokens (committed s1))"
    using i(1,2,6) hosts_inv_initial by (auto simp: upsert_keys)
  have "fst (RevokeHostToken ''web'' (calm [] []) s1) = Inr ()"
    using wp_RevokeHostToken [OF s1(1), of "''web''" "calm [] []"] s1(3) sample_host
    by (auto simp: wp_def valid_host split: prod.splits sum.splits)
  then obtain s2 where s2: "RevokeHostToken ''web'' (calm [] []) s1 = (Inr (), s2)" by (metis prod.collapse)
  have "token_host (committed s2) tok = None \<or> token_host (committed s2) tok = token_host (committed s1) tok
          \<and> token_host (committed s1) tok \<noteq> Some ''web''"
    using RevokeHostToken_ends [OF s1(1,2) s2, THEN conjunct1] by simp
  moreover have "token_host (committed s1) tok = Some ''web''" using i(4) hosts_inv_initial by simp
  ultimately show ?thesis using run s2 by auto
qed

section \<open>The fleet\<close>

text \<open>A column of the row a host has in one of the tables, or the \<open>COALESCE\<close> default.\<close>

lemma column_value:
  assumes "distinct (map key rs)"
  shows "r \<in> set rs \<Longrightarrow> key r = k \<Longrightarrow> coalesce (map_option col (first_row (\<lambda>w. key w = k) rs)) d = col r"
    and "k \<notin> key ` set rs \<Longrightarrow> coalesce (map_option col (first_row (\<lambda>w. key w = k) rs)) d = d"
proof -
  assume "r \<in> set rs" "key r = k"
  then have "first_row (\<lambda>w. key w = k) rs = Some r"
    using assms distinct_map_unique [of key rs] by (intro first_row_unique) auto
  then show "coalesce (map_option col (first_row (\<lambda>w. key w = k) rs)) d = col r" by simp
next
  assume "k \<notin> key ` set rs"
  then have "first_row (\<lambda>w. key w = k) rs = None" by auto
  then show "coalesce (map_option col (first_row (\<lambda>w. key w = k) rs)) d = d" by (simp only: option.map coalesce.simps)
qed

lemma column_nonempty:
  assumes "\<forall>r \<in> set rs. col r \<noteq> []"
  shows "coalesce (map_option col (first_row (\<lambda>r. key r = k) rs)) [] \<noteq> [] \<longleftrightarrow> k \<in> key ` set rs"
proof (cases "first_row (\<lambda>r. key r = k) rs")
  case None
  then have "k \<notin> key ` set rs" by auto
  then show ?thesis by (simp only: None option.map coalesce.simps) simp
next
  case (Some r)
  then show ?thesis using assms first_row_Some [OF Some] by auto
qed

text \<open>The columns of a host, from its rows or, where it has none, zero.\<close>

lemma host_columns:
  assumes "hosts_inv db"
  shows "h \<in> set (heartbeats db) \<Longrightarrow> h_host h = k \<Longrightarrow>
      hs_release (host_status_of db k) = h_release h \<and> hs_ok (host_status_of db k) = (h_ok h = 1)
      \<and> hs_error (host_status_of db k) = h_error h \<and> hs_seen (host_status_of db k) = h_seen h"
    and "k \<notin> h_host ` set (heartbeats db) \<Longrightarrow>
      hs_release (host_status_of db k) = 0 \<and> \<not> hs_ok (host_status_of db k)
      \<and> hs_error (host_status_of db k) = [] \<and> hs_seen (host_status_of db k) = []"
    and "q \<in> set (resync_requests db) \<Longrightarrow> q_host q = k \<Longrightarrow> hs_resync_at (host_status_of db k) = q_requested q"
    and "k \<notin> q_host ` set (resync_requests db) \<Longrightarrow> hs_resync_at (host_status_of db k) = []"
    and "t \<in> set (host_tokens db) \<Longrightarrow> t_host t = k \<Longrightarrow> hs_token_at (host_status_of db k) = t_created t"
    and "k \<notin> t_host ` set (host_tokens db) \<Longrightarrow> hs_token_at (host_status_of db k) = []"
proof -
  have d: "distinct (map h_host (heartbeats db))" "distinct (map q_host (resync_requests db))"
      "distinct (map t_host (host_tokens db))" and ok: "\<forall>h \<in> set (heartbeats db). h_ok h \<in> {0, 1}"
    using assms by (simp_all add: hosts_inv_def)
  note cols = host_status_of_def Let_def host_status.simps
  show "hs_release (host_status_of db k) = h_release h \<and> hs_ok (host_status_of db k) = (h_ok h = 1)
      \<and> hs_error (host_status_of db k) = h_error h \<and> hs_seen (host_status_of db k) = h_seen h"
    if "h \<in> set (heartbeats db)" "h_host h = k"
    using ok that by (auto simp only: cols column_value(1) [OF d(1) that])
  show "hs_release (host_status_of db k) = 0 \<and> \<not> hs_ok (host_status_of db k)
      \<and> hs_error (host_status_of db k) = [] \<and> hs_seen (host_status_of db k) = []"
    if "k \<notin> h_host ` set (heartbeats db)"
    by (simp only: cols column_value(2) [OF d(1) that]) simp
  show "hs_resync_at (host_status_of db k) = q_requested q" if "q \<in> set (resync_requests db)" "q_host q = k"
    by (simp only: cols column_value(1) [OF d(2) that])
  show "hs_resync_at (host_status_of db k) = []" if "k \<notin> q_host ` set (resync_requests db)"
    by (simp only: cols column_value(2) [OF d(2) that])
  show "hs_token_at (host_status_of db k) = t_created t" if "t \<in> set (host_tokens db)" "t_host t = k"
    by (simp only: cols column_value(1) [OF d(3) that])
  show "hs_token_at (host_status_of db k) = []" if "k \<notin> t_host ` set (host_tokens db)"
    by (simp only: cols column_value(2) [OF d(3) that])
qed

text \<open>C37: The fleet page shows every known host once, with what is stored of it.  \<open>ListHosts\<close> returns one
  entry per host that has a heartbeat, a pending resync or a token, in the order of the names.  An entry has
  the release, outcome, error and time of the host's heartbeat; of a host that never sent one it has release
  0, not ok, no error and no time.  It has the time of the pending resync and the time the token was issued,
  each empty exactly when there is none.\<close>

theorem ListHosts_union:
  assumes "\<not> busy s" "hosts_inv (committed s)" "ListHosts e s = (Inr hs, s')"
  shows "sorted (map hs_host hs)
    \<and> distinct (map hs_host hs)
    \<and> set (map hs_host hs) = h_host ` set (heartbeats (committed s)) \<union> q_host ` set (resync_requests (committed s))
           \<union> t_host ` set (host_tokens (committed s))
    \<and> (\<forall>x \<in> set hs. (hs_seen x \<noteq> [] \<longleftrightarrow> hs_host x \<in> h_host ` set (heartbeats (committed s)))
           \<and> (hs_resync_at x \<noteq> [] \<longleftrightarrow> resync_pending (committed s) (hs_host x))
           \<and> (hs_token_at x \<noteq> [] \<longleftrightarrow> hs_host x \<in> t_host ` set (host_tokens (committed s)))
           \<and> (\<forall>h \<in> set (heartbeats (committed s)). h_host h = hs_host x \<longrightarrow>
                hs_release x = h_release h \<and> hs_ok x = (h_ok h = 1) \<and> hs_error x = h_error h \<and> hs_seen x = h_seen h)
           \<and> (hs_host x \<notin> h_host ` set (heartbeats (committed s)) \<longrightarrow>
                hs_release x = 0 \<and> \<not> hs_ok x \<and> hs_error x = [] \<and> hs_seen x = [])
           \<and> (\<forall>q \<in> set (resync_requests (committed s)). q_host q = hs_host x \<longrightarrow> hs_resync_at x = q_requested q)
           \<and> (\<forall>t \<in> set (host_tokens (committed s)). t_host t = hs_host x \<longrightarrow> hs_token_at x = t_created t))"
proof (intro conjI)
  let ?db = "committed s"
  have "wp ListHosts (\<lambda>_ _. True) (\<lambda>r s'. r = map (host_status_of ?db) (known_hosts ?db)) e s"
    unfolding ListHosts_def by (intro wp_intros) (auto simp: assms(1))
  then have hs: "hs = map (host_status_of ?db) (known_hosts ?db)" using assms(3) by (simp add: wp_def)
  have host [simp]: "hs_host (host_status_of ?db h) = h" for h by (simp add: host_status_of_def Let_def)
  have names: "map hs_host hs = known_hosts ?db" by (simp add: hs o_def)
  show "sorted (map hs_host hs)" "distinct (map hs_host hs)" by (simp_all add: names known_hosts_def)
  show "set (map hs_host hs) = h_host ` set (heartbeats ?db) \<union> q_host ` set (resync_requests ?db) \<union> t_host ` set (host_tokens ?db)"
    by (simp add: names known_hosts_def Un_assoc)
  note c = host_columns [OF assms(2)]
  have inv: "\<forall>h \<in> set (heartbeats ?db). h_seen h \<noteq> []" "\<forall>q \<in> set (resync_requests ?db). q_requested q \<noteq> []"
    "\<forall>t \<in> set (host_tokens ?db). t_created t \<noteq> []"
    using assms(2) by (simp_all add: hosts_inv_def)
  have "hs_seen (host_status_of ?db k) \<noteq> [] \<longleftrightarrow> k \<in> h_host ` set (heartbeats ?db)"
    "hs_resync_at (host_status_of ?db k) \<noteq> [] \<longleftrightarrow> k \<in> q_host ` set (resync_requests ?db)"
    "hs_token_at (host_status_of ?db k) \<noteq> [] \<longleftrightarrow> k \<in> t_host ` set (host_tokens ?db)" for k
    using column_nonempty [OF inv(1), of h_host k] column_nonempty [OF inv(2), of q_host k]
      column_nonempty [OF inv(3), of t_host k]
    by (simp_all only: host_status_of_def Let_def host_status.simps)
  then show "\<forall>x \<in> set hs. (hs_seen x \<noteq> [] \<longleftrightarrow> hs_host x \<in> h_host ` set (heartbeats ?db))
       \<and> (hs_resync_at x \<noteq> [] \<longleftrightarrow> resync_pending ?db (hs_host x))
       \<and> (hs_token_at x \<noteq> [] \<longleftrightarrow> hs_host x \<in> t_host ` set (host_tokens ?db))
       \<and> (\<forall>h \<in> set (heartbeats ?db). h_host h = hs_host x \<longrightarrow>
            hs_release x = h_release h \<and> hs_ok x = (h_ok h = 1) \<and> hs_error x = h_error h \<and> hs_seen x = h_seen h)
       \<and> (hs_host x \<notin> h_host ` set (heartbeats ?db) \<longrightarrow>
            hs_release x = 0 \<and> \<not> hs_ok x \<and> hs_error x = [] \<and> hs_seen x = [])
       \<and> (\<forall>q \<in> set (resync_requests ?db). q_host q = hs_host x \<longrightarrow> hs_resync_at x = q_requested q)
       \<and> (\<forall>t \<in> set (host_tokens ?db). t_host t = hs_host x \<longrightarrow> hs_token_at x = t_created t)"
    using c by (simp add: hs resync_pending_iff)
qed

theorem ListHosts_union_witness:
  "\<exists>s1 hs s2. RequestResync ''web'' (calm ''2024-01-01T00:00:00Z'' []) (idle initial_db 0) = (Inr (), s1)
     \<and> ListHosts (calm [] []) s1 = (Inr hs, s2)
     \<and> (\<exists>x \<in> set hs. hs_host x = ''web'' \<and> hs_release x = 0 \<and> \<not> hs_ok x \<and> hs_error x = [] \<and> hs_seen x = []
          \<and> hs_resync_at x = ''2024-01-01T00:00:00Z'' \<and> hs_token_at x = [])"
proof -
  obtain s1 where s1: "RequestResync ''web'' (calm ''2024-01-01T00:00:00Z'' []) (idle initial_db 0) = (Inr (), s1)"
    by (rule RequestResync_succeeds [OF _ calm_not_faulty sample_host]) auto
  obtain n where c: "\<not> busy s1" "committed s1 = initial_db\<lparr>resync_requests :=
      upsert q_host \<lparr>q_host = ''web'', q_requested = clock_at (calm ''2024-01-01T00:00:00Z'' []) n\<rparr> (resync_requests initial_db)\<rparr>"
    using wp_RequestResync [of "idle initial_db 0" "''web''" "calm ''2024-01-01T00:00:00Z'' []"] s1 by (auto simp: wp_def)
  have inv: "hosts_inv (committed s1)"
    unfolding c(2) by (rule hosts_inv_resync [OF hosts_inv_initial]) (auto simp: sample_host calm_def)
  have "wp ListHosts (\<lambda>_ _. False) (\<lambda>_ _. True) (calm [] []) s1"
    unfolding ListHosts_def by (intro wp_intros) (auto simp: c(1))
  then obtain hs s2 where s2: "ListHosts (calm [] []) s1 = (Inr hs, s2)" by (rule wp_elim) auto
  note u = ListHosts_union [OF c(1) inv s2]
  have "''web'' \<in> set (map hs_host hs)"
    unfolding u [THEN conjunct2, THEN conjunct2, THEN conjunct1] by (simp add: c(2) upsert_keys)
  then obtain x where x: "x \<in> set hs" "hs_host x = ''web''" by auto
  have "resync_requests (committed s1) = [\<lparr>q_host = ''web'', q_requested = ''2024-01-01T00:00:00Z''\<rparr>]"
      "heartbeats (committed s1) = []" "host_tokens (committed s1) = []"
    by (simp_all add: c(2) upsert_def initial_db_def calm_def)
  then have "hs_release x = 0 \<and> \<not> hs_ok x \<and> hs_error x = [] \<and> hs_seen x = []
      \<and> hs_resync_at x = ''2024-01-01T00:00:00Z'' \<and> hs_token_at x = []"
    using u [THEN conjunct2, THEN conjunct2, THEN conjunct2, rule_format, OF x(1)] x(2) by simp
  with s1 s2 x show ?thesis by blast
qed

end
