(* ===== verification/GoPath.thy ===== *)
theory GoPath
  imports GoStrings
begin

text \<open>
  \<open>path/filepath\<close> on Unix as the subscriber uses it: \<open>Clean\<close>, \<open>Join\<close>, \<open>Dir\<close>,
  \<open>Base\<close> and \<open>IsAbs\<close>, and the key under which the file system holds the node a
  path names.  The key is the list of components of the cleaned path, marked when it is
  absolute.
\<close>

section \<open>Definitions\<close>

definition is_abs :: "string \<Rightarrow> bool" where
  "is_abs p = has_prefix p ''/''"

text \<open>The components that \<open>Clean\<close> keeps or resolves: empty ones and \<open>.\<close> are dropped.\<close>

definition comps :: "string \<Rightarrow> string list" where
  "comps p = filter (\<lambda>c. c \<noteq> [] \<and> c \<noteq> ''.'') (split_on (CHR ''/'') p)"

text \<open>One component against the stack of those kept so far, the last one first.\<close>

definition clean_step :: "bool \<Rightarrow> string list \<Rightarrow> string \<Rightarrow> string list" where
  "clean_step rooted st c =
     (if c \<noteq> ''..'' then c # st
      else (case st of
              [] \<Rightarrow> if rooted then [] else [c]
            | d # ds \<Rightarrow> if d = ''..'' then c # st else ds))"

definition clean_comps :: "bool \<Rightarrow> string list \<Rightarrow> string list" where
  "clean_comps rooted cs = rev (foldl (clean_step rooted) [] cs)"

definition render :: "bool \<Rightarrow> string list \<Rightarrow> string" where
  "render rooted cs =
     (if rooted then CHR ''/'' # join ''/'' cs else if cs = [] then ''.'' else join ''/'' cs)"

definition Clean :: "string \<Rightarrow> string" where
  "Clean p = render (is_abs p) (clean_comps (is_abs p) (comps p))"

definition path_join :: "string list \<Rightarrow> string" where
  "path_join es = (case dropWhile (\<lambda>e. e = []) es of [] \<Rightarrow> [] | es' \<Rightarrow> Clean (join ''/'' es'))"

definition path_dir :: "string \<Rightarrow> string" where
  "path_dir p = Clean (rev (dropWhile (\<lambda>c. c \<noteq> CHR ''/'') (rev p)))"

definition path_base :: "string \<Rightarrow> string" where
  "path_base p =
     (if p = [] then ''.''
      else (let q = rev (dropWhile (\<lambda>c. c = CHR ''/'') (rev p)) in
            if q = [] then ''/'' else rev (takeWhile (\<lambda>c. c \<noteq> CHR ''/'') (rev q))))"

definition path_key :: "string \<Rightarrow> string list" where
  "path_key p = (if is_abs p then [''/''] else []) @ clean_comps (is_abs p) (comps p)"

section \<open>Components\<close>

definition proper :: "string \<Rightarrow> bool" where
  "proper c \<longleftrightarrow> c \<noteq> [] \<and> c \<noteq> ''.'' \<and> CHR ''/'' \<notin> set c"

lemma comps_proper: "c \<in> set (comps p) \<Longrightarrow> proper c"
  by (auto simp: comps_def proper_def dest: split_on_member_free)

lemma split_on_snoc: "split_on d (a @ d # b) = split_on d a @ split_on d b"
  by (induction a) (auto split: list.splits)

lemma comps_append: "comps (a @ CHR ''/'' # b) = comps a @ comps b"
  by (simp add: comps_def split_on_snoc)

lemma comps_join:
  assumes "\<forall>c \<in> set cs. proper c"
  shows "comps (join ''/'' cs) = cs"
proof (cases "cs = []")
  case False
  then have "split_on (CHR ''/'') (join ''/'' cs) = cs"
    using assms by (intro split_on_join) (auto simp: proper_def)
  then show ?thesis using assms by (simp add: comps_def filter_True proper_def)
qed (simp add: comps_def)

lemma comps_simps [simp]: "comps [] = []" "comps ''.'' = []" "comps (CHR ''/'' # p) = comps p"
  using comps_append [of "[]" p] by (simp_all add: comps_def)

lemma comps_single: "proper c \<Longrightarrow> comps c = [c]"
  using comps_join [of "[c]"] by simp

section \<open>Cleaning\<close>

text \<open>What cleaning leaves: leading \<open>..\<close> only, and none in an absolute path.\<close>

definition canonical :: "bool \<Rightarrow> string list \<Rightarrow> bool" where
  "canonical rooted cs \<longleftrightarrow>
     (\<exists>k names. cs = replicate k ''..'' @ names \<and> ''..'' \<notin> set names \<and> (rooted \<longrightarrow> k = 0))"

lemma clean_push: "''..'' \<notin> set cs \<Longrightarrow> foldl (clean_step r) st cs = rev cs @ st"
  by (induction cs arbitrary: st) (auto simp: clean_step_def)

lemma clean_step_canonical:
  assumes "canonical r (rev st)"
  shows "canonical r (rev (clean_step r st c))"
proof -
  obtain k names where st: "rev st = replicate k ''..'' @ names" "''..'' \<notin> set names" "r \<longrightarrow> k = 0"
    using assms by (auto simp: canonical_def)
  show ?thesis
  proof (cases "c = ''..''")
    case False
    then have "rev (clean_step r st c) = replicate k ''..'' @ (names @ [c])" using st(1) by (simp add: clean_step_def)
    then show ?thesis using st(2,3) False unfolding canonical_def by (intro exI [of _ k] exI [of _ "names @ [c]"]) auto
  next
    case True
    show ?thesis
    proof (cases names rule: rev_cases)
      case Nil
      then have eq: "st = replicate k ''..''" using st(1) by (metis append_Nil2 rev_replicate rev_rev_ident)
      have "rev (clean_step r st c) = (if r then [] else replicate (Suc k) ''..'')"
        using st(3) by (cases k) (auto simp: eq True clean_step_def replicate_append_same)
      then show ?thesis unfolding canonical_def by (cases r) (auto intro: exI [of _ 0] exI [of _ "Suc k"])
    next
      case (snoc ns d)
      then have "st = d # rev ns @ replicate k ''..''" using st(1) by (metis append.assoc rev.simps(2) rev_append rev_replicate rev_rev_ident append_Cons append_Nil)
      moreover have "d \<noteq> ''..''" using st(2) snoc by auto
      ultimately have "rev (clean_step r st c) = replicate k ''..'' @ ns" using True by (simp add: clean_step_def)
      then show ?thesis using st(2,3) snoc unfolding canonical_def by (intro exI [of _ k] exI [of _ ns]) auto
    qed
  qed
qed

lemma clean_comps_canonical: "canonical r (clean_comps r cs)"
proof -
  have "canonical r (rev (foldl (clean_step r) st cs))" if "canonical r (rev st)" for st
    using that by (induction cs arbitrary: st) (auto intro: clean_step_canonical)
  moreover have "canonical r []" by (auto simp: canonical_def)
  ultimately show ?thesis by (simp add: clean_comps_def)
qed

lemma clean_dots: "foldl (clean_step False) (replicate j ''..'') (replicate k ''..'') = replicate (j + k) ''..''"
proof (induction k arbitrary: j)
  case (Suc k)
  have "clean_step False (replicate j ''..'') ''..'' = replicate (Suc j) ''..''"
    by (cases j) (auto simp: clean_step_def)
  then show ?case using Suc.IH [of "Suc j"] by simp
qed simp

lemma clean_comps_idem:
  assumes "canonical r cs"
  shows "clean_comps r cs = cs"
proof -
  obtain k names where cs: "cs = replicate k ''..'' @ names" "''..'' \<notin> set names" "r \<longrightarrow> k = 0"
    using assms by (auto simp: canonical_def)
  have "foldl (clean_step r) [] (replicate k ''..'') = replicate k ''..''"
    using cs(3) clean_dots [of 0 k] by (cases r) auto
  then show ?thesis by (simp add: clean_comps_def cs(1) clean_push [OF cs(2)])
qed

lemma clean_comps_append: "''..'' \<notin> set ds \<Longrightarrow> clean_comps r (cs @ ds) = clean_comps r cs @ ds"
  by (simp add: clean_comps_def clean_push)

lemma clean_comps_subset: "set (clean_comps r cs) \<subseteq> set cs"
proof -
  have "set (foldl (clean_step r) st cs) \<subseteq> set st \<union> set cs" for st
    by (induction cs arbitrary: st) (force simp: clean_step_def split: list.splits if_splits)+
  from this [of "[]"] show ?thesis by (simp add: clean_comps_def)
qed

lemma clean_comps_proper: "c \<in> set (clean_comps r (comps p)) \<Longrightarrow> proper c"
  using clean_comps_subset comps_proper by blast

lemma comps_render: "\<forall>c \<in> set cs. proper c \<Longrightarrow> comps (render r cs) = cs"
  by (simp add: render_def comps_join)

lemma join_not_abs: "cs \<noteq> [] \<Longrightarrow> \<forall>c \<in> set cs. proper c \<Longrightarrow> \<not> is_abs (join ''/'' cs)"
proof -
  assume "cs \<noteq> []" and p: "\<forall>c \<in> set cs. proper c"
  then obtain c ds where cs: "cs = c # ds" by (cases cs) auto
  then obtain x w where c: "c = x # w" "x \<noteq> CHR ''/''" using p by (cases c) (auto simp: proper_def)
  then have "\<exists>t. join ''/'' cs = x # t" by (cases ds) (auto simp: cs)
  then show ?thesis using c(2) by (auto simp: is_abs_def)
qed

lemma is_abs_render: "\<forall>c \<in> set cs. proper c \<Longrightarrow> is_abs (render r cs) = r"
  using join_not_abs [of cs] by (auto simp: render_def is_abs_def)

lemma path_key_Clean [simp]: "path_key (Clean p) = path_key p"
  by (simp add: path_key_def Clean_def is_abs_render comps_render clean_comps_proper
      clean_comps_idem clean_comps_canonical)

lemma Clean_idem: "Clean (Clean p) = Clean p"
  by (simp add: Clean_def is_abs_render comps_render clean_comps_proper clean_comps_idem clean_comps_canonical)

section \<open>Joining\<close>

lemma path_join_two: "a \<noteq> [] \<Longrightarrow> path_join [a, b] = Clean (a @ CHR ''/'' # b)"
  by (simp add: path_join_def)

lemma is_abs_append: "a \<noteq> [] \<Longrightarrow> is_abs (a @ b) = is_abs a"
  by (cases a) (auto simp: is_abs_def)

lemma path_key_join:
  assumes "a \<noteq> []" "''..'' \<notin> set (comps b)"
  shows "path_key (path_join [a, b]) = path_key a @ comps b"
  using assms by (simp add: path_join_two path_key_def [of "a @ _"] path_key_def [of a] is_abs_append comps_append clean_comps_append)

section \<open>The directory of a path\<close>

lemma canonical_butlast: "canonical r (cs @ [c]) \<Longrightarrow> canonical r cs"
proof -
  assume "canonical r (cs @ [c])"
  then obtain k names where k: "cs @ [c] = replicate k ''..'' @ names" "''..'' \<notin> set names" "r \<longrightarrow> k = 0"
    by (auto simp: canonical_def)
  show ?thesis
  proof (cases names rule: rev_cases)
    case Nil
    then have "cs = replicate (k - 1) ''..''"
      using k(1) replicate_append_same [of "k - 1" "''..''"] by (cases k) (simp_all, metis append1_eq_conv)
    then show ?thesis using k(3) unfolding canonical_def by (intro exI [of _ "k - 1"] exI [of _ "[]"]) auto
  next
    case (snoc ns d)
    then have "cs = replicate k ''..'' @ ns" using k(1) by (metis append.assoc butlast_snoc)
    then show ?thesis using k(2,3) snoc unfolding canonical_def by (intro exI [of _ k] exI [of _ ns]) auto
  qed
qed

lemma drop_last_component: "CHR ''/'' \<notin> set c \<Longrightarrow> rev (dropWhile (\<lambda>x. x \<noteq> CHR ''/'') (rev (a @ CHR ''/'' # c))) = a @ ''/''"
proof -
  assume c: "CHR ''/'' \<notin> set c"
  have "dropWhile (\<lambda>x. x \<noteq> CHR ''/'') (rev c @ CHR ''/'' # rev a) = CHR ''/'' # rev a"
    using c by (subst dropWhile_append2) auto
  then show ?thesis by simp
qed

lemma render_snoc:
  "render r (cs @ [c]) = (if cs = [] then (if r then ''/'' else []) @ c else render r cs @ CHR ''/'' # c)"
proof -
  have "join ''/'' (cs @ [c]) = join ''/'' cs @ CHR ''/'' # c" if "cs \<noteq> []"
    using that by (induction "''/''" cs rule: join.induct) auto
  then show ?thesis by (auto simp: render_def)
qed

lemma path_key_of_comps:
  assumes "\<forall>c \<in> set cs. proper c" "canonical (is_abs p) cs" "comps p = cs"
  shows "path_key p = (if is_abs p then [''/''] else []) @ cs"
  using assms by (simp add: path_key_def clean_comps_idem)

lemma path_key_dir:
  assumes p: "\<forall>c \<in> set cs. proper c" and can: "canonical r (cs @ [c])" "proper c"
  shows "path_key (path_dir (render r (cs @ [c]))) = (if r then [''/''] else []) @ cs"
proof (cases "cs = []")
  case True
  have "rev (dropWhile (\<lambda>x. x \<noteq> CHR ''/'') (rev (render r [c]))) = (if r then ''/'' else [])"
    using drop_last_component [of c "[]"] can(2) by (simp add: render_def proper_def dropWhile_eq_Nil_conv) blast
  then show ?thesis using True by (simp add: path_dir_def) (auto simp: path_key_def is_abs_def clean_comps_def)
next
  case False
  have "rev (dropWhile (\<lambda>x. x \<noteq> CHR ''/'') (rev (render r (cs @ [c])))) = render r cs @ ''/''"
    unfolding render_snoc using False can(2) drop_last_component [of c "render r cs"] by (simp add: proper_def)
  then have "path_key (path_dir (render r (cs @ [c]))) = path_key (render r cs @ ''/'')"
    by (simp only: path_dir_def path_key_Clean)
  also have "\<dots> = (if r then [''/''] else []) @ cs"
  proof -
    have "render r cs \<noteq> []" using False p join_eq_Nil [of cs "''/''"] by (auto simp: render_def proper_def)
    then have abs: "is_abs (render r cs @ ''/'') = r" using is_abs_append is_abs_render [OF p] by simp
    have "comps (render r cs @ ''/'') = cs" using comps_append [of "render r cs" "[]"] comps_render [OF p] by simp
    then show ?thesis
      using path_key_of_comps [of cs "render r cs @ ''/''"] p canonical_butlast [OF can(1)] abs by simp
  qed
  finally show ?thesis .
qed

text \<open>The directory of a cleaned path is at or above it.\<close>

lemma path_key_dir_Clean:
  "path_key (path_dir (Clean q)) = butlast (path_key q) \<or> path_key (path_dir (Clean q)) = path_key q"
proof -
  let ?cs = "clean_comps (is_abs q) (comps q)"
  show ?thesis
  proof (cases ?cs rule: rev_cases)
    case Nil
    then show ?thesis by (auto simp: path_key_def [of q] Clean_def render_def path_dir_def path_key_def is_abs_def clean_comps_def)
  next
    case (snoc cs c)
    have p: "\<forall>d \<in> set (cs @ [c]). proper d" using clean_comps_proper [of _ "is_abs q" q] by (simp flip: snoc)
    have can: "canonical (is_abs q) (cs @ [c])" using clean_comps_canonical [of "is_abs q" "comps q"] by (simp only: snoc)
    have "path_key (path_dir (Clean q)) = (if is_abs q then [''/''] else []) @ cs"
      unfolding Clean_def snoc by (rule path_key_dir) (use p can in auto)
    then show ?thesis by (simp add: path_key_def [of q] snoc butlast_append)
  qed
qed

end
