(* ===== verification/GoOs.thy ===== *)
theory GoOs
  imports GoMonad GoPath "HOL-Library.Sublist"
begin

text \<open>
  The operating system as the subscriber sees it: a tree of files, directories and
  symbolic links, and an HTTP client.  A program is a function of its environment and of
  the state; the state holds the files, the requests made so far, a counter of the calls
  and the trail of every state of the files the calls went through.  The environment decides for each call, by its number, whether it
  fails, what a failed call had already done (how much was removed, how much written),
  and what the server answers: a theorem about every environment covers every failure
  and every server.

  Paths are followed through directories only.  A symbolic link in the middle of a path,
  or as the target of a read or a write, is an error here: the subscriber never goes
  through one, unless the operator puts one in place of its own directories.
\<close>

section \<open>State\<close>

datatype node = File string | Dir | Link string

text \<open>The nodes by the key of their path; the root and the working directory always exist.\<close>

type_synonym fs = "(string list \<times> node) list"

datatype os_error = NotExist string | OsError string

fun os_text :: "os_error \<Rightarrow> string" where
  "os_text (NotExist p) = p @ '': no such file or directory''"
| "os_text (OsError msg) = msg"

fun is_not_exist :: "os_error \<Rightarrow> bool" where
  "is_not_exist (NotExist p) = True"
| "is_not_exist (OsError msg) = False"

text \<open>What \<open>archive/tar\<close> reads from a body: entries with their name, whether they are
  regular, their bytes and the error that ends the bytes early; or an error of \<open>Next\<close>.\<close>

datatype tar_event =
    TarEntry string bool string "string option"
  | TarError string

record request =
  rq_method :: string
  rq_url :: string
  rq_headers :: "(string \<times> string) list"
  rq_body :: string

record response =
  rs_status :: nat
  rs_status_text :: string
  rs_protocol :: "string list"
  rs_body :: string
  rs_events :: "tar_event list"

record world =
  files :: fs
  sent :: "request list"
  steps :: nat
  trail :: "fs list"

record os_env =
  os_fault :: "nat \<Rightarrow> string option"
  torn :: "nat \<Rightarrow> string list \<Rightarrow> bool"
  short_write :: "nat \<Rightarrow> nat"
  reply :: "nat \<Rightarrow> request \<Rightarrow> string + response"
  pid :: nat

type_synonym 'a os = "(os_env, world, os_error, 'a) act"

section \<open>The tree\<close>

definition lookup :: "fs \<Rightarrow> string list \<Rightarrow> node option" where
  "lookup fs k = map_of fs k"

definition is_dir :: "fs \<Rightarrow> string list \<Rightarrow> bool" where
  "is_dir fs k = (k = [] \<or> k = [''/''] \<or> lookup fs k = Some Dir)"

definition set_node :: "string list \<Rightarrow> node \<Rightarrow> fs \<Rightarrow> fs" where
  "set_node k nd fs = (k, nd) # filter (\<lambda>kv. fst kv \<noteq> k) fs"

definition drop_tree :: "string list \<Rightarrow> fs \<Rightarrow> fs" where
  "drop_tree k fs = filter (\<lambda>kv. \<not> prefix k (fst kv)) fs"

definition move_tree :: "string list \<Rightarrow> string list \<Rightarrow> fs \<Rightarrow> fs" where
  "move_tree a b fs =
     map (\<lambda>(k, nd). (if prefix a k then b @ drop (length a) k else k, nd)) (drop_tree b fs)"

definition ancestors :: "string list \<Rightarrow> string list list" where
  "ancestors k = map (\<lambda>n. take n k) [1..<length k]"

text \<open>Why the kernel cannot reach the last component, if it cannot.\<close>

definition walk_error :: "string \<Rightarrow> fs \<Rightarrow> os_error option" where
  "walk_error p fs =
     (case List.find (\<lambda>q. \<not> is_dir fs q) (ancestors (path_key p)) of
        None \<Rightarrow> None
      | Some q \<Rightarrow> Some (if lookup fs q = None then NotExist p else OsError (p @ '': not a directory'')))"

section \<open>Calls\<close>

definition os_step ::
  "(os_env \<Rightarrow> nat \<Rightarrow> fs \<Rightarrow> fs) \<Rightarrow> (fs \<Rightarrow> os_error + 'a \<times> fs) \<Rightarrow> 'a os" where
  "os_step damage f = (\<lambda>e w.
     case os_fault e (steps w) of
       Some msg \<Rightarrow>
         (let fs = damage e (steps w) (files w)
          in (Inl (OsError msg), w\<lparr>files := fs, steps := Suc (steps w), trail := fs # trail w\<rparr>))
     | None \<Rightarrow>
         (case f (files w) of
            Inl x \<Rightarrow> (Inl x, w\<lparr>steps := Suc (steps w)\<rparr>)
          | Inr (a, fs) \<Rightarrow> (Inr a, w\<lparr>files := fs, steps := Suc (steps w), trail := fs # trail w\<rparr>)))"

definition intact :: "os_env \<Rightarrow> nat \<Rightarrow> fs \<Rightarrow> fs" where
  "intact e n fs = fs"

text \<open>A call that first walks to the parent of its path.\<close>

definition at_path :: "string \<Rightarrow> (fs \<Rightarrow> node option \<Rightarrow> os_error + 'a \<times> fs) \<Rightarrow> fs \<Rightarrow> os_error + 'a \<times> fs" where
  "at_path p f fs =
     (case walk_error p fs of
        Some x \<Rightarrow> Inl x
      | None \<Rightarrow> f fs (if is_dir fs (path_key p) then Some Dir else lookup fs (path_key p)))"

definition os_lstat :: "string \<Rightarrow> node os" where
  "os_lstat p = os_step intact (at_path p (\<lambda>fs nd.
     case nd of None \<Rightarrow> Inl (NotExist p) | Some x \<Rightarrow> Inr (x, fs)))"

definition os_read_file :: "string \<Rightarrow> string os" where
  "os_read_file p = os_step intact (at_path p (\<lambda>fs nd.
     case nd of
       None \<Rightarrow> Inl (NotExist p)
     | Some (File b) \<Rightarrow> Inr (b, fs)
     | Some Dir \<Rightarrow> Inl (OsError (p @ '': is a directory''))
     | Some (Link t) \<Rightarrow> Inl (OsError (p @ '': too many levels of symbolic links''))))"

definition os_mkdir :: "string \<Rightarrow> string list \<Rightarrow> unit os" where
  "os_mkdir p k = os_step intact (\<lambda>fs.
     if is_dir fs k then Inr ((), fs)
     else if \<not> is_dir fs (butlast k) then Inl (NotExist p)
     else (case lookup fs k of
             Some x \<Rightarrow> Inl (OsError (p @ '': not a directory''))
           | None \<Rightarrow> Inr ((), set_node k Dir fs)))"

definition os_mkdir_all :: "string \<Rightarrow> unit os" where
  "os_mkdir_all p = for_each (os_mkdir p) (ancestors (path_key p) @ [path_key p])"

definition os_remove :: "string \<Rightarrow> unit os" where
  "os_remove p = os_step intact (at_path p (\<lambda>fs nd.
     case nd of
       None \<Rightarrow> Inl (NotExist p)
     | Some x \<Rightarrow>
         if list_ex (\<lambda>kv. strict_prefix (path_key p) (fst kv)) fs
         then Inl (OsError (p @ '': directory not empty''))
         else Inr ((), drop_tree (path_key p) fs)))"

text \<open>\<open>RemoveAll\<close> that fails has removed some of the subtrees.\<close>

definition torn_tree :: "string list \<Rightarrow> os_env \<Rightarrow> nat \<Rightarrow> fs \<Rightarrow> fs" where
  "torn_tree k e n fs =
     filter (\<lambda>kv. \<not> (prefix k (fst kv) \<and> list_ex (\<lambda>r. prefix k r \<and> torn e n r) (prefixes (fst kv)))) fs"

definition os_remove_all :: "string \<Rightarrow> unit os" where
  "os_remove_all p = os_step (torn_tree (path_key p)) (\<lambda>fs. Inr ((), drop_tree (path_key p) fs))"

text \<open>\<open>O_CREATE|O_WRONLY|O_TRUNC\<close>.\<close>

definition os_create :: "string \<Rightarrow> unit os" where
  "os_create p = os_step intact (at_path p (\<lambda>fs nd.
     case nd of
       Some Dir \<Rightarrow> Inl (OsError (p @ '': is a directory''))
     | Some (Link t) \<Rightarrow> Inl (OsError (p @ '': too many levels of symbolic links''))
     | _ \<Rightarrow> Inr ((), set_node (path_key p) (File []) fs)))"

text \<open>Writing to the file just created; a failed write has written the beginning.\<close>

definition os_write :: "string \<Rightarrow> string \<Rightarrow> unit os" where
  "os_write p bs = os_step
     (\<lambda>e n. set_node (path_key p) (File (take (short_write e n) bs)))
     (\<lambda>fs. Inr ((), set_node (path_key p) (File bs) fs))"

definition os_close :: "unit os" where
  "os_close = os_step intact (\<lambda>fs. Inr ((), fs))"

definition os_write_file :: "string \<Rightarrow> string \<Rightarrow> unit os" where
  "os_write_file p bs = bindT (os_create p) (\<lambda>_. bindT (os_write p bs) (\<lambda>_. os_close))"

definition os_symlink :: "string \<Rightarrow> string \<Rightarrow> unit os" where
  "os_symlink t p = os_step intact (at_path p (\<lambda>fs nd.
     case nd of
       Some x \<Rightarrow> Inl (OsError (p @ '': file exists''))
     | None \<Rightarrow> Inr ((), set_node (path_key p) (Link t) fs)))"

definition os_rename :: "string \<Rightarrow> string \<Rightarrow> unit os" where
  "os_rename a b = os_step intact (\<lambda>fs.
     case walk_error a fs of Some x \<Rightarrow> Inl x | None \<Rightarrow>
     case walk_error b fs of Some x \<Rightarrow> Inl x | None \<Rightarrow>
     case lookup fs (path_key a) of
       None \<Rightarrow> Inl (NotExist a)
     | Some nd \<Rightarrow>
         if is_dir fs (path_key b) then Inl (OsError (b @ '': file exists''))
         else if nd = Dir \<and> lookup fs (path_key b) \<noteq> None then Inl (OsError (b @ '': not a directory''))
         else if nd = Dir \<and> prefix (path_key a) (path_key b) then Inl (OsError (b @ '': invalid argument''))
         else Inr ((), move_tree (path_key a) (path_key b) fs))"

definition http_do :: "request \<Rightarrow> response os" where
  "http_do rq = (\<lambda>e w.
     (case reply e (steps w) rq of Inl msg \<Rightarrow> Inl (OsError msg) | Inr r \<Rightarrow> Inr r,
      w\<lparr>sent := sent w @ [rq], steps := Suc (steps w)\<rparr>))"

section \<open>Lookups\<close>

lemma map_of_filter_key: "map_of (filter (\<lambda>kv. P (fst kv)) fs) k = (if P k then map_of fs k else None)"
  by (induction fs) auto

lemma lookup_set_node [simp]: "lookup (set_node k nd fs) q = (if q = k then Some nd else lookup fs q)"
  by (simp add: lookup_def set_node_def map_of_filter_key [where P = "\<lambda>x. x \<noteq> k"])

lemma lookup_drop_tree [simp]: "lookup (drop_tree k fs) q = (if prefix k q then None else lookup fs q)"
  by (simp add: lookup_def drop_tree_def map_of_filter_key [where P = "\<lambda>x. \<not> prefix k x"])

definition torn_at :: "string list \<Rightarrow> os_env \<Rightarrow> nat \<Rightarrow> string list \<Rightarrow> bool" where
  "torn_at k e n q \<longleftrightarrow> prefix k q \<and> list_ex (\<lambda>r. prefix k r \<and> torn e n r) (prefixes q)"

lemma lookup_torn_tree: "lookup (torn_tree k e n fs) q = (if torn_at k e n q then None else lookup fs q)"
  unfolding lookup_def torn_tree_def torn_at_def [symmetric]
  by (simp add: map_of_filter_key [where P = "\<lambda>x. \<not> torn_at k e n x"])

lemma map_of_kept:
  assumes h: "map_of mv q = (if prefix b q then map_of fs x else if prefix a q then None else map_of fs q)"
    and kept: "\<not> prefix a k" "\<not> prefix b k" and ne: "x \<noteq> k"
  shows "map_of ((k, nd) # mv) q =
     (if prefix b q then map_of ((k, nd) # fs) x else if prefix a q then None else map_of ((k, nd) # fs) q)"
proof (cases "q = k")
  case True
  show ?thesis using kept unfolding True by simp
next
  case False
  then show ?thesis using h ne by simp
qed

lemma lookup_move_tree:
  assumes "\<not> prefix a b" "\<not> prefix b a"
  shows "lookup (move_tree a b fs) q =
     (if prefix b q then lookup fs (a @ drop (length b) q) else if prefix a q then None else lookup fs q)"
  unfolding lookup_def move_tree_def drop_tree_def
proof (induction fs)
  case (Cons kv fs)
  obtain k nd where kv: "kv = (k, nd)" by (cases kv)
  have no: "\<not> prefix b (a @ z)" for z
    using assms by (auto simp: prefix_append dest: prefix_order.trans)
  let ?mv = "map (\<lambda>(k, nd). (if prefix a k then b @ drop (length a) k else k, nd)) (filter (\<lambda>kv. \<not> prefix b (fst kv)) fs)"
  consider (gone) "prefix b k" | (moved) "prefix a k" "\<not> prefix b k" | (kept) "\<not> prefix a k" "\<not> prefix b k" by blast
  then show ?case
  proof cases
    case gone
    then have "a @ drop (length b) q \<noteq> k" using no by auto
    then show ?thesis using Cons.IH gone by (auto simp: kv)
  next
    case moved
    then obtain z where z: "k = a @ z" by (auto simp: prefix_def)
    show ?thesis
    proof (cases "prefix b q")
      case True
      then obtain y where "q = b @ y" by (auto simp: prefix_def)
      then show ?thesis using Cons.IH moved by (simp add: kv z)
    next
      case False
      then have "q \<noteq> b @ z" by auto
      moreover have "q \<noteq> a @ z" if "\<not> prefix a q" using that by auto
      ultimately show ?thesis using Cons.IH moved False by (simp add: kv z)
    qed
  next
    case kept
    define x where "x = a @ drop (length b) q"
    have ne: "x \<noteq> k" using kept by (auto simp: x_def)
    have "map_of ?mv q = (if prefix b q then map_of fs x else if prefix a q then None else map_of fs q)"
      using Cons.IH by (simp only: x_def)
    then have "map_of ((k, nd) # ?mv) q =
        (if prefix b q then map_of ((k, nd) # fs) x else if prefix a q then None else map_of ((k, nd) # fs) q)"
      by (rule map_of_kept [OF _ kept ne])
    then show ?thesis using kept by (simp add: kv x_def)
  qed
qed simp

section \<open>Well-formed trees\<close>

text \<open>Every node's parent is a directory.\<close>

definition wf_fs :: "fs \<Rightarrow> bool" where
  "wf_fs fs \<longleftrightarrow> (\<forall>k nd. lookup fs k = Some nd \<longrightarrow> k \<noteq> [] \<and> k \<noteq> [''/''] \<and> is_dir fs (butlast k))"

lemma wf_fs_parent: "wf_fs fs \<Longrightarrow> lookup fs (k @ [c]) = Some nd \<Longrightarrow> is_dir fs k"
  unfolding wf_fs_def by (metis butlast_snoc)

lemma wf_fs_above:
  assumes "wf_fs fs" "lookup fs (k @ q) = Some nd" "q \<noteq> []"
  shows "is_dir fs k"
  using assms(2,3)
proof (induction q arbitrary: nd rule: rev_induct)
  case (snoc c q)
  then have d: "is_dir fs (k @ q)" using assms(1) by (metis append.assoc wf_fs_parent)
  show ?case
  proof (cases "q = []")
    case False
    then have "k @ q \<noteq> []" by simp
    with d consider "lookup fs (k @ q) = Some Dir" | "k @ q = [''/'']" by (auto simp: is_dir_def)
    then show ?thesis
    proof cases
      case 1
      with False snoc.IH show ?thesis by blast
    next
      case 2
      with False show ?thesis by (cases k) (auto simp: is_dir_def)
    qed
  qed (use d in simp)
qed simp

lemma wf_fs_below:
  assumes "wf_fs fs" "\<not> is_dir fs k" "strict_prefix k q"
  shows "lookup fs q = None"
proof (rule ccontr)
  assume "lookup fs q \<noteq> None"
  moreover obtain r where "q = k @ r" "r \<noteq> []" using assms(3) by (auto simp: strict_prefix_def prefix_def)
  ultimately show False using wf_fs_above [OF assms(1), of k r] assms(2) by auto
qed

lemma is_dir_cong: "lookup fs' k = lookup fs k \<Longrightarrow> is_dir fs' k = is_dir fs k"
  by (simp add: is_dir_def)

lemma is_dir_prefix:
  assumes "wf_fs fs" "is_dir fs k" "prefix q k"
  shows "is_dir fs q"
proof (cases "q = k \<or> k = [] \<or> k = [''/'']")
  case True
  with assms show ?thesis by (cases q) (auto simp: prefix_Cons is_dir_def)
next
  case False
  then have "lookup fs k = Some Dir" using assms(2) by (auto simp: is_dir_def)
  moreover obtain r where "k = q @ r" "r \<noteq> []" using assms(3) False by (auto simp: prefix_def)
  ultimately show ?thesis using wf_fs_above [OF assms(1)] by blast
qed

lemma wf_fs_set:
  assumes "wf_fs fs" "k \<noteq> []" "k \<noteq> [''/'']" "is_dir fs (butlast k)" "is_dir fs k \<longrightarrow> nd = Dir"
  shows "wf_fs (set_node k nd fs)"
  unfolding wf_fs_def
proof (intro allI impI)
  fix q x assume q: "lookup (set_node k nd fs) q = Some x"
  have keep: "is_dir (set_node k nd fs) r" if "is_dir fs r" for r
    using that assms(5) by (auto simp: is_dir_def)
  show "q \<noteq> [] \<and> q \<noteq> [''/''] \<and> is_dir (set_node k nd fs) (butlast q)"
    using q assms(1-4) keep by (cases "q = k") (auto simp: wf_fs_def)
qed

text \<open>Removing whole subtrees.\<close>

lemma wf_fs_remove:
  assumes wf: "wf_fs fs" and look: "\<And>q. lookup fs' q = (if P q then None else lookup fs q)"
    and closed: "\<And>q c. P q \<Longrightarrow> P (q @ [c])"
  shows "wf_fs fs'"
  unfolding wf_fs_def
proof (intro allI impI)
  fix q x assume "lookup fs' q = Some x"
  then have q: "lookup fs q = Some x" "\<not> P q" by (auto simp: look split: if_splits)
  then have p: "q \<noteq> [] \<and> q \<noteq> [''/''] \<and> is_dir fs (butlast q)" using wf by (auto simp: wf_fs_def)
  then have "\<not> P (butlast q)" using q(2) closed [of "butlast q" "last q"] by auto
  then have "lookup fs' (butlast q) = lookup fs (butlast q)" by (simp add: look)
  then show "q \<noteq> [] \<and> q \<noteq> [''/''] \<and> is_dir fs' (butlast q)" using p is_dir_cong by blast
qed

lemma wf_fs_drop: "wf_fs fs \<Longrightarrow> wf_fs (drop_tree k fs)"
  by (rule wf_fs_remove [where P = "prefix k"]) auto

lemma set_ancestors: "set (ancestors k) = {q. strict_prefix q k \<and> q \<noteq> []}"
proof
  show "set (ancestors k) \<subseteq> {q. strict_prefix q k \<and> q \<noteq> []}"
    by (auto simp: ancestors_def strict_prefix_def take_is_prefix)
  show "{q. strict_prefix q k \<and> q \<noteq> []} \<subseteq> set (ancestors k)"
  proof
    fix q assume "q \<in> {q. strict_prefix q k \<and> q \<noteq> []}"
    then obtain r where "k = q @ r" "r \<noteq> []" "q \<noteq> []" by (auto simp: strict_prefix_def prefix_def)
    then show "q \<in> set (ancestors k)"
      by (auto simp: ancestors_def image_iff Suc_le_eq intro!: bexI [of _ "length q"])
  qed
qed

lemma wf_fs_torn:
  assumes "wf_fs fs"
  shows "wf_fs (torn_tree k e n fs)"
proof (rule wf_fs_remove [OF assms lookup_torn_tree])
  fix q c assume "torn_at k e n q"
  then show "torn_at k e n (q @ [c])"
    by (auto simp: torn_at_def list_ex_iff)
qed

lemma not_prefix_butlast: "\<not> prefix k q \<Longrightarrow> \<not> prefix k (butlast q)"
  by (metis append_butlast_last_id butlast.simps(1) prefixI prefix_order.trans)

text \<open>Moving a node with all that is below it.\<close>

lemma wf_fs_move:
  assumes wf: "wf_fs fs" and a: "lookup fs a = Some nd" and ab: "\<not> prefix a b" "\<not> prefix b a"
    and b: "b \<noteq> [''/'']" "is_dir fs (butlast b)"
  shows "wf_fs (move_tree a b fs)"
  unfolding wf_fs_def
proof (intro allI impI)
  let ?fs = "move_tree a b fs"
  note look = lookup_move_tree [OF ab]
  have b0: "b \<noteq> []" using ab(2) by auto
  have a0: "a \<noteq> []" "a \<noteq> [''/'']" using wf a by (auto simp: wf_fs_def)
  fix q x assume q: "lookup ?fs q = Some x"
  show "q \<noteq> [] \<and> q \<noteq> [''/''] \<and> is_dir ?fs (butlast q)"
  proof (cases "prefix b q")
    case False
    then have "\<not> prefix a q" "lookup fs q = Some x" using q by (auto simp: look split: if_splits)
    moreover then have "lookup ?fs (butlast q) = lookup fs (butlast q)"
      using False by (simp add: look not_prefix_butlast)
    ultimately show ?thesis using wf is_dir_cong unfolding wf_fs_def by blast
  next
    case True
    then obtain y where y: "q = b @ y" by (auto simp: prefix_def)
    then have ay: "lookup fs (a @ y) = Some x" using q by (simp add: look)
    have "q \<noteq> [] \<and> q \<noteq> [''/'']" using b0 b(1) y ab(2) a0 by (cases b) auto
    moreover have "is_dir ?fs (butlast q)"
    proof (cases "y = []")
      case True
      have "\<not> prefix b (butlast b)" using b0 prefix_length_le [of b "butlast b"] by (cases b) auto
      moreover have "\<not> prefix a (butlast b)" by (rule not_prefix_butlast [OF ab(1)])
      ultimately have "lookup ?fs (butlast b) = lookup fs (butlast b)" by (simp add: look)
      then show ?thesis using b(2) is_dir_cong [of ?fs "butlast b" fs] by (simp add: y True)
    next
      case False
      then have "is_dir fs (a @ butlast y)" using wf ay by (metis butlast_append wf_fs_def)
      then have "lookup fs (a @ butlast y) = Some Dir" using a0 by (cases a) (auto simp: is_dir_def)
      then have "lookup ?fs (b @ butlast y) = Some Dir" by (simp add: look)
      then show ?thesis using y False by (simp add: is_dir_def butlast_append)
    qed
    ultimately show ?thesis by blast
  qed
qed

section \<open>What the calls do\<close>

text \<open>After a call the files are \<open>fs\<close>, and nothing else was seen on the way.\<close>

definition becomes :: "world \<Rightarrow> fs \<Rightarrow> world \<Rightarrow> bool" where
  "becomes w fs w' \<longleftrightarrow> files w' = fs \<and> set (trail w') \<subseteq> insert fs (set (trail w)) \<and> sent w' = sent w"

lemma becomes_step:
  "becomes w fs (w\<lparr>files := fs, steps := n, trail := fs # trail w\<rparr>)" "becomes w (files w) (w\<lparr>steps := n\<rparr>)"
  by (auto simp: becomes_def)

lemma wp_os_step:
  assumes "\<And>m n w'. becomes w (damage e n (files w)) w' \<Longrightarrow> E (OsError m) w'"
    and "\<And>x w'. f (files w) = Inl x \<Longrightarrow> becomes w (files w) w' \<Longrightarrow> E x w'"
    and "\<And>a fs w'. f (files w) = Inr (a, fs) \<Longrightarrow> becomes w fs w' \<Longrightarrow> N a w'"
  shows "wp (os_step damage f) E N e w"
proof (cases "os_fault e (steps w)")
  case None
  then show ?thesis
    using assms(2) [OF _ becomes_step(2)] assms(3) [OF _ becomes_step(1)]
    by (auto simp: wp_def os_step_def split: sum.splits prod.splits)
next
  case (Some m)
  then show ?thesis using assms(1) [OF becomes_step(1)] by (simp add: wp_def os_step_def Let_def)
qed

lemma walk_parent: "walk_error p fs = None \<Longrightarrow> is_dir fs (butlast (path_key p))"
proof -
  assume w: "walk_error p fs = None"
  show ?thesis
  proof (cases "butlast (path_key p) = []")
    case False
    then have "strict_prefix (butlast (path_key p)) (path_key p)"
      by (metis append_butlast_last_id butlast.simps(1) strict_prefixI')
    with False have "butlast (path_key p) \<in> set (ancestors (path_key p))" by (simp add: set_ancestors)
    with w show ?thesis by (auto simp: walk_error_def find_None_iff split: option.splits)
  qed (simp add: is_dir_def)
qed

lemma at_path_Inr:
  assumes "at_path p f fs = Inr r"
  shows "walk_error p fs = None" "is_dir fs (butlast (path_key p))"
    "f fs (if is_dir fs (path_key p) then Some Dir else lookup fs (path_key p)) = Inr r"
  using assms walk_parent by (auto simp: at_path_def split: option.splits)

lemma at_path_Inr_conj:
  "at_path p f fs = Inr r \<Longrightarrow> is_dir fs (butlast (path_key p))
     \<and> f fs (if is_dir fs (path_key p) then Some Dir else lookup fs (path_key p)) = Inr r"
  using at_path_Inr by blast

lemma at_path_NotExist:
  assumes wf: "wf_fs fs" and e: "at_path p f fs = Inl x" "is_not_exist x"
    and f: "\<And>nd y. f fs (Some nd) = Inl y \<Longrightarrow> \<not> is_not_exist y"
  shows "\<not> is_dir fs (path_key p)" "lookup fs (path_key p) = None"
proof -
  have "\<not> is_dir fs (path_key p) \<and> lookup fs (path_key p) = None"
  proof (cases "walk_error p fs")
    case None
    then show ?thesis
      using e f by (cases "lookup fs (path_key p)") (auto simp: at_path_def split: if_splits option.splits)
  next
    case (Some y)
    then obtain q where q: "q \<in> set (ancestors (path_key p))" "\<not> is_dir fs q" "lookup fs q = None"
      using e by (auto simp: at_path_def walk_error_def find_Some_iff split: option.splits if_splits) (metis nth_mem)
    then have sp: "strict_prefix q (path_key p)" by (simp add: set_ancestors)
    then have "lookup fs (path_key p) = None" by (rule wf_fs_below [OF wf q(2)])
    moreover have "\<not> is_dir fs (path_key p)"
      using is_dir_prefix [OF wf, of "path_key p" q] q(2) sp by (auto simp: strict_prefix_def)
    ultimately show ?thesis by blast
  qed
  then show "\<not> is_dir fs (path_key p)" "lookup fs (path_key p) = None" by auto
qed

lemma wp_os_read_file:
  assumes "\<And>x w'. becomes w (files w) w' \<Longrightarrow> E x w'"
    and "\<And>b w'. lookup (files w) (path_key p) = Some (File b) \<Longrightarrow> becomes w (files w) w' \<Longrightarrow> N b w'"
  shows "wp (os_read_file p) E N e w"
  unfolding os_read_file_def
  by (rule wp_os_step)
     (use assms in \<open>auto simp: intact_def dest!: at_path_Inr(3) split: option.splits node.splits if_splits\<close>)

lemma wp_os_lstat:
  assumes "wf_fs (files w)"
    and "\<And>x w'. becomes w (files w) w' \<Longrightarrow> is_not_exist x \<Longrightarrow> lookup (files w) (path_key p) = None
           \<Longrightarrow> \<not> is_dir (files w) (path_key p) \<Longrightarrow> E x w'"
    and "\<And>x w'. becomes w (files w) w' \<Longrightarrow> \<not> is_not_exist x \<Longrightarrow> E x w'"
    and "\<And>nd w'. is_dir (files w) (path_key p) \<or> lookup (files w) (path_key p) \<noteq> None \<Longrightarrow> becomes w (files w) w' \<Longrightarrow> N nd w'"
  shows "wp (os_lstat p) E N e w"
  unfolding os_lstat_def
proof (rule wp_os_step)
  fix x w' assume x: "at_path p (\<lambda>fs nd. case nd of None \<Rightarrow> Inl (NotExist p) | Some x \<Rightarrow> Inr (x, fs)) (files w) = Inl x"
    and w': "becomes w (files w) w'"
  show "E x w'"
    using at_path_NotExist [OF assms(1) x] assms(2,3) w' by (cases "is_not_exist x") auto
qed (use assms(3,4) in \<open>auto simp: intact_def dest!: at_path_Inr(3) split: option.splits if_splits\<close>)

lemma wp_os_mkdir:
  assumes "\<And>x w'. becomes w (files w) w' \<Longrightarrow> E x w'"
    and "\<And>w'. is_dir (files w) k \<Longrightarrow> becomes w (files w) w' \<Longrightarrow> N () w'"
    and "\<And>w'. \<not> is_dir (files w) k \<Longrightarrow> is_dir (files w) (butlast k) \<Longrightarrow> lookup (files w) k = None
           \<Longrightarrow> becomes w (set_node k Dir (files w)) w' \<Longrightarrow> N () w'"
  shows "wp (os_mkdir p k) E N e w"
  unfolding os_mkdir_def
  by (rule wp_os_step) (use assms in \<open>auto simp: intact_def split: option.splits if_splits\<close>)

lemma wp_os_remove:
  assumes "\<And>x w'. becomes w (files w) w' \<Longrightarrow> E x w'"
    and "\<And>w'. becomes w (drop_tree (path_key p) (files w)) w' \<Longrightarrow> N () w'"
  shows "wp (os_remove p) E N e w"
  unfolding os_remove_def
  by (rule wp_os_step)
     (use assms in \<open>auto simp: intact_def dest!: at_path_Inr(3) split: option.splits if_splits\<close>)

lemma wp_os_remove_all:
  assumes "\<And>x n w'. becomes w (torn_tree (path_key p) e n (files w)) w' \<Longrightarrow> E x w'"
    and "\<And>w'. becomes w (drop_tree (path_key p) (files w)) w' \<Longrightarrow> N () w'"
  shows "wp (os_remove_all p) E N e w"
  unfolding os_remove_all_def by (rule wp_os_step) (use assms in auto)

lemma wp_os_create:
  assumes "\<And>x w'. becomes w (files w) w' \<Longrightarrow> E x w'"
    and "\<And>w'. is_dir (files w) (butlast (path_key p)) \<Longrightarrow> \<not> is_dir (files w) (path_key p)
           \<Longrightarrow> becomes w (set_node (path_key p) (File []) (files w)) w' \<Longrightarrow> N () w'"
  shows "wp (os_create p) E N e w"
  unfolding os_create_def
  by (rule wp_os_step)
     (use assms in \<open>auto simp: intact_def dest!: at_path_Inr_conj split: option.splits node.splits if_splits\<close>)

lemma wp_os_write:
  assumes "\<And>x c w'. becomes w (set_node (path_key p) (File c) (files w)) w' \<Longrightarrow> E x w'"
    and "\<And>w'. becomes w (set_node (path_key p) (File bs) (files w)) w' \<Longrightarrow> N () w'"
  shows "wp (os_write p bs) E N e w"
  unfolding os_write_def by (rule wp_os_step) (use assms in auto)

lemma wp_os_close:
  assumes "\<And>x w'. becomes w (files w) w' \<Longrightarrow> E x w'" "\<And>w'. becomes w (files w) w' \<Longrightarrow> N () w'"
  shows "wp os_close E N e w"
  unfolding os_close_def by (rule wp_os_step) (use assms in \<open>auto simp: intact_def\<close>)

lemma wp_os_symlink:
  assumes "\<And>x w'. becomes w (files w) w' \<Longrightarrow> E x w'"
    and "\<And>w'. is_dir (files w) (butlast (path_key p)) \<Longrightarrow> \<not> is_dir (files w) (path_key p)
           \<Longrightarrow> lookup (files w) (path_key p) = None
           \<Longrightarrow> becomes w (set_node (path_key p) (Link t) (files w)) w' \<Longrightarrow> N () w'"
  shows "wp (os_symlink t p) E N e w"
  unfolding os_symlink_def
  by (rule wp_os_step)
     (use assms in \<open>auto simp: intact_def dest!: at_path_Inr_conj split: option.splits if_splits\<close>)

lemma wp_os_rename:
  assumes "\<And>x w'. becomes w (files w) w' \<Longrightarrow> E x w'"
    and "\<And>nd w'. lookup (files w) (path_key a) = Some nd \<Longrightarrow> is_dir (files w) (butlast (path_key b))
           \<Longrightarrow> \<not> is_dir (files w) (path_key b)
           \<Longrightarrow> becomes w (move_tree (path_key a) (path_key b) (files w)) w' \<Longrightarrow> N () w'"
  shows "wp (os_rename a b) E N e w"
  unfolding os_rename_def
  by (rule wp_os_step)
     (use assms walk_parent [of b] in \<open>auto simp: intact_def split: option.splits if_splits\<close>)

lemma wp_http_do:
  assumes "\<And>m w'. files w' = files w \<Longrightarrow> trail w' = trail w \<Longrightarrow> sent w' = sent w @ [rq] \<Longrightarrow> E (OsError m) w'"
    and "\<And>n r w'. reply e n rq = Inr r \<Longrightarrow> files w' = files w \<Longrightarrow> trail w' = trail w \<Longrightarrow> sent w' = sent w @ [rq] \<Longrightarrow> N r w'"
  shows "wp (http_do rq) E N e w"
  using assms by (auto simp: wp_def http_do_def split: sum.splits)

section \<open>Runs\<close>

text \<open>Every state of the files since \<open>w\<close> satisfies \<open>P\<close>, and no request was made.\<close>

definition runs :: "(fs \<Rightarrow> bool) \<Rightarrow> world \<Rightarrow> world \<Rightarrow> bool" where
  "runs P w w' \<longleftrightarrow>
     P (files w') \<and> (\<forall>fs \<in> set (trail w'). P fs \<or> fs \<in> set (trail w)) \<and> sent w' = sent w"

lemma runs_refl: "P (files w) \<Longrightarrow> runs P w w"
  by (simp add: runs_def)

lemma runs_becomes: "runs P w w1 \<Longrightarrow> becomes w1 fs w2 \<Longrightarrow> P fs \<Longrightarrow> runs P w w2"
  by (auto simp: runs_def becomes_def)

lemma runs_trans: "runs P w w1 \<Longrightarrow> runs P w1 w2 \<Longrightarrow> runs P w w2"
  by (auto simp: runs_def)

lemma runs_mono: "runs P w w' \<Longrightarrow> (\<And>fs. P fs \<Longrightarrow> Q fs) \<Longrightarrow> runs Q w w'"
  by (auto simp: runs_def)

lemma runs_now: "runs P w w' \<Longrightarrow> P (files w')"
  by (simp add: runs_def)

lemma becomes_files: "becomes w fs w' \<Longrightarrow> files w' = fs"
  by (simp add: becomes_def)

lemma is_dir_set_dir: "is_dir fs q \<Longrightarrow> is_dir (set_node k Dir fs) q"
  by (auto simp: is_dir_def)

lemma wp_os_mkdir_all:
  assumes start: "runs P w0 w"
    and step: "\<And>fs k. P fs \<Longrightarrow> prefix k (path_key p) \<Longrightarrow> \<not> is_dir fs k \<Longrightarrow> is_dir fs (butlast k)
        \<Longrightarrow> lookup fs k = None \<Longrightarrow> P (set_node k Dir fs)"
  shows "wp (os_mkdir_all p) (\<lambda>x w'. runs P w0 w') (\<lambda>_ w'. runs P w0 w' \<and> is_dir (files w') (path_key p)) e w"
  unfolding os_mkdir_all_def
proof (rule wp_for_each [where I = "\<lambda>ys w'. runs P w0 w' \<and> (\<forall>y \<in> set ys. is_dir (files w') y)"])
  fix ys k zs w1
  assume ks: "ancestors (path_key p) @ [path_key p] = ys @ k # zs"
    and w1: "runs P w0 w1 \<and> (\<forall>y \<in> set ys. is_dir (files w1) y)"
  have "k \<in> set (ancestors (path_key p) @ [path_key p])" by (simp add: ks)
  then have k: "prefix k (path_key p)" by (auto simp: set_ancestors strict_prefix_def)
  show "wp (os_mkdir p k) (\<lambda>x. runs P w0) (\<lambda>_ w'. runs P w0 w' \<and> (\<forall>y \<in> set (ys @ [k]). is_dir (files w') y)) e w1"
  proof (rule wp_os_mkdir)
    fix x w' assume b: "becomes w1 (files w1) w'"
    show "runs P w0 w'" using runs_becomes [OF _ b] w1 runs_now by blast
  next
    fix w' assume d: "is_dir (files w1) k" and b: "becomes w1 (files w1) w'"
    have "runs P w0 w'" using runs_becomes [OF _ b] w1 runs_now by blast
    then show "runs P w0 w' \<and> (\<forall>y \<in> set (ys @ [k]). is_dir (files w') y)"
      using d w1 becomes_files [OF b] by auto
  next
    fix w' assume d: "\<not> is_dir (files w1) k" "is_dir (files w1) (butlast k)" "lookup (files w1) k = None"
      and b: "becomes w1 (set_node k Dir (files w1)) w'"
    have "P (set_node k Dir (files w1))" using step [OF _ k d] w1 runs_now by blast
    then have "runs P w0 w'" using runs_becomes [OF _ b] w1 by blast
    moreover have "is_dir (files w') k" using becomes_files [OF b] by (simp add: is_dir_def)
    ultimately show "runs P w0 w' \<and> (\<forall>y \<in> set (ys @ [k]). is_dir (files w') y)"
      using w1 becomes_files [OF b] is_dir_set_dir by auto
  qed
qed (use start in auto)

end
