(* ===== verification/EntryPath.thy ===== *)
theory EntryPath
  imports GoOs Prelude GoRunes
begin

text \<open>
  The subscriber's guard on paths that come from the server (\<open>validateEntryPath\<close>),
  used for the documents of a manifest and for the entries of an archive.
\<close>

section \<open>Definitions\<close>

definition validateEntryPath :: "string \<Rightarrow> string \<Rightarrow> os_error + string" where
  "validateEntryPath destDir name =
     (if name = [] then Inl (OsError ''refusing empty entry path'')
      else if is_abs name then Inl (OsError (''refusing absolute entry path '' @ go_quote name))
      else if list_ex (\<lambda>part. part = ''..'') (split_on (CHR ''/'') name)
      then Inl (OsError (''refusing entry path with '..' element '' @ go_quote name))
      else (let destClean = Clean destDir;
                destPrefix = destClean @ ''/'';
                target = Clean (path_join [destDir, name]) in
            if target \<noteq> destClean \<and> \<not> has_prefix target destPrefix
            then Inl (OsError (''refusing entry path '' @ go_quote name @ '' escaping extraction dir''))
            else Inr target))"

record sub_doc =
  sd_path :: string
  sd_sha :: string

fun buildWantSet :: "string \<Rightarrow> sub_doc list \<Rightarrow> os_error + string list" where
  "buildWantSet destDir [] = Inr []"
| "buildWantSet destDir (d # docs) =
     (case validateEntryPath destDir (sd_path d) of
        Inl e \<Rightarrow> Inl (OsError (''manifest doc: '' @ os_text e))
      | Inr target \<Rightarrow>
          (case buildWantSet destDir docs of
             Inl e \<Rightarrow> Inl e
           | Inr want \<Rightarrow> Inr (List.insert (sd_path d) want)))"

section \<open>Containment\<close>

lemma dotdot_comps: "''..'' \<in> set (comps name) \<longleftrightarrow> ''..'' \<in> set (split_on (CHR ''/'') name)"
  by (auto simp: comps_def)

definition entry_path_ok :: "string \<Rightarrow> bool" where
  "entry_path_ok name \<longleftrightarrow> name \<noteq> [] \<and> \<not> is_abs name \<and> ''..'' \<notin> set (comps name)"

lemma validateEntryPath_ok:
  assumes "validateEntryPath destDir name = Inr target" "destDir \<noteq> []"
  shows "entry_path_ok name" "target = Clean (path_join [destDir, name])" "path_key target = path_key destDir @ comps name"
proof -
  show e: "entry_path_ok name" and t: "target = Clean (path_join [destDir, name])"
    using assms(1) by (auto simp: validateEntryPath_def entry_path_ok_def dotdot_comps list_ex_iff Let_def split: if_splits)
  show "path_key target = path_key destDir @ comps name"
    using e assms(2) by (simp add: t path_key_join entry_path_ok_def)
qed

lemma join_append: "xs \<noteq> [] \<Longrightarrow> ys \<noteq> [] \<Longrightarrow> join sep (xs @ ys) = join sep xs @ sep @ join sep ys"
  by (induction sep xs rule: join.induct) (auto simp: neq_Nil_conv)

lemma render_append:
  "cs \<noteq> [] \<Longrightarrow> render r (cs @ ds) = (if ds = [] then render r cs else render r cs @ ''/'' @ join ''/'' ds)"
  by (auto simp: render_def join_append)

text \<open>The path of an accepted name, as text: the directory, then the components of the name.\<close>

lemma Clean_join:
  assumes "destDir \<noteq> []" "entry_path_ok name" "clean_comps (is_abs destDir) (comps destDir) \<noteq> []"
  shows "Clean (path_join [destDir, name]) =
     (if comps name = [] then Clean destDir else Clean destDir @ ''/'' @ join ''/'' (comps name))"
proof -
  have "Clean (path_join [destDir, name]) = Clean (destDir @ CHR ''/'' # name)"
    using assms(1) by (simp add: path_join_two Clean_idem)
  also have "\<dots> = render (is_abs destDir) (clean_comps (is_abs destDir) (comps destDir) @ comps name)"
    using assms(1,2)
    by (simp add: Clean_def is_abs_append comps_append clean_comps_append entry_path_ok_def)
  finally show ?thesis using render_append [OF assms(3)] by (simp only: Clean_def [of destDir])
qed

lemma validateEntryPath_accepts:
  assumes "destDir \<noteq> []" "entry_path_ok name" "clean_comps (is_abs destDir) (comps destDir) \<noteq> []"
  shows "validateEntryPath destDir name = Inr (Clean (path_join [destDir, name]))"
proof -
  let ?target = "Clean (path_join [destDir, name])"
  have "?target = Clean destDir \<or> has_prefix ?target (Clean destDir @ ''/'')"
    unfolding Clean_join [OF assms] using has_prefix_append [of "Clean destDir @ ''/''"] by auto
  then show ?thesis
    using assms(2) by (auto simp: validateEntryPath_def entry_path_ok_def dotdot_comps list_ex_iff Let_def)
qed

text \<open>C9: No entry leaves the extraction directory.  A name is accepted exactly when it is not empty, not
  absolute and has no \<open>..\<close> element, and then the path used for it is the directory followed by the
  components of the name, none of which is \<open>..\<close>: a file strictly below the directory, or the directory
  itself for a name without components.\<close>

theorem validateEntryPath_contained:
  assumes "destDir \<noteq> []" "clean_comps (is_abs destDir) (comps destDir) \<noteq> []"
  shows "((\<exists>target. validateEntryPath destDir name = Inr target) \<longleftrightarrow> entry_path_ok name)
    \<and> (\<forall>target. validateEntryPath destDir name = Inr target \<longrightarrow>
         path_key target = path_key destDir @ comps name \<and> ''..'' \<notin> set (comps name)
         \<and> (target = Clean destDir \<or> has_prefix target (Clean destDir @ ''/'')))"
proof (intro conjI allI impI)
  show "(\<exists>target. validateEntryPath destDir name = Inr target) \<longleftrightarrow> entry_path_ok name"
    using validateEntryPath_ok(1) [OF _ assms(1)] validateEntryPath_accepts [OF assms(1) _ assms(2)] by blast
  fix target assume t: "validateEntryPath destDir name = Inr target"
  show "path_key target = path_key destDir @ comps name" by (rule validateEntryPath_ok(3) [OF t assms(1)])
  show "''..'' \<notin> set (comps name)" using validateEntryPath_ok(1) [OF t assms(1)] by (simp add: entry_path_ok_def)
  show "target = Clean destDir \<or> has_prefix target (Clean destDir @ ''/'')"
    using t by (auto simp: validateEntryPath_def Let_def split: if_splits)
qed

theorem validateEntryPath_contained_witness:
  "validateEntryPath ''/k/releases/.3.tmp.9'' ''docs/intro.md'' = Inr ''/k/releases/.3.tmp.9/docs/intro.md''
   \<and> \<not> is_ok (validateEntryPath ''/k/releases/.3.tmp.9'' ''docs/../../intro.md'')"
proof -
  have d: "''/k/releases/.3.tmp.9'' \<noteq> []"
    "clean_comps (is_abs ''/k/releases/.3.tmp.9'') (comps ''/k/releases/.3.tmp.9'') \<noteq> []" by code_simp+
  have "\<not> entry_path_ok ''docs/../../intro.md''" by code_simp
  then have "\<not> is_ok (validateEntryPath ''/k/releases/.3.tmp.9'' ''docs/../../intro.md'')"
    using validateEntryPath_contained [OF d, of "''docs/../../intro.md''"] by (simp add: is_ok_iff)
  moreover have "validateEntryPath ''/k/releases/.3.tmp.9'' ''docs/intro.md'' = Inr ''/k/releases/.3.tmp.9/docs/intro.md''"
    by code_simp
  ultimately show ?thesis by blast
qed

lemma buildWantSet_ok:
  assumes "buildWantSet destDir docs = Inr want" "destDir \<noteq> []"
  shows "set want = sd_path ` set docs" "distinct want" "\<forall>d \<in> set docs. entry_path_ok (sd_path d)"
proof -
  have "set want = sd_path ` set docs \<and> distinct want \<and> (\<forall>d \<in> set docs. entry_path_ok (sd_path d))"
    using assms
    by (induction docs arbitrary: want) (auto split: sum.splits dest: validateEntryPath_ok(1))
  then show "set want = sd_path ` set docs" "distinct want" "\<forall>d \<in> set docs. entry_path_ok (sd_path d)" by auto
qed

lemma buildWantSet_accepts:
  assumes "destDir \<noteq> []" "clean_comps (is_abs destDir) (comps destDir) \<noteq> []" "\<forall>d \<in> set docs. entry_path_ok (sd_path d)"
  shows "\<exists>want. buildWantSet destDir docs = Inr want"
  using assms(3) by (induction docs) (auto simp: validateEntryPath_accepts [OF assms(1) _ assms(2)])

end
