(* ===== verification/Extract.thy ===== *)
theory Extract
  imports EntryPath
begin

text \<open>
  Extracting an archive into a fresh directory (\<open>extractTar\<close>): nothing outside the
  directory is touched, whatever the archive holds and whatever fails; and an archive that
  is accepted leaves exactly the documents of the manifest.
\<close>

section \<open>Definitions\<close>

text \<open>\<open>fmt.Errorf("...: %w", err)\<close> around an operation.\<close>

definition wrapped :: "string \<Rightarrow> 'a os \<Rightarrow> 'a os" where
  "wrapped msg m = tryT m (\<lambda>r. case r of Inl e \<Rightarrow> fail (OsError (msg @ '': '' @ os_text e)) | Inr x \<Rightarrow> ret x)"

text \<open>\<open>io.Copy\<close> from the entry: the bytes that can be read are written, then the error of
  the reader counts.\<close>

definition tar_copy :: "string \<Rightarrow> string \<Rightarrow> string option \<Rightarrow> unit os" where
  "tar_copy target body err =
     bindT (os_write target body) (\<lambda>_.
     case err of None \<Rightarrow> ret () | Some msg \<Rightarrow> fail (OsError msg))"

text \<open>The file of one accepted entry.\<close>

definition extract_entry :: "string \<Rightarrow> string \<Rightarrow> string \<Rightarrow> string option \<Rightarrow> unit os" where
  "extract_entry target name body err =
     bindT (wrapped (''mkdir for '' @ go_quote name) (os_mkdir_all (path_dir target))) (\<lambda>_.
     bindT (wrapped (''create '' @ go_quote name) (os_create target)) (\<lambda>_.
     bindT (tryT (tar_copy target body err) (\<lambda>r. case r of
              Inl e \<Rightarrow> tryT os_close (\<lambda>_. fail (OsError (''write '' @ go_quote name @ '': '' @ os_text e)))
            | Inr x \<Rightarrow> ret x)) (\<lambda>_.
     wrapped (''close '' @ go_quote name) os_close)))"

fun extract_events :: "string \<Rightarrow> string list \<Rightarrow> string list \<Rightarrow> tar_event list \<Rightarrow> string list os" where
  "extract_events destDir want seen [] = ret seen"
| "extract_events destDir want seen (TarError msg # evs) = fail (OsError (''read tar: '' @ msg))"
| "extract_events destDir want seen (TarEntry name regular body err # evs) =
     bindT (lift_result (validateEntryPath destDir name)) (\<lambda>target.
     if \<not> regular then fail (OsError (''refusing non-regular tar entry '' @ go_quote name))
     else if \<not> list_ex (\<lambda>p. p = name) want
     then fail (OsError (''refusing unmanifested tar entry '' @ go_quote name))
     else
       bindT (extract_entry target name body err) (\<lambda>_.
       extract_events destDir want (List.insert name seen) evs))"

definition extractTar :: "tar_event list \<Rightarrow> string \<Rightarrow> string list \<Rightarrow> unit os" where
  "extractTar evs destDir want =
     bindT (extract_events destDir want [] evs) (\<lambda>seen.
     case List.find (\<lambda>p. \<not> list_ex (\<lambda>q. q = p) seen) want of
       None \<Rightarrow> ret ()
     | Some p \<Rightarrow> fail (OsError (''manifest doc '' @ go_quote p @ '' missing from archive'')))"

section \<open>The directory being filled\<close>

text \<open>The directory exists and the rest of the tree is as it was.\<close>

definition only_in :: "string list \<Rightarrow> fs \<Rightarrow> fs \<Rightarrow> bool" where
  "only_in t fs0 fs \<longleftrightarrow> wf_fs fs \<and> lookup fs t = Some Dir \<and> (\<forall>q. \<not> prefix t q \<longrightarrow> lookup fs q = lookup fs0 q)"

text \<open>Below it are directories, the files of the names seen so far, and what was there before.\<close>

definition filled :: "string list \<Rightarrow> fs \<Rightarrow> string list \<Rightarrow> fs \<Rightarrow> bool" where
  "filled t fs0 seen fs \<longleftrightarrow> only_in t fs0 fs
     \<and> (\<forall>q nd. lookup fs (t @ q) = Some nd \<longrightarrow> nd = Dir \<or> (\<exists>b. nd = File b) \<and> q \<in> comps ` set seen
          \<or> lookup fs0 (t @ q) = Some nd)
     \<and> (\<forall>name \<in> set seen. \<exists>b. lookup fs (t @ comps name) = Some (File b))"

lemma wp_wrapped:
  "wp m (\<lambda>x w'. E (OsError (msg @ '': '' @ os_text x)) w') N e w \<Longrightarrow> wp (wrapped msg m) E N e w"
  unfolding wrapped_def by (intro wp_tryT) (auto elim!: wp_conseq intro!: wp_fail wp_ret)

lemma only_in_below:
  assumes "only_in t fs0 fs" "is_dir fs (butlast k)" "prefix t k" "k \<noteq> t" "t \<noteq> []"
    and "is_dir fs k \<longrightarrow> nd = Dir"
  shows "only_in t fs0 (set_node k nd fs)"
proof -
  have "k \<noteq> []" "k \<noteq> [''/'']" using assms(3-5) by (auto simp: prefix_Cons)
  then show ?thesis using assms by (auto simp: only_in_def wf_fs_set)
qed

lemma prefix_cases: "prefix k (t @ q) \<Longrightarrow> prefix k t \<or> (\<exists>r. k = t @ r \<and> r \<noteq> [] \<and> prefix r q)"
  by (auto simp: prefix_append)

text \<open>A directory on the way to an entry.\<close>

lemma filled_mkdir:
  assumes f: "filled t fs0 seen fs" and t: "t \<noteq> []" and k: "prefix k (t @ q)" "\<not> is_dir fs k" "is_dir fs (butlast k)" "lookup fs k = None"
  shows "filled t fs0 seen (set_node k Dir fs)"
proof -
  have o: "only_in t fs0 fs" using f by (simp add: filled_def)
  have "\<not> prefix k t"
    using k(2) o is_dir_prefix [of fs t k] by (auto simp: only_in_def is_dir_def)
  then obtain r where r: "k = t @ r" "r \<noteq> []" using prefix_cases [OF k(1)] by blast
  have "only_in t fs0 (set_node k Dir fs)" using only_in_below [OF o k(3), of Dir] r t by auto
  then show ?thesis using f k(4) by (auto simp: filled_def)
qed

text \<open>The file of an entry.\<close>

lemma filled_file:
  assumes f: "filled t fs0 seen fs" and t: "t \<noteq> []" and d: "is_dir fs (butlast (t @ comps name))" "\<not> is_dir fs (t @ comps name)"
  shows "filled t fs0 (List.insert name seen) (set_node (t @ comps name) (File b) fs)"
proof -
  have o: "only_in t fs0 fs" using f by (simp add: filled_def)
  then have "comps name \<noteq> []" using d(2) by (auto simp: only_in_def is_dir_def)
  then have "only_in t fs0 (set_node (t @ comps name) (File b) fs)"
    using only_in_below [OF o d(1)] d(2) t by auto
  then show ?thesis using f by (auto simp: filled_def)
qed

lemma filled_rewrite:
  assumes f: "filled t fs0 seen fs" and t: "t \<noteq> []" and name: "name \<in> set seen"
  shows "filled t fs0 seen (set_node (t @ comps name) (File b) fs)"
proof -
  obtain c where c: "lookup fs (t @ comps name) = Some (File c)" using f name by (auto simp: filled_def)
  have o: "only_in t fs0 fs" using f by (simp add: filled_def)
  then have k: "t @ comps name \<noteq> [''/'']" "is_dir fs (butlast (t @ comps name))" using c by (auto simp: only_in_def wf_fs_def)
  then have "\<not> is_dir fs (t @ comps name)" using c t by (auto simp: is_dir_def)
  then have "filled t fs0 (List.insert name seen) (set_node (t @ comps name) (File b) fs)"
    by (rule filled_file [OF f t k(2)])
  then show ?thesis using name by (simp add: List.insert_def)
qed

lemma runs_step:
  "runs P w w1 \<Longrightarrow> becomes w1 fs w2 \<Longrightarrow> Q fs \<Longrightarrow> (\<And>fs. Q fs \<Longrightarrow> P fs) \<Longrightarrow> runs P w w2 \<and> Q (files w2)"
  using runs_becomes becomes_files by blast

text \<open>One entry: its directories, then its file, is created, written and closed.\<close>

lemma wp_extract_entry:
  assumes t: "t \<noteq> []" and key: "path_key target = t @ comps name"
    and dir: "prefix (path_key (path_dir target)) (t @ comps name)"
    and f: "filled t fs0 seen (files w)" and run: "runs (only_in t fs0) w0 w"
  shows "wp (extract_entry target name body err) (\<lambda>x. runs (only_in t fs0) w0)
     (\<lambda>_ w'. runs (only_in t fs0) w0 w' \<and> filled t fs0 (List.insert name seen) (files w')) e w"
proof -
  let ?seen = "List.insert name seen"
  let ?I = "\<lambda>w'. runs (only_in t fs0) w0 w' \<and> filled t fs0 ?seen (files w')"
  have only: "only_in t fs0 fs" if "filled t fs0 s fs" for s fs using that by (simp add: filled_def)
  have stay: "?I w2" if "?I w1" "becomes w1 (files w1) w2" for w1 w2
    using that runs_step [of "only_in t fs0" w0 w1 "files w1" w2 "filled t fs0 ?seen"] only by blast
  have rewrite: "?I w2" if "?I w1" "becomes w1 (set_node (path_key target) (File c) (files w1)) w2" for w1 w2 c
  proof -
    have "filled t fs0 ?seen (set_node (path_key target) (File c) (files w1))"
      using that(1) filled_rewrite [OF _ t, of fs0 ?seen "files w1" name c] by (simp add: key)
    then show ?thesis
      using that runs_step [of "only_in t fs0" w0 w1 _ w2 "filled t fs0 ?seen"] only by blast
  qed
  have close: "wp (wrapped m os_close) (\<lambda>x. runs (only_in t fs0) w0) (\<lambda>_. ?I) e w1" if "?I w1" for w1 m
    by (intro wp_wrapped wp_os_close) (use stay [OF that] in blast)+
  have bytes: "wp (tar_copy target body err) (\<lambda>x. ?I) (\<lambda>_. ?I) e w1" if "?I w1" for w1
    unfolding tar_copy_def
    by (intro wp_bindT wp_os_write wp_case_option wp_fail wp_ret) (use rewrite [OF that] in blast)+
  have stop: "wp (tryT os_close (\<lambda>_. fail x)) (\<lambda>x. runs (only_in t fs0) w0) N e w1" if "?I w1"
    for w1 x and N :: "unit \<Rightarrow> world \<Rightarrow> bool"
    by (intro wp_tryT wp_os_close wp_fail) (use stay [OF that] in blast)+
  have create: "?I w2" if "runs (only_in t fs0) w0 w1" "filled t fs0 seen (files w1)"
    "is_dir (files w1) (butlast (path_key target))" "\<not> is_dir (files w1) (path_key target)"
    "becomes w1 (set_node (path_key target) (File []) (files w1)) w2" for w1 w2
    using runs_step [OF that(1) that(5), of "filled t fs0 ?seen"] filled_file [OF that(2) t] that(3,4) only
    by (simp add: key)
  have mk: "wp (os_mkdir_all (path_dir target)) (\<lambda>x. runs (only_in t fs0) w0)
         (\<lambda>_ w'. runs (only_in t fs0) w0 w' \<and> filled t fs0 seen (files w')) e w"
  proof (rule wp_conseq [OF wp_os_mkdir_all [where P = "filled t fs0 seen" and ?w0.0 = w]])
    show "runs (filled t fs0 seen) w w" using f by (rule runs_refl)
    show "filled t fs0 seen (set_node k Dir fs)"
      if "filled t fs0 seen fs" "prefix k (path_key (path_dir target))" "\<not> is_dir fs k" "is_dir fs (butlast k)" "lookup fs k = None"
      for fs k
      by (rule filled_mkdir [OF that(1) t prefix_order.trans [OF that(2) dir] that(3-5)])
    have up: "runs (only_in t fs0) w0 w1" if "runs (filled t fs0 seen) w w1" for w1
      by (rule runs_trans [OF run runs_mono [OF that]]) (simp add: filled_def)
    show "runs (only_in t fs0) w0 w1" if "runs (filled t fs0 seen) w w1" for w1 by (rule up [OF that])
    show "runs (only_in t fs0) w0 w1 \<and> filled t fs0 seen (files w1)"
      if "runs (filled t fs0 seen) w w1 \<and> is_dir (files w1) (path_key (path_dir target))" for w1
      using up that runs_now by blast
  qed
  show ?thesis
    unfolding extract_entry_def
  proof (rule wp_bindT, rule wp_wrapped, rule wp_conseq [OF mk], assumption, rule wp_bindT, rule wp_wrapped, rule wp_os_create)
    fix w1 assume w1: "runs (only_in t fs0) w0 w1 \<and> filled t fs0 seen (files w1)"
    show "runs (only_in t fs0) w0 w2" if "becomes w1 (files w1) w2" for w2
      using w1 by (intro runs_becomes [OF _ that runs_now]) auto
    fix w2 assume "is_dir (files w1) (butlast (path_key target))" "\<not> is_dir (files w1) (path_key target)"
      "becomes w1 (set_node (path_key target) (File []) (files w1)) w2"
    then have "?I w2" using create w1 by blast
    then show "wp (bindT (tryT (tar_copy target body err) (\<lambda>r. case r of
              Inl e \<Rightarrow> tryT os_close (\<lambda>_. fail (OsError (''write '' @ go_quote name @ '': '' @ os_text e)))
            | Inr x \<Rightarrow> ret x)) (\<lambda>_. wrapped (''close '' @ go_quote name) os_close)) (\<lambda>x. runs (only_in t fs0) w0) (\<lambda>_. ?I) e w2"
      by (intro wp_bindT wp_tryT wp_conseq [OF bytes]) (simp_all only: sum.case stop wp_ret close)
  qed
qed

lemma wp_extract_events:
  assumes dest: "destDir \<noteq> []" and t: "t = path_key destDir" "t \<noteq> []"
    and f: "filled t fs0 seen (files w)" and run: "runs (only_in t fs0) w0 w"
  shows "wp (extract_events destDir want seen evs) (\<lambda>x. runs (only_in t fs0) w0)
     (\<lambda>seen' w'. runs (only_in t fs0) w0 w' \<and> filled t fs0 seen' (files w') \<and> set seen' \<subseteq> set seen \<union> set want) e w"
  using f run
proof (induction evs arbitrary: seen w)
  case Nil
  then show ?case by (auto intro!: wp_ret)
next
  case (Cons ev evs)
  show ?case
  proof (cases ev)
    case (TarError msg)
    then show ?thesis using Cons.prems by (auto intro!: wp_fail)
  next
    case (TarEntry name regular body err)
    show ?thesis
      unfolding TarEntry extract_events.simps
    proof (rule wp_bindT, rule wp_lift_result, rule Cons.prems(2), intro wp_if)
      fix target assume ok: "validateEntryPath destDir name = Inr target" and want: "\<not> \<not> list_ex (\<lambda>p. p = name) want"
      have key: "path_key target = t @ comps name" using validateEntryPath_ok(3) [OF ok dest] by (simp add: t(1))
      have "path_key target = path_key (path_join [destDir, name])" "target = Clean (path_join [destDir, name])"
        using validateEntryPath_ok(2) [OF ok dest] by simp_all
      then have dir: "prefix (path_key (path_dir target)) (t @ comps name)"
        using path_key_dir_Clean [of "path_join [destDir, name]"] key by (metis prefixeq_butlast prefix_order.refl)
      have further: "wp (extract_events destDir want (List.insert name seen) evs) (\<lambda>x. runs (only_in t fs0) w0)
         (\<lambda>seen' w'. runs (only_in t fs0) w0 w' \<and> filled t fs0 seen' (files w') \<and> set seen' \<subseteq> set seen \<union> set want) e w1"
        if "runs (only_in t fs0) w0 w1 \<and> filled t fs0 (List.insert name seen) (files w1)" for w1
        by (rule wp_conseq [OF Cons.IH]) (use that want in \<open>auto simp: list_ex_iff\<close>)
      show "wp (bindT (extract_entry target name body err) (\<lambda>_. extract_events destDir want (List.insert name seen) evs))
         (\<lambda>x. runs (only_in t fs0) w0)
         (\<lambda>seen' w'. runs (only_in t fs0) w0 w' \<and> filled t fs0 seen' (files w') \<and> set seen' \<subseteq> set seen \<union> set want) e w"
        by (rule wp_bindT, rule wp_conseq [OF wp_extract_entry [OF t(2) key dir Cons.prems]], assumption, rule further)
    qed (simp_all add: wp_fail Cons.prems(2))
  qed
qed

lemma wp_extractTar:
  assumes dest: "destDir \<noteq> []" and t: "t = path_key destDir" "t \<noteq> []" and want: "distinct want"
    and wf: "wf_fs (files w)" "lookup (files w) t = Some Dir"
  shows "wp (extractTar evs destDir want) (\<lambda>x. runs (only_in t (files w)) w)
     (\<lambda>_ w'. runs (only_in t (files w)) w w' \<and> filled t (files w) want (files w')) e w"
proof -
  let ?fs0 = "files w"
  have f: "filled t ?fs0 [] ?fs0" using wf by (simp add: filled_def only_in_def)
  have run: "runs (only_in t ?fs0) w w" by (rule runs_refl) (use f in \<open>simp add: filled_def\<close>)
  have same: "filled t ?fs0 want fs" if "filled t ?fs0 seen fs" "set seen \<subseteq> set want"
    "List.find (\<lambda>p. \<not> list_ex (\<lambda>q. q = p) seen) want = None" for seen fs
  proof -
    have "set seen = set want" using that(2,3) by (auto simp: find_None_iff list_ex_iff)
    then show ?thesis using that(1) by (simp add: filled_def)
  qed
  show ?thesis
    unfolding extractTar_def
    by (rule wp_bindT, rule wp_conseq [OF wp_extract_events [OF dest t f run]])
       (auto intro!: wp_case_option wp_ret wp_fail same)
qed

text \<open>In a directory that was empty there is nothing else.\<close>

lemma filled_fresh:
  assumes "filled t fs0 seen fs" "\<forall>q. strict_prefix t q \<longrightarrow> lookup fs0 q = None" "lookup fs0 t = Some Dir"
    and "lookup fs (t @ q) = Some nd"
  shows "nd = Dir \<or> (\<exists>b. nd = File b) \<and> q \<in> comps ` set seen"
proof -
  have "lookup fs0 (t @ q) \<noteq> Some nd \<or> nd = Dir"
    using assms(2,3) by (cases q) (auto simp: strict_prefix_def)
  then show ?thesis using assms(1,4) unfolding filled_def by blast
qed

text \<open>C35: Extraction stays inside and is exact.  Into an empty directory, whatever the archive holds and
  whatever call fails at whatever point, every state the files go through leaves all that is outside the
  directory untouched.  When the archive is accepted, the directory holds, apart from subdirectories,
  exactly one regular file for each document of the manifest, at the components of its path.\<close>

theorem extractTar_exact:
  assumes "destDir \<noteq> []" "path_key destDir \<noteq> []" "distinct want" "wf_fs (files w)"
    and "lookup (files w) (path_key destDir) = Some Dir"
    and "\<forall>q. strict_prefix (path_key destDir) q \<longrightarrow> lookup (files w) q = None"
    and "extractTar evs destDir want e w = (r, w')"
  shows "(\<forall>fs \<in> insert (files w') (set (trail w') - set (trail w)).
       \<forall>q. \<not> prefix (path_key destDir) q \<longrightarrow> lookup fs q = lookup (files w) q)
    \<and> (r = Inr () \<longrightarrow>
        (\<forall>q. (\<exists>b. lookup (files w') (path_key destDir @ q) = Some (File b)) \<longleftrightarrow> q \<in> comps ` set want)
        \<and> (\<forall>q t. lookup (files w') (path_key destDir @ q) \<noteq> Some (Link t)))"
proof -
  let ?t = "path_key destDir"
  have run: "runs (only_in ?t (files w)) w w' \<and> (r = Inr () \<longrightarrow> filled ?t (files w) want (files w'))"
    using wp_extractTar [OF assms(1) refl assms(2-5), of evs e] assms(7) by (auto simp: wp_def split: sum.splits)
  then have "\<forall>fs \<in> insert (files w') (set (trail w') - set (trail w)). only_in ?t (files w) fs" by (auto simp: runs_def)
  moreover have "(\<exists>b. lookup (files w') (?t @ q) = Some (File b)) \<longleftrightarrow> q \<in> comps ` set want" if "r = Inr ()" for q
  proof -
    have f: "filled ?t (files w) want (files w')" using run that by blast
    then show ?thesis using filled_fresh [OF f assms(6,5), of q] unfolding filled_def by blast
  qed
  moreover have "lookup (files w') (?t @ q) \<noteq> Some (Link l)" if "r = Inr ()" for q l
    using filled_fresh [OF _ assms(6,5), of want "files w'" q "Link l"] run that by blast
  ultimately show ?thesis by (auto simp: only_in_def)
qed

definition calm_os :: os_env where
  "calm_os = \<lparr>os_fault = \<lambda>_. None, torn = \<lambda>_ _. False, short_write = \<lambda>_. 0,
           reply = \<lambda>_ _. Inl ''unreachable'', pid = 9\<rparr>"

theorem extractTar_exact_witness:
  "let w = \<lparr>files = [(path_key ''/d'', Dir)], sent = [], steps = 0, trail = []\<rparr>;
       run = extractTar [TarEntry ''a/b'' True ''text'' None] ''/d'' [''a/b''] calm_os w
   in fst run = Inr () \<and> lookup (files (snd run)) (path_key ''/d'' @ [''a'', ''b'']) = Some (File ''text'')
      \<and> (\<forall>q t. lookup (files (snd run)) (path_key ''/d'' @ q) \<noteq> Some (Link t))"
proof -
  define w where "w = \<lparr>files = [(path_key ''/d'', Dir)], sent = [], steps = 0, trail = []\<rparr>"
  define run where "run = extractTar [TarEntry ''a/b'' True ''text'' None] ''/d'' [''a/b''] calm_os w"
  have ok: "fst run = Inr () \<and> lookup (files (snd run)) (path_key ''/d'' @ [''a'', ''b'']) = Some (File ''text'')"
    unfolding run_def w_def by code_simp
  have k: "path_key ''/d'' = [''/'', ''d'']" by code_simp
  have f: "files w = [([''/'', ''d''], Dir)]" by (simp add: w_def k)
  have "wf_fs (files w)" unfolding f by (auto simp: wf_fs_def lookup_def is_dir_def)
  moreover have "lookup (files w) (path_key ''/d'') = Some Dir" by (simp add: f k lookup_def)
  moreover have "\<forall>q. strict_prefix (path_key ''/d'') q \<longrightarrow> lookup (files w) q = None" by (auto simp: f k lookup_def)
  moreover have "extractTar [TarEntry ''a/b'' True ''text'' None] ''/d'' [''a/b''] calm_os w = (fst run, snd run)"
    by (simp add: run_def)
  ultimately have "\<forall>q t. lookup (files (snd run)) (path_key ''/d'' @ q) \<noteq> Some (Link t)"
    using extractTar_exact [of "''/d''" "[''a/b'']" w _ calm_os "fst run" "snd run"] ok by (simp add: k)
  then show ?thesis using ok by (simp add: run_def w_def Let_def)
qed

end
