(* ===== verification/Fetch.thy ===== *)
theory Fetch
  imports Extract DocTypes
begin

text \<open>
  The subscriber's requests: the current release (\<open>fetchCurrent\<close>), the archive
  (\<open>fetchAndExtractArchive\<close>) and the report of a pass (\<open>heartbeat\<close>).  A request
  that cannot be built from the configured server URL and one that gets no answer are
  the same error here; the wording of a JSON decoding error is not modelled.
\<close>

section \<open>Wire types\<close>

record cur_release =
  cr_id :: int
  cr_hash :: string
  cr_docs :: "sub_doc slice"
  cr_resync :: bool

definition zero_cur :: cur_release where
  "zero_cur = \<lparr>cr_id = 0, cr_hash = [], cr_docs = None, cr_resync = False\<rparr>"

definition zero_sub_doc :: sub_doc where
  "zero_sub_doc = \<lparr>sd_path = [], sd_sha = []\<rparr>"

fun dec_sub_doc :: "json \<Rightarrow> sub_doc \<Rightarrow> sub_doc option" where
  "dec_sub_doc (JObj kvs) a =
     (case (dec_field ''path'' dec_string (sd_path a) kvs, dec_field ''sha256'' dec_string (sd_sha a) kvs) of
        (Some p, Some h) \<Rightarrow> Some \<lparr>sd_path = p, sd_sha = h\<rparr>
      | _ \<Rightarrow> None)"
| "dec_sub_doc JNull a = Some a"
| "dec_sub_doc _ a = None"

fun dec_cur :: "json \<Rightarrow> cur_release \<Rightarrow> cur_release option" where
  "dec_cur (JObj kvs) a =
     (case (dec_field ''release_id'' dec_int (cr_id a) kvs,
            dec_field ''content_hash'' dec_string (cr_hash a) kvs,
            dec_field ''docs'' (dec_slice dec_sub_doc zero_sub_doc) (cr_docs a) kvs,
            dec_field ''resync'' dec_bool (cr_resync a) kvs) of
        (Some i, Some h, Some ds, Some r) \<Rightarrow> Some \<lparr>cr_id = i, cr_hash = h, cr_docs = ds, cr_resync = r\<rparr>
      | _ \<Rightarrow> None)"
| "dec_cur JNull a = Some a"
| "dec_cur _ a = None"

text \<open>\<open>json.NewDecoder(body).Decode(&cur)\<close>: the first value of the stream, whatever follows it.\<close>

definition decode_first :: "string \<Rightarrow> json option" where
  "decode_first text = map_option fst (parse_value max_depth (runes text))"

definition decode_current :: "string \<Rightarrow> cur_release option" where
  "decode_current text =
     (case decode_first text of None \<Rightarrow> None | Some v \<Rightarrow> dec_cur v zero_cur)"

record heartbeat_body =
  hb_host :: string
  hb_release :: int
  hb_ok :: bool
  hb_error :: "string option"
  hb_resync :: bool

definition heartbeat_json :: "heartbeat_body \<Rightarrow> json" where
  "heartbeat_json b = JObj
     [(''host'', JStr (hb_host b)), (''release_id'', json_int (hb_release b)), (''ok'', JBool (hb_ok b)),
      (''error'', case hb_error b of None \<Rightarrow> JNull | Some m \<Rightarrow> JStr m),
      (''resync_applied'', JBool (hb_resync b))]"

section \<open>Requests\<close>

definition subscriberProtocolHeader :: string where
  "subscriberProtocolHeader = ''Agent-Knowledge-Protocol-Version''"

definition subscriberProtocolVersion :: string where
  "subscriberProtocolVersion = ''1''"

definition bearer :: "string \<Rightarrow> (string \<times> string) list" where
  "bearer token = (if token \<noteq> [] then [(''Authorization'', ''Bearer '' @ token)] else [])"

definition get_request :: "string \<Rightarrow> string \<Rightarrow> request" where
  "get_request u token =
     \<lparr>rq_method = ''GET'', rq_url = u,
      rq_headers = bearer token @ [(subscriberProtocolHeader, subscriberProtocolVersion)], rq_body = []\<rparr>"

definition apiGet :: "string \<Rightarrow> string \<Rightarrow> response os" where
  "apiGet u token = http_do (get_request u token)"

definition validateProtocolResponse :: "response \<Rightarrow> os_error + unit" where
  "validateProtocolResponse resp =
     (let versions = rs_protocol resp in
      if length versions = 0 then Inr ()
      else if length versions \<noteq> 1 \<or> hd versions \<noteq> subscriberProtocolVersion
      then Inl (OsError ''incompatible protocol response'')
      else Inr ())"

text \<open>\<open>url.QueryEscape\<close>.\<close>

definition hex_upper :: "nat \<Rightarrow> char" where
  "hex_upper n = (if n < 10 then char_of (48 + n) else char_of (55 + n))"

definition query_char :: "char \<Rightarrow> string" where
  "query_char c =
     (let n = of_char c :: nat in
      if (48 \<le> n \<and> n \<le> 57) \<or> (65 \<le> n \<and> n \<le> 90) \<or> (97 \<le> n \<and> n \<le> 122)
         \<or> c \<in> {CHR ''-'', CHR ''_'', CHR ''.'', CHR ''~''} then [c]
      else if c = CHR '' '' then ''+''
      else [CHR ''%'', hex_upper (n div 16), hex_upper (n mod 16)])"

definition query_escape :: "string \<Rightarrow> string" where
  "query_escape s = concat (map query_char s)"

definition current_url :: "string \<Rightarrow> string \<Rightarrow> string" where
  "current_url server host =
     server @ ''/api/releases/current'' @ (if host \<noteq> [] then ''?host='' @ query_escape host else [])"

text \<open>What both fetches ask of an answer, in this order.\<close>

definition api_fetch :: "string \<Rightarrow> string \<Rightarrow> response os" where
  "api_fetch u token =
     bindT (wrapped (''GET '' @ u) (apiGet u token)) (\<lambda>resp.
     bindT (wrapped (''GET '' @ u) (lift_result (validateProtocolResponse resp))) (\<lambda>_.
     if rs_status resp \<noteq> 200
     then fail (OsError (''GET '' @ u @ '': unexpected status '' @ rs_status_text resp))
     else ret resp))"

definition fetchCurrent :: "string \<Rightarrow> string \<Rightarrow> string \<Rightarrow> cur_release os" where
  "fetchCurrent server host token =
     bindT (api_fetch (current_url server host) token) (\<lambda>resp.
     case decode_current (rs_body resp) of
       None \<Rightarrow> fail (OsError ''decode current release: invalid JSON'')
     | Some cur \<Rightarrow> ret cur)"

definition archive_url :: "string \<Rightarrow> int \<Rightarrow> string" where
  "archive_url server releaseID = server @ ''/api/releases/'' @ int_dec releaseID @ ''/archive''"

definition fetchAndExtractArchive :: "string \<Rightarrow> string \<Rightarrow> int \<Rightarrow> string \<Rightarrow> string list \<Rightarrow> unit os" where
  "fetchAndExtractArchive server token releaseID destDir want =
     bindT (api_fetch (archive_url server releaseID) token) (\<lambda>resp.
     extractTar (rs_events resp) destDir want)"

text \<open>The report.  Whatever happens to it is logged and swallowed.\<close>

definition heartbeat_request :: "string \<Rightarrow> string \<Rightarrow> heartbeat_body \<Rightarrow> request" where
  "heartbeat_request server token b =
     \<lparr>rq_method = ''POST'', rq_url = server @ ''/api/heartbeats'',
      rq_headers = [(''Content-Type'', ''application/json''), (subscriberProtocolHeader, subscriberProtocolVersion)] @ bearer token,
      rq_body = print_json (heartbeat_json b)\<rparr>"

definition heartbeat :: "string \<Rightarrow> string \<Rightarrow> string \<Rightarrow> int \<Rightarrow> bool \<Rightarrow> string \<Rightarrow> bool \<Rightarrow> unit os" where
  "heartbeat server host token releaseID ok errMsg resyncApplied =
     tryT (http_do (heartbeat_request server token
       \<lparr>hb_host = host, hb_release = releaseID, hb_ok = ok,
        hb_error = (if errMsg \<noteq> [] then Some errMsg else None), hb_resync = resyncApplied\<rparr>))
     (\<lambda>r. ret ())"

section \<open>What they do\<close>

text \<open>An accepted answer: no protocol version or exactly the supported one, and status 200.\<close>

definition accepted :: "response \<Rightarrow> bool" where
  "accepted resp \<longleftrightarrow> rs_protocol resp \<in> {[], [subscriberProtocolVersion]} \<and> rs_status resp = 200"

lemma validateProtocolResponse_iff:
  "validateProtocolResponse resp = Inr () \<longleftrightarrow> rs_protocol resp \<in> {[], [subscriberProtocolVersion]}"
  by (cases "rs_protocol resp") (auto simp: validateProtocolResponse_def Let_def)

text \<open>A request was sent; nothing else changed.\<close>

definition asked :: "world \<Rightarrow> request \<Rightarrow> world \<Rightarrow> bool" where
  "asked w rq w' \<longleftrightarrow> files w' = files w \<and> trail w' = trail w \<and> sent w' = sent w @ [rq]"

lemma wp_http:
  assumes "\<And>x w'. asked w rq w' \<Longrightarrow> E x w'"
    and "\<And>r w'. reply e (steps w) rq = Inr r \<Longrightarrow> asked w rq w' \<Longrightarrow> N r w'"
  shows "wp (http_do rq) E N e w"
  using assms by (auto simp: wp_def http_do_def asked_def split: sum.splits)

lemma wp_api_fetch:
  assumes "\<And>x w'. asked w (get_request u token) w' \<Longrightarrow> E x w'"
    and "\<And>r w'. reply e (steps w) (get_request u token) = Inr r \<Longrightarrow> accepted r
           \<Longrightarrow> asked w (get_request u token) w' \<Longrightarrow> N r w'"
  shows "wp (api_fetch u token) E N e w"
  unfolding api_fetch_def apiGet_def
proof (rule wp_bindT, rule wp_wrapped, rule wp_http)
  fix r w' assume r: "reply e (steps w) (get_request u token) = Inr r" and w': "asked w (get_request u token) w'"
  show "wp (bindT (wrapped (''GET '' @ u) (lift_result (validateProtocolResponse r))) (\<lambda>_.
     if rs_status r \<noteq> 200
     then fail (OsError (''GET '' @ u @ '': unexpected status '' @ rs_status_text r))
     else ret r)) E N e w'"
  proof (rule wp_bindT, rule wp_wrapped, rule wp_lift_result)
    fix a assume "validateProtocolResponse r = Inr a"
    then have "rs_protocol r \<in> {[], [subscriberProtocolVersion]}" using validateProtocolResponse_iff [of r] by simp
    then show "wp (if rs_status r \<noteq> 200
     then fail (OsError (''GET '' @ u @ '': unexpected status '' @ rs_status_text r)) else ret r) E N e w'"
      using assms r w' by (intro wp_if wp_fail wp_ret) (auto simp: accepted_def)
  qed (rule assms(1) [OF w'])
qed (rule assms(1))

text \<open>A release the server offers in answer to the first request of a pass.\<close>

definition offered :: "os_env \<Rightarrow> nat \<Rightarrow> string \<Rightarrow> string \<Rightarrow> string \<Rightarrow> cur_release \<Rightarrow> bool" where
  "offered e n server host token cur \<longleftrightarrow>
     (\<exists>r. reply e n (get_request (current_url server host) token) = Inr r \<and> accepted r
        \<and> decode_current (rs_body r) = Some cur)"

lemma offered_unique: "offered e n server host token c \<Longrightarrow> offered e n server host token d \<Longrightarrow> c = d"
  by (auto simp: offered_def)

lemma wp_fetchCurrent:
  assumes "\<And>x w'. asked w (get_request (current_url server host) token) w' \<Longrightarrow> E x w'"
    and "\<And>cur w'. offered e (steps w) server host token cur
           \<Longrightarrow> asked w (get_request (current_url server host) token) w' \<Longrightarrow> N cur w'"
  shows "wp (fetchCurrent server host token) E N e w"
  unfolding fetchCurrent_def
  by (rule wp_bindT, rule wp_api_fetch, rule assms(1), assumption)
     (auto intro!: wp_case_option wp_fail wp_ret assms simp: offered_def)

lemma wp_heartbeat:
  assumes "\<And>w'. asked w (heartbeat_request server token
       \<lparr>hb_host = host, hb_release = releaseID, hb_ok = ok,
        hb_error = (if errMsg \<noteq> [] then Some errMsg else None), hb_resync = resyncApplied\<rparr>) w' \<Longrightarrow> N () w'"
  shows "wp (heartbeat server host token releaseID ok errMsg resyncApplied) E N e w"
  unfolding heartbeat_def by (intro wp_tryT wp_http wp_ret assms)

text \<open>\<open>url.QueryEscape\<close> loses nothing: different host names give different requests.\<close>

lemma hex_upper_inj: "m < 16 \<Longrightarrow> n < 16 \<Longrightarrow> hex_upper m = hex_upper n \<Longrightarrow> m = n"
  by (auto simp: hex_upper_def split: if_splits)

end
