(* ===== verification/Install.thy ===== *)
theory Install
  imports Fetch Releases
begin

text \<open>
  Installing a release on the consumer host: the directory it gets (\<open>freshReleaseDir\<close>),
  the check of its bytes (\<open>recomputeContentHash\<close>), the corpus link (\<open>flipCorpus\<close>)
  and the marker of what is installed (\<open>readApplied\<close>, \<open>writeApplied\<close>).
\<close>

section \<open>Definitions\<close>

definition numbered_name :: "string \<Rightarrow> nat \<Rightarrow> string" where
  "numbered_name ident n = ident @ ''.'' @ nat_dec n"

text \<open>The loop over \<open>n\<close>, with fuel; \<open>None\<close> when the fuel is spent.\<close>

fun fresh_search :: "nat \<Rightarrow> nat \<Rightarrow> string \<Rightarrow> string \<Rightarrow> string option os" where
  "fresh_search 0 n releasesDir ident = ret None"
| "fresh_search (Suc fuel) n releasesDir ident =
     (let candidate = path_join [releasesDir, numbered_name ident n] in
      tryT (os_lstat candidate) (\<lambda>r. case r of
        Inl err \<Rightarrow> if is_not_exist err then ret (Some candidate) else fail err
      | Inr nd \<Rightarrow> fresh_search fuel (Suc n) releasesDir ident))"

definition freshReleaseDir :: "nat \<Rightarrow> string \<Rightarrow> string \<Rightarrow> string option os" where
  "freshReleaseDir fuel releasesDir ident =
     (let base = path_join [releasesDir, ident] in
      tryT (os_lstat base) (\<lambda>r. case r of
        Inl err \<Rightarrow> if is_not_exist err then ret (Some base) else fail err
      | Inr nd \<Rightarrow> fresh_search fuel 1 releasesDir ident))"

text \<open>Fuel that is always enough: one more than there are nodes.\<close>

definition enough_fuel :: "fs \<Rightarrow> nat" where
  "enough_fuel fs = Suc (length fs)"

text \<open>The hash state is the bytes written to it so far.\<close>

fun hash_docs :: "string \<Rightarrow> sub_doc list \<Rightarrow> string \<Rightarrow> string os" where
  "hash_docs destDir [] h = ret h"
| "hash_docs destDir (d # docs) h =
     bindT (wrapped (''read '' @ go_quote (sd_path d)) (os_read_file (path_join [destDir, sd_path d]))) (\<lambda>body.
     hash_docs destDir docs (h @ sd_path d @ [CHR 0x00] @ sha256 body))"

definition recomputeContentHash :: "string \<Rightarrow> sub_doc list \<Rightarrow> string os" where
  "recomputeContentHash destDir docs =
     bindT (hash_docs destDir docs []) (\<lambda>h. ret (''sha256:'' @ hex_encode (sha256 h)))"

definition tmp_link :: "string \<Rightarrow> nat \<Rightarrow> string" where
  "tmp_link home p = path_join [home, ''.corpus.tmp.'' @ nat_dec p]"

definition get_pid :: "nat os" where
  "get_pid = (\<lambda>e w. (Inr (pid e), w))"

definition flipCorpus :: "string \<Rightarrow> string \<Rightarrow> unit os" where
  "flipCorpus home dirName =
     (let corpusPath = path_join [home, ''corpus''] in
      bindT get_pid (\<lambda>p.
      let tmpLink = tmp_link home p in
      tryT (os_remove tmpLink) (\<lambda>_.
      let relTarget = path_join [''releases'', dirName] in
      bindT (wrapped ''create temp symlink'' (os_symlink relTarget tmpLink)) (\<lambda>_.
      tryT (os_rename tmpLink corpusPath) (\<lambda>r. case r of
        Inl err \<Rightarrow> tryT (os_remove tmpLink) (\<lambda>_.
          fail (OsError (''rename symlink onto corpus: '' @ os_text err)))
      | Inr _ \<Rightarrow> ret ())))))"

definition parse_marker :: "string \<Rightarrow> (string \<times> string) option" where
  "parse_marker b =
     (case GoRunes.fields b of [ident, hash] \<Rightarrow> Some (ident, hash) | _ \<Rightarrow> None)"

definition readApplied :: "string \<Rightarrow> (string \<times> string) option os" where
  "readApplied path =
     tryT (os_read_file path) (\<lambda>r. case r of
       Inl err \<Rightarrow> ret None
     | Inr b \<Rightarrow> ret (parse_marker b))"

definition marker_text :: "string \<Rightarrow> string \<Rightarrow> string" where
  "marker_text ident hash = ident @ '' '' @ hash @ [CHR 0x0A]"

definition writeApplied :: "string \<Rightarrow> string \<Rightarrow> string \<Rightarrow> unit os" where
  "writeApplied path ident hash = os_write_file path (marker_text ident hash)"

section \<open>The directory of a new release\<close>

definition release_names :: "string \<Rightarrow> string set" where
  "release_names ident = insert ident (numbered_name ident ` {1..})"

lemma numbered_name_inj: "numbered_name ident m = numbered_name ident n \<Longrightarrow> m = n"
  using nat_dec_inj by (auto simp: numbered_name_def)

text \<open>Taken names are nodes of the tree, and different numbers are different names: the search
  stops before the nodes run out.\<close>

definition taken :: "fs \<Rightarrow> string list \<Rightarrow> bool" where
  "taken fs k \<longleftrightarrow> is_dir fs k \<or> lookup fs k \<noteq> None"

lemma card_taken: "finite (set (map fst fs))" "card (set (map fst fs)) \<le> length fs"
  by simp (metis card_length length_map)

lemma lookup_member: "lookup fs k \<noteq> None \<Longrightarrow> k \<in> fst ` set fs"
  by (simp add: lookup_def map_of_eq_None_iff)

lemma taken_member: "taken fs (d @ [c]) \<Longrightarrow> d \<noteq> [] \<Longrightarrow> d @ [c] \<in> fst ` set fs"
  using lookup_member [of fs "d @ [c]"] by (cases d) (auto simp: taken_def is_dir_def)

lemma enough:
  assumes "\<And>m. 1 \<le> m \<Longrightarrow> m \<le> n \<Longrightarrow> taken fs (d @ [numbered_name ident m])" "d \<noteq> []"
  shows "n \<le> length fs"
proof -
  let ?f = "\<lambda>m. d @ [numbered_name ident m]"
  have "inj_on ?f {1..n}" using numbered_name_inj by (auto intro!: inj_onI)
  then have "n = card (?f ` {1..n})" by (simp add: card_image)
  also have "\<dots> \<le> card (fst ` set fs)"
    using assms taken_member by (intro card_mono) auto
  also have "\<dots> \<le> length fs" using card_taken(2) [of fs] by simp
  finally show ?thesis .
qed

lemma wp_lstat_free:
  assumes "wf_fs (files w)"
    and "\<And>x w'. becomes w (files w) w' \<Longrightarrow> E x w'"
    and "\<And>w'. becomes w (files w) w' \<Longrightarrow> \<not> taken (files w) (path_key p) \<Longrightarrow> wp (f (Some p)) E N e w'"
    and "\<And>w'. becomes w (files w) w' \<Longrightarrow> taken (files w) (path_key p) \<Longrightarrow> wp g E N e w'"
  shows "wp (tryT (os_lstat p) (\<lambda>r. case r of
        Inl err \<Rightarrow> if is_not_exist err then f (Some p) else fail err | Inr nd \<Rightarrow> g)) E N e w"
  by (rule wp_tryT, rule wp_os_lstat [OF assms(1)])
     (use assms(2-4) in \<open>auto simp: taken_def wp_fail\<close>)

text \<open>Names made by the subscriber: one component, no link to the parent, not hidden.\<close>

definition plain_name :: "string \<Rightarrow> bool" where
  "plain_name c \<longleftrightarrow> c \<noteq> [] \<and> hd c \<noteq> CHR ''.'' \<and> CHR ''/'' \<notin> set c"

lemma plain_name_proper: "plain_name c \<Longrightarrow> proper c \<and> c \<noteq> ''..''"
  by (auto simp: plain_name_def proper_def)

lemma nat_dec_no_slash: "CHR ''/'' \<notin> set (nat_dec n)"
  using nat_dec_digits [of "CHR ''/''" n] by auto

lemma plain_name_int_dec [simp]: "plain_name (int_dec i)"
proof -
  obtain c ds where c: "int_dec i = c # ds"
    "(of_char c :: nat) = 45 \<or> (48 \<le> (of_char c :: nat) \<and> (of_char c :: nat) \<le> 57)" by (rule int_dec_first)
  then have "c \<noteq> CHR ''.''" by auto
  moreover have "CHR ''/'' \<notin> set (int_dec i)" by (simp add: int_dec_def nat_dec_no_slash)
  ultimately show ?thesis by (simp add: plain_name_def c(1))
qed

lemma plain_name_numbered: "plain_name ident \<Longrightarrow> plain_name (numbered_name ident n)"
  by (auto simp: plain_name_def numbered_name_def nat_dec_no_slash)

lemma plain_release_names: "plain_name ident \<Longrightarrow> name \<in> release_names ident \<Longrightarrow> plain_name name"
  by (auto simp: release_names_def plain_name_numbered)

lemma path_key_child:
  "a \<noteq> [] \<Longrightarrow> proper c \<Longrightarrow> c \<noteq> ''..'' \<Longrightarrow> path_key (path_join [a, c]) = path_key a @ [c]"
  by (subst path_key_join) (auto simp: comps_single)

lemma becomes_refl: "becomes w (files w) w"
  by (auto simp: becomes_def)

lemma becomes_trans:
  "becomes w (files w) w1 \<Longrightarrow> becomes w1 (files w1) w2 \<Longrightarrow> becomes w (files w) w2"
  by (auto simp: becomes_def)

text \<open>The first free number is found before the fuel is spent.\<close>

lemma wp_fresh_search:
  assumes w: "wf_fs (files w0)" "becomes w0 (files w0) w"
    and dir: "releasesDir \<noteq> []" "path_key releasesDir = d" "d \<noteq> []" and ident: "plain_name ident"
    and fuel: "Suc (length (files w0)) < fuel + n" "1 \<le> n"
    and below: "\<And>m. 1 \<le> m \<Longrightarrow> m < n \<Longrightarrow> taken (files w0) (d @ [numbered_name ident m])"
    and E: "\<And>x w'. becomes w0 (files w0) w' \<Longrightarrow> E x w'"
    and N: "\<And>k w'. becomes w0 (files w0) w' \<Longrightarrow> 1 \<le> k \<Longrightarrow> \<not> taken (files w0) (d @ [numbered_name ident k])
       \<Longrightarrow> (\<And>m. 1 \<le> m \<Longrightarrow> m < k \<Longrightarrow> taken (files w0) (d @ [numbered_name ident m]))
       \<Longrightarrow> N (Some (path_join [releasesDir, numbered_name ident k])) w'"
  shows "wp (fresh_search fuel n releasesDir ident) E N e w"
  using w(2) fuel below
proof (induction fuel arbitrary: n w)
  case 0
  have "n - 1 \<le> length (files w0)"
    by (rule enough [of "n - 1" "files w0" d ident]) (use 0 dir in auto)
  then show ?case using 0 by simp
next
  case (Suc fuel)
  have f: "files w = files w0" using Suc.prems(1) by (rule becomes_files)
  have key: "path_key (path_join [releasesDir, numbered_name ident n]) = d @ [numbered_name ident n]"
    using path_key_child plain_name_proper [OF plain_name_numbered [OF ident]] dir by simp
  have on: "becomes w0 (files w0) w'" if "becomes w (files w) w'" for w'
    using becomes_trans [OF Suc.prems(1)] that by blast
  show ?case
    unfolding fresh_search.simps Let_def
  proof (rule wp_lstat_free [where f = ret])
    fix w' assume w': "becomes w (files w) w'"
      and t: "taken (files w) (path_key (path_join [releasesDir, numbered_name ident n]))"
    have "taken (files w0) (d @ [numbered_name ident m])" if "1 \<le> m" "m < Suc n" for m
      using Suc.prems(4) [of m] t that by (cases "m = n") (auto simp: key f)
    then show "wp (fresh_search fuel (Suc n) releasesDir ident) E N e w'"
      using Suc.prems(2,3) by (intro Suc.IH on [OF w']) auto
  next
    fix w' assume "becomes w (files w) w'" "\<not> taken (files w) (path_key (path_join [releasesDir, numbered_name ident n]))"
    then show "wp (ret (Some (path_join [releasesDir, numbered_name ident n]))) E N e w'"
      using Suc.prems(3,4) on by (intro wp_ret N) (auto simp: key f)
  qed (use w(1) E on f in auto)
qed

text \<open>The name that is chosen: the release's own if it is free, otherwise with the least free number.\<close>

definition fresh_name :: "fs \<Rightarrow> string list \<Rightarrow> string \<Rightarrow> string \<Rightarrow> bool" where
  "fresh_name fs d ident name \<longleftrightarrow> \<not> taken fs (d @ [name])
     \<and> (name = ident \<or> taken fs (d @ [ident]) \<and> (\<exists>k \<ge> 1. name = numbered_name ident k
          \<and> (\<forall>m. 1 \<le> m \<longrightarrow> m < k \<longrightarrow> taken fs (d @ [numbered_name ident m]))))"

lemma fresh_name_release: "fresh_name fs d ident name \<Longrightarrow> name \<in> release_names ident"
  by (auto simp: fresh_name_def release_names_def)

lemma wp_freshReleaseDir:
  assumes w: "wf_fs (files w)" and dir: "releasesDir \<noteq> []" "path_key releasesDir \<noteq> []" and ident: "plain_name ident"
    and fuel: "enough_fuel (files w) \<le> fuel"
    and E: "\<And>x w'. becomes w (files w) w' \<Longrightarrow> E x w'"
    and N: "\<And>name w'. becomes w (files w) w' \<Longrightarrow> fresh_name (files w) (path_key releasesDir) ident name
       \<Longrightarrow> N (Some (path_join [releasesDir, name])) w'"
  shows "wp (freshReleaseDir fuel releasesDir ident) E N e w"
  unfolding freshReleaseDir_def Let_def
proof (rule wp_lstat_free [where f = ret])
  have key: "path_key (path_join [releasesDir, ident]) = path_key releasesDir @ [ident]"
    using path_key_child plain_name_proper [OF ident] dir(1) by simp
  fix w' assume w': "becomes w (files w) w'"
  {
    assume "\<not> taken (files w) (path_key (path_join [releasesDir, ident]))"
    then show "wp (ret (Some (path_join [releasesDir, ident]))) E N e w'"
      by (intro wp_ret N [OF w']) (simp add: key fresh_name_def)
  next
    assume "taken (files w) (path_key (path_join [releasesDir, ident]))"
    then have t: "taken (files w) (path_key releasesDir @ [ident])" by (simp add: key)
    show "wp (fresh_search fuel 1 releasesDir ident) E N e w'"
    proof (rule wp_fresh_search [OF w w' dir(1) refl dir(2) ident])
      fix k w2 assume k: "1 \<le> k" "\<not> taken (files w) (path_key releasesDir @ [numbered_name ident k])"
        "\<And>m. 1 \<le> m \<Longrightarrow> m < k \<Longrightarrow> taken (files w) (path_key releasesDir @ [numbered_name ident m])"
        and w2: "becomes w (files w) w2"
      have "fresh_name (files w) (path_key releasesDir) ident (numbered_name ident k)"
        unfolding fresh_name_def using k t by blast
      then show "N (Some (path_join [releasesDir, numbered_name ident k])) w2" by (rule N [OF w2])
    qed (use fuel E in \<open>auto simp: enough_fuel_def\<close>)
  }
qed (use w E in auto)

text \<open>More fuel changes nothing once the search has ended.\<close>

lemma fresh_search_more:
  "fresh_search fuel n releasesDir ident e w = (r, w') \<Longrightarrow> r \<noteq> Inr None \<Longrightarrow> fuel \<le> fuel' \<Longrightarrow>
   fresh_search fuel' n releasesDir ident e w = (r, w')"
proof (induction fuel arbitrary: fuel' n w)
  case (Suc fuel)
  obtain f where f: "fuel' = Suc f" "fuel \<le> f" using Suc.prems(3) by (cases fuel') auto
  then show ?case using Suc
    by (auto simp: tryT_def Let_def split: prod.splits sum.splits)
qed (auto simp: ret_def)

text \<open>C36: The search for a free release directory ends.  On a well-formed tree, whatever calls fail, the
  loop gives its answer within one iteration more than there are files: with any larger fuel the result
  is the same, it is never the one that stands for spent fuel, and a directory it gives is a path that
  does not exist, the release's own name when that is free and otherwise the least free number.\<close>

theorem freshReleaseDir_terminates:
  assumes "wf_fs (files w)" "releasesDir \<noteq> []" "path_key releasesDir \<noteq> []" "plain_name ident"
    and "enough_fuel (files w) \<le> fuel"
  shows "freshReleaseDir fuel releasesDir ident e w = freshReleaseDir (enough_fuel (files w)) releasesDir ident e w
    \<and> fst (freshReleaseDir fuel releasesDir ident e w) \<noteq> Inr None
    \<and> (\<forall>p. fst (freshReleaseDir fuel releasesDir ident e w) = Inr (Some p) \<longrightarrow>
         (\<exists>name. p = path_join [releasesDir, name] \<and> fresh_name (files w) (path_key releasesDir) ident name))"
proof -
  let ?N = "\<lambda>r w'. \<exists>name. r = Some (path_join [releasesDir, name]) \<and> fresh_name (files w) (path_key releasesDir) ident name"
  have ends: "wp (freshReleaseDir f releasesDir ident) (\<lambda>x w'. True) ?N e w" if "enough_fuel (files w) \<le> f" for f
    by (rule wp_freshReleaseDir [OF assms(1-4) that]) auto
  obtain r w' where run: "freshReleaseDir (enough_fuel (files w)) releasesDir ident e w = (r, w')" by fastforce
  have r: "r \<noteq> Inr None" using wpD_ok [OF ends, of _ None w'] run by auto
  have "freshReleaseDir fuel releasesDir ident e w = (r, w')"
    using run fresh_search_more [OF _ r assms(5)]
    unfolding freshReleaseDir_def by (auto simp: tryT_def Let_def split: prod.splits sum.splits)
  moreover from this have "fst (freshReleaseDir fuel releasesDir ident e w) \<noteq> Inr None" using r by simp
  moreover have "\<exists>name. p = path_join [releasesDir, name] \<and> fresh_name (files w) (path_key releasesDir) ident name"
    if "fst (freshReleaseDir fuel releasesDir ident e w) = Inr (Some p)" for p
    using wpD_ok [OF ends [OF assms(5)], of "Some p" "snd (freshReleaseDir fuel releasesDir ident e w)"] that
    by (cases "freshReleaseDir fuel releasesDir ident e w") auto
  ultimately show ?thesis unfolding run by blast
qed

definition crowded_fs :: fs where
  "crowded_fs = [([''k''], Dir), ([''k'', ''3''], Dir), ([''k'', ''3.1''], Dir)]"

theorem freshReleaseDir_terminates_witness:
  "freshReleaseDir 100 ''k'' ''3'' calm_os \<lparr>files = crowded_fs, sent = [], steps = 0, trail = []\<rparr>
     = freshReleaseDir 4 ''k'' ''3'' calm_os \<lparr>files = crowded_fs, sent = [], steps = 0, trail = []\<rparr>
   \<and> fst (freshReleaseDir 4 ''k'' ''3'' calm_os \<lparr>files = crowded_fs, sent = [], steps = 0, trail = []\<rparr>)
     = Inr (Some ''k/3.2'')"
proof -
  let ?w = "\<lparr>files = crowded_fs, sent = [], steps = 0, trail = []\<rparr>"
  have wf: "wf_fs (files ?w)"
    by (auto simp: wf_fs_def crowded_fs_def lookup_def is_dir_def split: if_splits)
  have more: "''k'' \<noteq> []" "path_key ''k'' \<noteq> []" "plain_name ''3''" "enough_fuel (files ?w) \<le> 100" "enough_fuel (files ?w) = 4"
    by (code_simp, code_simp, simp add: plain_name_def, simp_all add: enough_fuel_def crowded_fs_def)
  have "fst (freshReleaseDir 4 ''k'' ''3'' calm_os ?w) = Inr (Some ''k/3.2'')" by code_simp
  then show ?thesis
    using freshReleaseDir_terminates [OF wf more(1-4), of calm_os] unfolding more(5) by blast
qed

section \<open>The check of the bytes\<close>

text \<open>What is seen below a directory.\<close>

definition below :: "fs \<Rightarrow> string list \<Rightarrow> string list \<Rightarrow> node option" where
  "below fs t = (\<lambda>q. lookup fs (t @ q))"

fun file_bytes :: "node option \<Rightarrow> string" where
  "file_bytes (Some (File b)) = b"
| "file_bytes _ = []"

definition read_docs :: "(string list \<Rightarrow> node option) \<Rightarrow> sub_doc list \<Rightarrow> (string \<times> string) list" where
  "read_docs v docs = map (\<lambda>d. (sd_path d, file_bytes (v (comps (sd_path d))))) docs"

text \<open>Every document is a file there.\<close>

definition docs_present :: "(string list \<Rightarrow> node option) \<Rightarrow> sub_doc list \<Rightarrow> bool" where
  "docs_present v docs \<longleftrightarrow> (\<forall>d \<in> set docs. \<exists>b. v (comps (sd_path d)) = Some (File b))"

lemma content_bytes_simps [simp]:
  "content_bytes [] = []"
  "content_bytes ((p, b) # pbs) = p @ [CHR 0x00] @ sha256 b @ content_bytes pbs"
  by (simp_all add: content_bytes_def nul_def)

lemma wp_hash_docs:
  assumes w: "becomes w0 (files w0) w" and dest: "destDir \<noteq> []" and ok: "\<forall>d \<in> set docs. entry_path_ok (sd_path d)"
    and E: "\<And>x w'. becomes w0 (files w0) w' \<Longrightarrow> E x w'"
    and N: "\<And>w'. becomes w0 (files w0) w' \<Longrightarrow> docs_present (below (files w0) (path_key destDir)) docs
       \<Longrightarrow> N (h @ content_bytes (read_docs (below (files w0) (path_key destDir)) docs)) w'"
  shows "wp (hash_docs destDir docs h) E N e w"
  using w ok N
proof (induction docs arbitrary: h w)
  case Nil
  then show ?case by (auto simp: read_docs_def docs_present_def intro!: wp_ret)
next
  case (Cons d docs)
  let ?p = "path_join [destDir, sd_path d]"
  have f: "files w = files w0" using Cons.prems(1) by (rule becomes_files)
  have key: "path_key ?p = path_key destDir @ comps (sd_path d)"
    using path_key_join [OF dest] Cons.prems(2) by (simp add: entry_path_ok_def)
  show ?case
    unfolding hash_docs.simps
  proof (rule wp_bindT, rule wp_wrapped, rule wp_os_read_file)
    fix b w' assume b: "lookup (files w) (path_key ?p) = Some (File b)" and w': "becomes w (files w) w'"
    have b': "below (files w0) (path_key destDir) (comps (sd_path d)) = Some (File b)" using b by (simp add: below_def key f)
    show "wp (hash_docs destDir docs (h @ sd_path d @ [CHR 0x00] @ sha256 b)) E N e w'"
    proof (rule Cons.IH [OF becomes_trans [OF Cons.prems(1)]])
      fix w2 assume "becomes w0 (files w0) w2" "docs_present (below (files w0) (path_key destDir)) docs"
      then show "N ((h @ sd_path d @ [CHR 0x00] @ sha256 b) @ content_bytes (read_docs (below (files w0) (path_key destDir)) docs)) w2"
        using Cons.prems(3) [of w2] by (auto simp: read_docs_def docs_present_def b')
    qed (use w' f Cons.prems(2) in auto)
  qed (use E becomes_trans [OF Cons.prems(1)] f in auto)
qed

text \<open>The subscriber's digest is the server's: both hash the same construction.\<close>

lemma wp_recomputeContentHash:
  assumes dest: "destDir \<noteq> []" and ok: "\<forall>d \<in> set docs. entry_path_ok (sd_path d)"
    and E: "\<And>x w'. becomes w (files w) w' \<Longrightarrow> E x w'"
    and N: "\<And>w'. becomes w (files w) w' \<Longrightarrow> docs_present (below (files w) (path_key destDir)) docs
       \<Longrightarrow> N (content_hash (read_docs (below (files w) (path_key destDir)) docs)) w'"
  shows "wp (recomputeContentHash destDir docs) E N e w"
  unfolding recomputeContentHash_def
  by (rule wp_bindT, rule wp_hash_docs [OF becomes_refl dest ok E])
     (use N in \<open>auto simp: content_hash_def intro!: wp_ret\<close>)

end
