(* ===== verification/Corpus.thy ===== *)
theory Corpus
  imports Install
begin

text \<open>
  The corpus as a session on the consumer host sees it: what is below the directory the
  corpus link points at.  The files a pass may change without anybody noticing, the
  switch of the link, and the marker of the installed release.
\<close>

section \<open>The corpus\<close>

definition corpus_key :: "string \<Rightarrow> string list" where
  "corpus_key home = path_key home @ [''corpus'']"

definition release_key :: "string \<Rightarrow> string \<Rightarrow> string list" where
  "release_key home name = path_key home @ [''releases'', name]"

definition marker_key :: "string \<Rightarrow> string list" where
  "marker_key home = path_key home @ [''.applied'']"

definition corpus_dir :: "string \<Rightarrow> fs \<Rightarrow> string list option" where
  "corpus_dir home fs =
     (case lookup fs (corpus_key home) of
        Some (Link l) \<Rightarrow> Some (path_key home @ comps l)
      | _ \<Rightarrow> None)"

definition served :: "string \<Rightarrow> fs \<Rightarrow> string list \<Rightarrow> node option" where
  "served home fs = (case corpus_dir home fs of None \<Rightarrow> (\<lambda>q. None) | Some d \<Rightarrow> below fs d)"

text \<open>A well-formed tree in which the link, if there is one, points at a release directory.\<close>

definition corpus_ok :: "string \<Rightarrow> fs \<Rightarrow> bool" where
  "corpus_ok home fs \<longleftrightarrow> wf_fs fs
     \<and> (\<forall>d. corpus_dir home fs = Some d \<longrightarrow>
          (\<exists>name. plain_name name \<and> d = release_key home name \<and> lookup fs d = Some Dir))"

text \<open>The link and the directory it points at: what nobody may touch before the switch.\<close>

definition guarded :: "string \<Rightarrow> fs \<Rightarrow> string list \<Rightarrow> bool" where
  "guarded home fs k \<longleftrightarrow> k = corpus_key home \<or> (\<exists>d. corpus_dir home fs = Some d \<and> prefix d k)"

definition agrees :: "string \<Rightarrow> fs \<Rightarrow> fs \<Rightarrow> bool" where
  "agrees home fs0 fs \<longleftrightarrow> wf_fs fs \<and> (\<forall>k. guarded home fs0 k \<longrightarrow> lookup fs k = lookup fs0 k)"

lemma agrees_refl: "corpus_ok home fs \<Longrightarrow> agrees home fs fs"
  by (simp add: agrees_def corpus_ok_def)

lemma agrees_served:
  assumes "agrees home fs0 fs" "corpus_ok home fs0"
  shows "served home fs = served home fs0" "corpus_ok home fs"
proof -
  have link: "corpus_dir home fs = corpus_dir home fs0"
    using assms(1) by (simp add: corpus_dir_def agrees_def guarded_def)
  then have "below fs d = below fs0 d" if "corpus_dir home fs0 = Some d" for d
    using assms(1) that by (auto simp: below_def agrees_def guarded_def)
  then show "served home fs = served home fs0" by (simp add: served_def link split: option.splits)
  show "corpus_ok home fs"
    using assms by (auto simp: corpus_ok_def link agrees_def guarded_def)
qed

subsection \<open>What may change\<close>

text \<open>A tree without guarded nodes.\<close>

definition apart :: "string \<Rightarrow> fs \<Rightarrow> string list \<Rightarrow> bool" where
  "apart home fs0 k \<longleftrightarrow> (\<forall>q. guarded home fs0 q \<longrightarrow> \<not> prefix k q \<and> \<not> prefix q k)"

lemma guarded_cases:
  assumes "corpus_ok home fs0" "guarded home fs0 q"
  obtains "q = corpus_key home"
  | name r where "plain_name name" "q = release_key home name @ r" "lookup fs0 (release_key home name) = Some Dir"
proof -
  from assms(2) consider "q = corpus_key home" | d where "corpus_dir home fs0 = Some d" "prefix d q"
    by (auto simp: guarded_def)
  then show thesis
  proof cases
    case (2 d)
    then obtain name where "plain_name name" "d = release_key home name" "lookup fs0 d = Some Dir"
      using assms(1) by (auto simp: corpus_ok_def)
    with 2 that(2) show thesis by (auto simp: prefix_def)
  qed (rule that(1))
qed

lemma apart_home:
  assumes "corpus_ok home fs0" "c \<noteq> ''corpus''" "c \<noteq> ''releases''"
  shows "apart home fs0 (path_key home @ [c])"
  unfolding apart_def
proof (intro allI impI)
  fix q assume "guarded home fs0 q"
  with assms(1) show "\<not> prefix (path_key home @ [c]) q \<and> \<not> prefix q (path_key home @ [c])"
    by (rule guarded_cases) (use assms(2,3) in \<open>auto simp: corpus_key_def release_key_def prefix_Cons\<close>)
qed

lemma apart_release:
  assumes "corpus_ok home fs0" "\<not> plain_name name \<or> lookup fs0 (release_key home name) = None"
  shows "apart home fs0 (release_key home name)"
  unfolding apart_def
proof (intro allI impI)
  fix q assume "guarded home fs0 q"
  with assms(1) show "\<not> prefix (release_key home name) q \<and> \<not> prefix q (release_key home name)"
    by (rule guarded_cases) (use assms(2) in \<open>auto simp: corpus_key_def release_key_def prefix_Cons\<close>)
qed

text \<open>Nothing guarded is at or above the directory of the releases.\<close>

lemma unguarded_above:
  assumes "corpus_ok home fs0" "prefix k (path_key home @ [''releases''])"
  shows "\<not> guarded home fs0 k"
proof
  assume "guarded home fs0 k"
  with assms(1) show False
  proof (rule guarded_cases)
    assume "k = corpus_key home"
    then show False using assms(2) by (simp add: corpus_key_def)
  next
    fix name r assume "k = release_key home name @ r"
    then show False using prefix_length_le [OF assms(2)] by (simp add: release_key_def)
  qed
qed

lemma apart_below: "apart home fs0 k \<Longrightarrow> prefix k q \<Longrightarrow> \<not> guarded home fs0 q"
  by (auto simp: apart_def)

lemma agrees_remove:
  assumes "agrees home fs0 fs" "apart home fs0 k" "wf_fs fs'"
    and "\<And>q. lookup fs' q = lookup fs q \<or> prefix k q"
  shows "agrees home fs0 fs'"
  unfolding agrees_def
proof (intro conjI allI impI)
  fix q assume g: "guarded home fs0 q"
  then have "\<not> prefix k q" using assms(2) by (simp add: apart_def)
  then have "lookup fs' q = lookup fs q" using assms(4) by blast
  then show "lookup fs' q = lookup fs0 q" using assms(1) g by (simp add: agrees_def)
qed (rule assms(3))

lemma agrees_drop: "agrees home fs0 fs \<Longrightarrow> apart home fs0 k \<Longrightarrow> agrees home fs0 (drop_tree k fs)"
  by (rule agrees_remove) (auto simp: agrees_def wf_fs_drop)

lemma agrees_torn: "agrees home fs0 fs \<Longrightarrow> apart home fs0 k \<Longrightarrow> agrees home fs0 (torn_tree k e n fs)"
  by (rule agrees_remove) (auto simp: agrees_def wf_fs_torn lookup_torn_tree torn_at_def)

lemma agrees_set: "agrees home fs0 fs \<Longrightarrow> \<not> guarded home fs0 k \<Longrightarrow> wf_fs (set_node k nd fs) \<Longrightarrow> agrees home fs0 (set_node k nd fs)"
  by (auto simp: agrees_def)

lemma agrees_only_in: "agrees home fs0 fs \<Longrightarrow> apart home fs0 t \<Longrightarrow> only_in t fs fs' \<Longrightarrow> agrees home fs0 fs'"
  by (rule agrees_remove) (auto simp: only_in_def)

lemma agrees_move:
  assumes "agrees home fs0 fs" "apart home fs0 a" "apart home fs0 b" "\<not> prefix a b" "\<not> prefix b a"
    and "wf_fs (move_tree a b fs)"
  shows "agrees home fs0 (move_tree a b fs)"
  using assms by (auto simp: agrees_def apart_def lookup_move_tree)

section \<open>The switch\<close>

text \<open>The link points at the release, whose directory is as it was.\<close>

definition switched :: "string \<Rightarrow> string \<Rightarrow> fs \<Rightarrow> fs \<Rightarrow> bool" where
  "switched home name fs fs' \<longleftrightarrow> wf_fs fs'
     \<and> lookup fs' (corpus_key home) = Some (Link (path_join [''releases'', name]))
     \<and> below fs' (release_key home name) = below fs (release_key home name)"

lemma comps_target:
  assumes "plain_name name"
  shows "comps (path_join [''releases'', name]) = [''releases'', name]"
proof -
  have p: "proper ''releases''" "proper name" "name \<noteq> ''..''"
    using plain_name_proper [OF assms] by (auto simp: proper_def)
  have c: "comps (''releases'' @ CHR ''/'' # name) = [''releases'', name]"
    using comps_append [of "''releases''" name] comps_single [OF p(1)] comps_single [OF p(2)] by simp
  have "clean_comps r [''releases'', name] = [''releases'', name]" for r
    using p(3) by (simp add: clean_comps_def clean_step_def)
  then show ?thesis using p c by (simp add: path_join_two Clean_def comps_render)
qed

lemma switched_served:
  assumes "switched home name fs fs'" "plain_name name"
  shows "served home fs' = below fs (release_key home name)" "corpus_dir home fs' = Some (release_key home name)"
proof -
  show "corpus_dir home fs' = Some (release_key home name)"
    using assms by (simp add: corpus_dir_def switched_def comps_target release_key_def)
  then show "served home fs' = below fs (release_key home name)"
    using assms(1) by (simp add: served_def switched_def)
qed

lemma switched_corpus_ok:
  assumes "switched home name fs fs'" "plain_name name" "lookup fs (release_key home name) = Some Dir"
  shows "corpus_ok home fs'"
proof -
  have "below fs' (release_key home name) [] = below fs (release_key home name) []"
    using assms(1) by (simp add: switched_def)
  then have "lookup fs' (release_key home name) = Some Dir" using assms(3) by (simp add: below_def)
  then show ?thesis using switched_served(2) [OF assms(1,2)] assms(1,2) by (auto simp: corpus_ok_def switched_def)
qed

lemma path_key_corpus [simp]: "home \<noteq> [] \<Longrightarrow> path_key (path_join [home, ''corpus'']) = corpus_key home"
  by (simp add: path_key_child proper_def corpus_key_def)

lemma path_key_marker [simp]: "home \<noteq> [] \<Longrightarrow> path_key (path_join [home, ''.applied'']) = marker_key home"
  by (simp add: path_key_child proper_def marker_key_def)

definition tmp_link_key :: "string \<Rightarrow> nat \<Rightarrow> string list" where
  "tmp_link_key home p = path_key home @ [''.corpus.tmp.'' @ nat_dec p]"

lemma path_key_tmp_link [simp]: "home \<noteq> [] \<Longrightarrow> path_key (tmp_link home p) = tmp_link_key home p"
  by (simp add: path_key_child proper_def tmp_link_def nat_dec_no_slash tmp_link_key_def)

text \<open>Removing something that nobody looks at, the outcome ignored.\<close>

lemma wp_best_effort:
  assumes run: "runs P w0 w" and keep: "\<And>fs. P fs \<Longrightarrow> P (drop_tree (path_key p) fs)"
    and N: "\<And>w'. runs P w0 w' \<Longrightarrow> wp m E N e w'"
  shows "wp (tryT (os_remove p) (\<lambda>_. m)) E N e w"
  by (rule wp_tryT, rule wp_os_remove)
     (use runs_becomes [OF run] runs_now [OF run] keep N in blast)+

lemma wp_get_pid: "N (pid e) w \<Longrightarrow> wp get_pid E N e w"
  by (simp add: wp_def get_pid_def)

lemma below_set: "\<not> prefix d k \<Longrightarrow> below (set_node k nd fs) d = below fs d"
  by (rule ext) (auto simp: below_def)

lemma below_drop: "\<not> prefix k d \<Longrightarrow> \<not> prefix d k \<Longrightarrow> below (drop_tree k fs) d = below fs d"
  by (rule ext) (auto simp: below_def prefix_append)

text \<open>What holds until the switch: nothing guarded has changed, and the new release is as it was.\<close>

definition before_flip :: "string \<Rightarrow> string \<Rightarrow> fs \<Rightarrow> fs \<Rightarrow> fs \<Rightarrow> bool" where
  "before_flip home name fs0 fs fs' \<longleftrightarrow>
     agrees home fs0 fs' \<and> below fs' (release_key home name) = below fs (release_key home name)"

lemma before_flip_agrees: "before_flip home name fs0 fs fs' \<Longrightarrow> agrees home fs0 fs'"
  by (simp add: before_flip_def)

definition flip_ends :: "string \<Rightarrow> string \<Rightarrow> fs \<Rightarrow> world \<Rightarrow> world \<Rightarrow> bool" where
  "flip_ends home name fs0 w w' \<longleftrightarrow>
     runs (\<lambda>fs'. agrees home fs0 fs' \<or> switched home name (files w) fs') w w'
     \<and> switched home name (files w) (files w')"

lemma tmp_link_key_apart:
  "\<not> prefix (release_key home name) (tmp_link_key home p)" "\<not> prefix (tmp_link_key home p) (release_key home name)"
  "\<not> prefix (tmp_link_key home p) (corpus_key home)" "\<not> prefix (corpus_key home) (tmp_link_key home p)"
  "\<not> prefix (corpus_key home) (release_key home name @ q)" "\<not> prefix (tmp_link_key home p) (release_key home name @ q)"
  by (auto simp: tmp_link_key_def release_key_def corpus_key_def prefix_Cons)

lemma apart_tmp_link_key: "corpus_ok home fs0 \<Longrightarrow> apart home fs0 (tmp_link_key home p)"
  unfolding tmp_link_key_def by (rule apart_home) auto

lemma before_flip_drop:
  "corpus_ok home fs0 \<Longrightarrow> before_flip home name fs0 fs fs' \<Longrightarrow> before_flip home name fs0 fs (drop_tree (tmp_link_key home p) fs')"
  by (simp add: before_flip_def agrees_drop apart_tmp_link_key below_drop tmp_link_key_apart)

lemma before_flip_link:
  assumes "corpus_ok home fs0" "before_flip home name fs0 fs fs'"
    and "is_dir fs' (butlast (tmp_link_key home p))" "\<not> is_dir fs' (tmp_link_key home p)"
  shows "before_flip home name fs0 fs (set_node (tmp_link_key home p) (Link l) fs')"
proof -
  have "wf_fs (set_node (tmp_link_key home p) (Link l) fs')"
    using assms by (intro wf_fs_set) (auto simp: before_flip_def agrees_def is_dir_def)
  moreover have "\<not> guarded home fs0 (tmp_link_key home p)"
    by (rule apart_below [OF apart_tmp_link_key [OF assms(1), of p]]) simp
  ultimately show ?thesis using assms(2) by (simp add: before_flip_def agrees_set below_set tmp_link_key_apart)
qed

lemma before_flip_move:
  assumes "before_flip home name fs0 fs fs'" and l: "lookup fs' (tmp_link_key home p) = Some (Link (path_join [''releases'', name]))"
    and "is_dir fs' (butlast (corpus_key home))"
  shows "switched home name fs (move_tree (tmp_link_key home p) (corpus_key home) fs')"
proof -
  have "wf_fs (move_tree (tmp_link_key home p) (corpus_key home) fs')"
    using assms tmp_link_key_apart by (intro wf_fs_move [OF _ l]) (auto simp: before_flip_def agrees_def corpus_key_def)
  moreover have "below (move_tree (tmp_link_key home p) (corpus_key home) fs') (release_key home name) = below fs' (release_key home name)"
    using tmp_link_key_apart by (simp add: below_def lookup_move_tree)
  ultimately show ?thesis using assms tmp_link_key_apart by (simp add: switched_def before_flip_def lookup_move_tree)
qed

lemma wp_flip_rename:
  assumes ok: "corpus_ok home fs0" and home: "home \<noteq> []"
    and run: "runs (before_flip home name fs0 (files w)) w w1"
    and l: "lookup (files w1) (tmp_link_key home p) = Some (Link (path_join [''releases'', name]))"
  shows "wp (tryT (os_rename (tmp_link home p) (path_join [home, ''corpus''])) (\<lambda>r. case r of
        Inl err \<Rightarrow> tryT (os_remove (tmp_link home p)) (\<lambda>_. fail (OsError (m @ os_text err)))
      | Inr _ \<Rightarrow> ret ())) (\<lambda>x. runs (agrees home fs0) w) (\<lambda>_. flip_ends home name fs0 w) e w1"
proof (rule wp_tryT, rule wp_os_rename)
  fix x w2 assume "becomes w1 (files w1) w2"
  then have "runs (before_flip home name fs0 (files w)) w w2" using runs_becomes [OF run _ runs_now [OF run]] by blast
  then show "wp (case Inl x of Inl err \<Rightarrow> tryT (os_remove (tmp_link home p)) (\<lambda>_. fail (OsError (m @ os_text err)))
      | Inr _ \<Rightarrow> ret ()) (\<lambda>x. runs (agrees home fs0) w) (\<lambda>_. flip_ends home name fs0 w) e w2"
    unfolding sum.case
    by (rule wp_best_effort)
       (auto simp: home before_flip_drop [OF ok] intro!: wp_fail intro: before_flip_agrees elim!: runs_mono)
next
  fix w2 assume b: "becomes w1 (move_tree (path_key (tmp_link home p)) (path_key (path_join [home, ''corpus''])) (files w1)) w2"
    and d: "is_dir (files w1) (butlast (path_key (path_join [home, ''corpus''])))"
  have sw: "switched home name (files w) (files w2)"
    using before_flip_move [OF runs_now [OF run] l] d becomes_files [OF b] home by simp
  have "runs (\<lambda>fs'. agrees home fs0 fs' \<or> switched home name (files w) fs') w w2"
    by (rule runs_becomes [OF runs_mono [OF run] b]) (use sw becomes_files [OF b] in \<open>auto simp: before_flip_def\<close>)
  with sw show "wp (case Inr () of Inl err \<Rightarrow> tryT (os_remove (tmp_link home p)) (\<lambda>_. fail (OsError (m @ os_text err)))
      | Inr _ \<Rightarrow> ret ()) (\<lambda>x. runs (agrees home fs0) w) (\<lambda>_. flip_ends home name fs0 w) e w2"
    by (simp add: wp_ret flip_ends_def)
qed

lemma wp_flipCorpus:
  assumes ok: "corpus_ok home fs0" and home: "home \<noteq> []" and fs: "agrees home fs0 (files w)"
  shows "wp (flipCorpus home name) (\<lambda>x. runs (agrees home fs0) w) (\<lambda>_. flip_ends home name fs0 w) e w"
  unfolding flipCorpus_def Let_def
proof (rule wp_bindT, rule wp_get_pid, rule wp_best_effort [where P = "before_flip home name fs0 (files w)"], rule runs_refl)
  let ?I = "before_flip home name fs0 (files w)" and ?p = "pid e"
  show "?I (files w)" using fs by (simp add: before_flip_def)
  show "?I (drop_tree (path_key (tmp_link home ?p)) fs')" if "?I fs'" for fs'
    using before_flip_drop [OF ok that] home by simp
  fix w1 assume w1: "runs ?I w w1"
  show "wp (bindT (wrapped ''create temp symlink'' (os_symlink (path_join [''releases'', name]) (tmp_link home ?p))) (\<lambda>_.
      tryT (os_rename (tmp_link home ?p) (path_join [home, ''corpus''])) (\<lambda>r. case r of
        Inl err \<Rightarrow> tryT (os_remove (tmp_link home ?p)) (\<lambda>_.
          fail (OsError (''rename symlink onto corpus: '' @ os_text err)))
      | Inr _ \<Rightarrow> ret ()))) (\<lambda>x. runs (agrees home fs0) w) (\<lambda>_. flip_ends home name fs0 w) e w1"
  proof (rule wp_bindT, rule wp_wrapped, rule wp_os_symlink)
    fix w2 assume "becomes w1 (files w1) w2"
    then show "runs (agrees home fs0) w w2"
      using runs_becomes [OF runs_mono [OF w1]] runs_now [OF w1] by (auto simp: before_flip_def)
  next
    fix w2 assume b: "becomes w1 (set_node (path_key (tmp_link home ?p)) (Link (path_join [''releases'', name])) (files w1)) w2"
      and d: "is_dir (files w1) (butlast (path_key (tmp_link home ?p)))" "\<not> is_dir (files w1) (path_key (tmp_link home ?p))"
    show "wp (tryT (os_rename (tmp_link home ?p) (path_join [home, ''corpus''])) (\<lambda>r. case r of
        Inl err \<Rightarrow> tryT (os_remove (tmp_link home ?p)) (\<lambda>_.
          fail (OsError (''rename symlink onto corpus: '' @ os_text err)))
      | Inr _ \<Rightarrow> ret ())) (\<lambda>x. runs (agrees home fs0) w) (\<lambda>_. flip_ends home name fs0 w) e w2"
    proof (rule wp_flip_rename [OF ok home])
      show "runs ?I w w2"
        by (rule runs_becomes [OF w1 b])
           (use before_flip_link [OF ok runs_now [OF w1], of ?p] d home in simp)
      show "lookup (files w2) (tmp_link_key home ?p) = Some (Link (path_join [''releases'', name]))"
        using becomes_files [OF b] home by simp
    qed
  qed
qed

end
