(* ===== verification/Marker.thy ===== *)
theory Marker
  imports Corpus
begin

text \<open>
  The marker of the installed release: written and read back, removed to forget it.
\<close>

lemma is_word_append: "is_word a \<Longrightarrow> is_word b \<Longrightarrow> is_word (a @ b)"
  by (auto simp: is_word_def)

lemma is_word_nat_dec: "is_word (nat_dec n)"
proof -
  have "32 < (of_char c :: nat) \<and> (of_char c :: nat) < 127" if "c \<in> set (nat_dec n)" for c
    using nat_dec_digits [OF that] by simp
  then show ?thesis by (simp add: is_word_def list_all_iff)
qed

lemma is_word_int_dec: "is_word (int_dec i)"
  using is_word_append [of "''-''" "nat_dec (nat (- i))"] is_word_nat_dec by (simp add: int_dec_def is_word_def)

lemma hex_digit_visible: "n < 16 \<Longrightarrow> 32 < (of_char (hex_digit n) :: nat) \<and> (of_char (hex_digit n) :: nat) < 127"
  by (simp add: of_char_hex_digit)

lemma hex_encode_visible: "c \<in> set (hex_encode s) \<Longrightarrow> 32 < (of_char c :: nat) \<and> (of_char c :: nat) < 127"
  by (induction s) (auto simp: hex_digit_visible Let_def)

lemma is_word_content_hash: "is_word (content_hash pbs)"
  unfolding content_hash_def using hex_encode_visible [of _ "sha256 (content_bytes pbs)"]
  by (auto simp: is_word_def list_all_iff)

lemma parse_marker_text: "is_word ident \<Longrightarrow> is_word hash \<Longrightarrow> parse_marker (marker_text ident hash) = Some (ident, hash)"
  using fields_two_words [of ident hash] by (simp add: parse_marker_def marker_text_def)

section \<open>Writing it\<close>

text \<open>A path that can be walked still can when its last component changes.\<close>

lemma walk_error_set: "walk_error p fs = None \<Longrightarrow> walk_error p (set_node (path_key p) nd fs) = None"
  by (auto simp: walk_error_def find_None_iff set_ancestors is_dir_def split: option.splits)

lemma at_path_create:
  "at_path p (\<lambda>fs nd. case nd of
       Some Dir \<Rightarrow> Inl (OsError (p @ '': is a directory''))
     | Some (Link t) \<Rightarrow> Inl (OsError (p @ '': too many levels of symbolic links''))
     | _ \<Rightarrow> Inr ((), set_node (path_key p) (File []) fs)) fs = Inr ((), fs')
   \<Longrightarrow> walk_error p fs = None \<and> \<not> is_dir fs (path_key p) \<and> fs' = set_node (path_key p) (File []) fs"
  by (frule at_path_Inr(1), drule at_path_Inr(3)) (auto split: option.splits node.splits if_splits)

text \<open>Every state on the way has a file at the path and nothing else changed; at the end it
  holds all of the bytes, and can be read back.\<close>

definition file_written :: "string \<Rightarrow> fs \<Rightarrow> fs \<Rightarrow> bool" where
  "file_written p fs fs' \<longleftrightarrow> fs' = fs \<or>
     (\<exists>c fs1. fs' = set_node (path_key p) (File c) fs1 \<and> (\<forall>q. q \<noteq> path_key p \<longrightarrow> lookup fs1 q = lookup fs q)
        \<and> is_dir fs (butlast (path_key p)) \<and> \<not> is_dir fs (path_key p))"

lemma file_written_lookup: "file_written p fs fs' \<Longrightarrow> q \<noteq> path_key p \<Longrightarrow> lookup fs' q = lookup fs q"
  by (auto simp: file_written_def)

lemma file_written_again:
  assumes "file_written p fs (set_node (path_key p) (File c) fs1)"
    and "is_dir fs (butlast (path_key p)) \<and> \<not> is_dir fs (path_key p)"
  shows "file_written p fs (set_node (path_key p) (File c') (set_node (path_key p) (File c) fs1))"
  unfolding file_written_def
  using assms(2) file_written_lookup [OF assms(1)] by (intro disjI2 exI conjI) auto

lemma wp_os_write_file:
  assumes E: "\<And>x w'. runs (file_written p (files w)) w w' \<Longrightarrow> E x w'"
    and N: "\<And>w'. runs (file_written p (files w)) w w' \<Longrightarrow> lookup (files w') (path_key p) = Some (File bs)
       \<Longrightarrow> walk_error p (files w') = None \<Longrightarrow> \<not> is_dir (files w') (path_key p) \<Longrightarrow> N () w'"
  shows "wp (os_write_file p bs) E N e w"
  unfolding os_write_file_def
proof (rule wp_bindT, unfold os_create_def, rule wp_os_step)
  let ?k = "path_key p" and ?W = "file_written p (files w)"
  have start: "runs ?W w w" by (rule runs_refl) (simp add: file_written_def)
  { fix m n w' assume "becomes w (intact e n (files w)) w'"
    then show "E (OsError m) w'" using runs_becomes [OF start] E by (auto simp: intact_def file_written_def) }
  { fix x w' assume "becomes w (files w) w'"
    then show "E x w'" using runs_becomes [OF start] E by (auto simp: file_written_def) }
  fix a fs w1
  assume b: "becomes w fs w1" and "at_path p (\<lambda>fs nd. case nd of
       Some Dir \<Rightarrow> Inl (OsError (p @ '': is a directory''))
     | Some (Link t) \<Rightarrow> Inl (OsError (p @ '': too many levels of symbolic links''))
     | _ \<Rightarrow> Inr ((), set_node ?k (File []) fs)) (files w) = Inr (a, fs)"
  then have c: "walk_error p (files w) = None" "\<not> is_dir (files w) ?k" "fs = set_node ?k (File []) (files w)"
    using at_path_create [of p "files w" fs] by auto
  have d: "is_dir (files w) (butlast ?k) \<and> \<not> is_dir (files w) ?k" using walk_parent [OF c(1)] c(2) by blast
  have W: "?W fs" unfolding c(3) file_written_def using d by blast
  have f1: "files w1 = fs" by (rule becomes_files [OF b])
  have w1: "runs ?W w w1" by (rule runs_becomes [OF start b W])
  have again: "runs ?W w w2" if "becomes w1 (set_node ?k (File c) (files w1)) w2" for w2 c
    by (rule runs_becomes [OF w1 that]) (use file_written_again [of p "files w" "[]" "files w"] W d in \<open>simp add: f1 c(3)\<close>)
  have stay: "runs ?W w w3" if "runs ?W w w2" "becomes w2 (files w2) w3" for w2 w3
    by (rule runs_becomes [OF that runs_now [OF that(1)]])
  show "wp (bindT (os_write p bs) (\<lambda>_. os_close)) E N e w1"
  proof (rule wp_bindT, rule wp_os_write)
    show "E x w2" if "becomes w1 (set_node ?k (File c) (files w1)) w2" for x c w2 by (rule E [OF again [OF that]])
    fix w2 assume b2: "becomes w1 (set_node ?k (File bs) (files w1)) w2"
    have f2: "files w2 = set_node ?k (File bs) (set_node ?k (File []) (files w))"
      using becomes_files [OF b2] by (simp add: f1 c(3))
    show "wp os_close E N e w2"
    proof (rule wp_os_close)
      fix w3 assume b3: "becomes w2 (files w2) w3"
      note w3 = stay [OF again [OF b2] b3]
      show "E x w3" for x by (rule E [OF w3])
      have "walk_error p (files w3) = None"
        using walk_error_set [OF walk_error_set [OF c(1)]] becomes_files [OF b3] by (simp add: f2)
      then show "N () w3"
        using c(2) becomes_files [OF b3] by (intro N [OF w3]) (auto simp: f2 is_dir_def)
    qed
  qed
qed

section \<open>Forgetting it\<close>

text \<open>Removing a path: when the call says there was none, there was none.\<close>

lemma wp_os_remove_known:
  assumes wf: "wf_fs (files w)"
    and absent: "\<And>x w'. becomes w (files w) w' \<Longrightarrow> is_not_exist x \<Longrightarrow> lookup (files w) (path_key p) = None \<Longrightarrow> E x w'"
    and other: "\<And>x w'. becomes w (files w) w' \<Longrightarrow> \<not> is_not_exist x \<Longrightarrow> E x w'"
    and N: "\<And>w'. becomes w (drop_tree (path_key p) (files w)) w' \<Longrightarrow> N () w'"
  shows "wp (os_remove p) E N e w"
  unfolding os_remove_def
proof (rule wp_os_step)
  let ?f = "\<lambda>fs nd. case nd of None \<Rightarrow> Inl (NotExist p)
     | Some x \<Rightarrow> if list_ex (\<lambda>kv. strict_prefix (path_key p) (fst kv)) fs
         then Inl (OsError (p @ '': directory not empty'')) else Inr ((), drop_tree (path_key p) fs)"
  fix x w' assume x: "at_path p ?f (files w) = Inl x" and w': "becomes w (files w) w'"
  have f: "\<not> is_not_exist y" if "?f fs (Some nd) = Inl y" for fs nd y
    using that by (auto split: if_splits)
  show "E x w'"
  proof (cases "is_not_exist x")
    case True
    show ?thesis by (rule absent [OF w' True], rule at_path_NotExist(2) [OF wf x True], rule f)
  qed (rule other [OF w'])
qed (use other N in \<open>auto simp: intact_def dest!: at_path_Inr(3) split: option.splits if_splits\<close>)

section \<open>Reading it back\<close>

lemma readApplied_file:
  assumes "os_fault e (steps w) = None" "walk_error p (files w) = None" "\<not> is_dir (files w) (path_key p)"
    and "lookup (files w) (path_key p) = Some (File m)"
  shows "fst (readApplied p e w) = Inr (parse_marker m)"
  using assms by (simp add: readApplied_def tryT_def os_read_file_def os_step_def at_path_def ret_def)

text \<open>What the subscriber writes into its marker is what it reads there.  After a marker for any
  release number and any content hash was written without an error, reading it gives exactly that pair,
  unless the read itself fails; and no other file has changed.\<close>

theorem writeApplied_readApplied:
  assumes "writeApplied path (int_dec i) (content_hash pbs) e w = (Inr (), w1)" "os_fault e (steps w1) = None"
  shows "fst (readApplied path e w1) = Inr (Some (int_dec i, content_hash pbs))
    \<and> (\<forall>q. q \<noteq> path_key path \<longrightarrow> lookup (files w1) q = lookup (files w) q)"
proof -
  let ?text = "marker_text (int_dec i) (content_hash pbs)"
  have "wp (os_write_file path ?text) (\<lambda>x w'. True) (\<lambda>_ w'. file_written path (files w) (files w')
      \<and> lookup (files w') (path_key path) = Some (File ?text) \<and> walk_error path (files w') = None
      \<and> \<not> is_dir (files w') (path_key path)) e w"
    by (rule wp_os_write_file) (auto dest: runs_now)
  then have d: "file_written path (files w) (files w1) \<and> lookup (files w1) (path_key path) = Some (File ?text)
      \<and> walk_error path (files w1) = None \<and> \<not> is_dir (files w1) (path_key path)"
    using wpD_ok assms(1) unfolding writeApplied_def by fast
  have "parse_marker ?text = Some (int_dec i, content_hash pbs)"
    by (rule parse_marker_text [OF is_word_int_dec is_word_content_hash])
  then show ?thesis using d readApplied_file [OF assms(2), of path ?text] file_written_lookup by auto
qed

theorem writeApplied_readApplied_witness:
  "let w = \<lparr>files = crowded_fs, sent = [], steps = 0, trail = []\<rparr>;
       run = writeApplied ''k/.applied'' (int_dec 7) (content_hash [(''a.md'', ''text'')]) calm_os w
   in fst run = Inr () \<and> fst (readApplied ''k/.applied'' calm_os (snd run)) = Inr (Some (''7'', content_hash [(''a.md'', ''text'')]))"
proof -
  let ?w = "\<lparr>files = crowded_fs, sent = [], steps = 0, trail = []\<rparr>"
  let ?run = "writeApplied ''k/.applied'' (int_dec 7) (content_hash [(''a.md'', ''text'')]) calm_os ?w"
  have k: "path_key ''k/.applied'' = [''k'', ''.applied'']" by code_simp
  have "fst ?run = Inr ()"
    by (simp add: writeApplied_def os_write_file_def bindT_def os_create_def os_write_def os_close_def os_step_def
        calm_os_def at_path_def walk_error_def k crowded_fs_def ancestors_def is_dir_def lookup_def)
  moreover from this have "fst (readApplied ''k/.applied'' calm_os (snd ?run)) = Inr (Some (int_dec 7, content_hash [(''a.md'', ''text'')]))"
    using writeApplied_readApplied [of "''k/.applied''" 7 "[(''a.md'', ''text'')]" calm_os ?w "snd ?run"]
    by (simp add: prod_eq_iff calm_os_def)
  moreover have "int_dec 7 = ''7''" by code_simp
  ultimately show ?thesis by (simp add: Let_def)
qed

end
