(* ===== verification/Converge.thy ===== *)
theory Converge
  imports Marker
begin

text \<open>
  One pass of the subscriber (\<open>converge\<close>): fetch the current release, and unless it is
  installed already, fetch its archive, check it, install it and switch the corpus to it;
  then report.  The early returns of the code are the branches that call \<open>give_up\<close>.
\<close>

section \<open>The pass\<close>

text \<open>\<open>if err := m; err != nil { stop(err); return }\<close>, and on with the value.\<close>

definition checked :: "'a os \<Rightarrow> (os_error \<Rightarrow> unit os) \<Rightarrow> ('a \<Rightarrow> unit os) \<Rightarrow> unit os" where
  "checked m stop k = tryT m (\<lambda>r. case r of Inl err \<Rightarrow> stop err | Inr x \<Rightarrow> k x)"

definition give_up :: "string \<Rightarrow> string \<Rightarrow> string \<Rightarrow> int \<Rightarrow> os_error \<Rightarrow> unit os" where
  "give_up server host token releaseID err = heartbeat server host token releaseID False (os_text err) False"

text \<open>\<open>os.RemoveAll(tmpDir)\<close>, whose error is ignored, and then the rest.\<close>

definition discarding :: "string \<Rightarrow> unit os \<Rightarrow> unit os" where
  "discarding tmpDir m = tryT (os_remove_all tmpDir) (\<lambda>_. m)"

definition clear_marker :: "bool \<Rightarrow> string \<Rightarrow> bool os" where
  "clear_marker resync appliedPath =
     (if resync then
        tryT (os_remove appliedPath) (\<lambda>r. case r of
          Inl err \<Rightarrow> if is_not_exist err then ret True else fail err
        | Inr _ \<Rightarrow> ret True)
      else ret False)"

definition tmp_dir :: "string \<Rightarrow> string \<Rightarrow> nat \<Rightarrow> string" where
  "tmp_dir releasesDir ident p = path_join [releasesDir, CHR ''.'' # ident @ ''.tmp.'' @ nat_dec p]"

text \<open>The loop of \<open>freshReleaseDir\<close> with fuel that is enough (\<open>freshReleaseDir_terminates\<close>).\<close>

definition pick_dir :: "string \<Rightarrow> string \<Rightarrow> string os" where
  "pick_dir releasesDir ident =
     bindT (\<lambda>e w. freshReleaseDir (enough_fuel (files w)) releasesDir ident e w) (\<lambda>r.
     case r of Some p \<Rightarrow> ret p | None \<Rightarrow> fail (OsError ''no free release directory''))"

definition install :: "string \<Rightarrow> string \<Rightarrow> string \<Rightarrow> string \<Rightarrow> cur_release \<Rightarrow> bool \<Rightarrow> string \<Rightarrow> string \<Rightarrow> unit os" where
  "install server home host token cur resyncFired releasesDir tmpDir =
     (let stop = give_up server host token (cr_id cur) in
      checked (pick_dir releasesDir (int_dec (cr_id cur))) (\<lambda>err. discarding tmpDir (stop err)) (\<lambda>releaseDir.
      checked (os_rename tmpDir releaseDir) (\<lambda>err. discarding tmpDir (stop err)) (\<lambda>_.
      checked (flipCorpus home (path_base releaseDir)) stop (\<lambda>_.
      checked (writeApplied (path_join [home, ''.applied'']) (int_dec (cr_id cur)) (cr_hash cur)) stop (\<lambda>_.
      heartbeat server host token (cr_id cur) True [] resyncFired)))))"

definition hash_check :: "string \<Rightarrow> cur_release \<Rightarrow> unit os" where
  "hash_check tmpDir cur =
     tryT (recomputeContentHash tmpDir (elems (cr_docs cur))) (\<lambda>r. case r of
       Inl err \<Rightarrow> fail (OsError (''recompute content hash: '' @ os_text err))
     | Inr gotHash \<Rightarrow>
         if gotHash \<noteq> cr_hash cur
         then fail (OsError (''content hash mismatch: want '' @ cr_hash cur @ '' got '' @ gotHash))
         else ret ())"

definition unpack :: "string \<Rightarrow> string \<Rightarrow> string \<Rightarrow> string \<Rightarrow> cur_release \<Rightarrow> bool \<Rightarrow> string \<Rightarrow> string \<Rightarrow> string list \<Rightarrow> unit os" where
  "unpack server home host token cur resyncFired releasesDir tmpDir want =
     (let stop = give_up server host token (cr_id cur) in
      checked (os_mkdir_all tmpDir) stop (\<lambda>_.
      checked (fetchAndExtractArchive server token (cr_id cur) tmpDir want) (\<lambda>err. discarding tmpDir (stop err)) (\<lambda>_.
      checked (hash_check tmpDir cur) (\<lambda>err. discarding tmpDir (stop err)) (\<lambda>_.
      install server home host token cur resyncFired releasesDir tmpDir))))"

definition materialize :: "string \<Rightarrow> string \<Rightarrow> string \<Rightarrow> string \<Rightarrow> cur_release \<Rightarrow> bool \<Rightarrow> unit os" where
  "materialize server home host token cur resyncFired =
     (let releasesDir = path_join [home, ''releases''];
          stop = give_up server host token (cr_id cur) in
      checked (os_mkdir_all releasesDir) stop (\<lambda>_.
      bindT get_pid (\<lambda>p.
      let tmpDir = tmp_dir releasesDir (int_dec (cr_id cur)) p in
      checked (lift_result (buildWantSet tmpDir (elems (cr_docs cur)))) stop (\<lambda>want.
      discarding tmpDir (unpack server home host token cur resyncFired releasesDir tmpDir want)))))"

definition converge_on :: "string \<Rightarrow> string \<Rightarrow> string \<Rightarrow> string \<Rightarrow> cur_release \<Rightarrow> unit os" where
  "converge_on server home host token cur =
     (let appliedPath = path_join [home, ''.applied''] in
      checked (clear_marker (cr_resync cur) appliedPath) (give_up server host token (cr_id cur)) (\<lambda>resyncFired.
      bindT (readApplied appliedPath) (\<lambda>applied.
      if applied = Some (int_dec (cr_id cur), cr_hash cur)
      then heartbeat server host token (cr_id cur) True [] False
      else materialize server home host token cur resyncFired)))"

definition converge :: "string \<Rightarrow> string \<Rightarrow> string \<Rightarrow> string \<Rightarrow> unit os" where
  "converge server home host token =
     checked (fetchCurrent server host token) (give_up server host token 0)
       (converge_on server home host token)"

section \<open>What a pass may do\<close>

text \<open>The view of a release whose bytes were checked.\<close>

definition verified :: "cur_release \<Rightarrow> (string list \<Rightarrow> node option) \<Rightarrow> bool" where
  "verified cur v \<longleftrightarrow> v [] = Some Dir \<and> docs_present v (elems (cr_docs cur))
     \<and> content_hash (read_docs v (elems (cr_docs cur))) = cr_hash cur"

text \<open>Nothing but its documents and directories.\<close>

definition exactly :: "cur_release \<Rightarrow> (string list \<Rightarrow> node option) \<Rightarrow> bool" where
  "exactly cur v \<longleftrightarrow> (\<forall>q nd. v q = Some nd \<longrightarrow>
     nd = Dir \<or> (\<exists>b. nd = File b) \<and> q \<in> (\<lambda>d. comps (sd_path d)) ` set (elems (cr_docs cur)))"

text \<open>No leftover of an earlier process with the same number.\<close>

definition no_leftover :: "string \<Rightarrow> nat \<Rightarrow> fs \<Rightarrow> bool" where
  "no_leftover home p fs \<longleftrightarrow>
     (\<forall>i. lookup fs (release_key home (CHR ''.'' # int_dec i @ ''.tmp.'' @ nat_dec p)) = None)"

text \<open>What the corpus can be at any moment of a pass: as before, or a checked release.\<close>

definition pass_view :: "string \<Rightarrow> (cur_release \<Rightarrow> bool) \<Rightarrow> nat \<Rightarrow> fs \<Rightarrow> fs \<Rightarrow> bool" where
  "pass_view home offers p fs0 fs \<longleftrightarrow> corpus_ok home fs \<and>
     (served home fs = served home fs0
      \<or> (\<exists>cur. offers cur \<and> verified cur (served home fs) \<and> (no_leftover home p fs0 \<longrightarrow> exactly cur (served home fs))))"

text \<open>The marker on disk names the release.\<close>

definition marked :: "string \<Rightarrow> cur_release \<Rightarrow> fs \<Rightarrow> bool" where
  "marked home cur fs \<longleftrightarrow>
     (\<exists>m. lookup fs (marker_key home) = Some (File m) \<and> parse_marker m = Some (int_dec (cr_id cur), cr_hash cur))"

text \<open>What a report may claim.\<close>

definition honest :: "string \<Rightarrow> (cur_release \<Rightarrow> bool) \<Rightarrow> fs \<Rightarrow> fs \<Rightarrow> heartbeat_body \<Rightarrow> bool" where
  "honest home offers fs0 fs b \<longleftrightarrow>
     (hb_ok b \<longrightarrow> hb_error b = None
        \<and> (\<exists>cur. offers cur \<and> hb_release b = cr_id cur \<and> marked home cur fs \<and> hb_resync b = cr_resync cur
             \<and> (cr_resync cur \<or> \<not> marked home cur fs0 \<longrightarrow> verified cur (served home fs))))
     \<and> (\<not> hb_ok b \<longrightarrow> \<not> hb_resync b)"

definition passed :: "(fs \<Rightarrow> bool) \<Rightarrow> world \<Rightarrow> world \<Rightarrow> bool" where
  "passed P w0 w \<longleftrightarrow> P (files w) \<and> (\<forall>fs \<in> set (trail w). P fs \<or> fs \<in> set (trail w0))
     \<and> (\<exists>gets. sent w = sent w0 @ gets \<and> (\<forall>rq \<in> set gets. rq_method rq = ''GET''))"

text \<open>The end of a pass: one report, after the fetches.\<close>

definition reported :: "string \<Rightarrow> string \<Rightarrow> string \<Rightarrow> (cur_release \<Rightarrow> bool) \<Rightarrow> (fs \<Rightarrow> bool) \<Rightarrow> world \<Rightarrow> world \<Rightarrow> bool" where
  "reported server home token offers P w0 w \<longleftrightarrow> P (files w) \<and> (\<forall>fs \<in> set (trail w). P fs \<or> fs \<in> set (trail w0))
     \<and> (\<exists>gets b. sent w = sent w0 @ gets @ [heartbeat_request server token b]
          \<and> (\<forall>rq \<in> set gets. rq_method rq = ''GET'') \<and> honest home offers (files w0) (files w) b)"

lemma passed_refl: "P (files w) \<Longrightarrow> passed P w w"
  by (simp add: passed_def)

lemma passed_runs: "passed P w0 w \<Longrightarrow> runs P w w' \<Longrightarrow> passed P w0 w'"
  by (auto simp: passed_def runs_def)

lemma passed_becomes: "passed P w0 w \<Longrightarrow> becomes w fs w' \<Longrightarrow> P fs \<Longrightarrow> passed P w0 w'"
  by (auto simp: passed_def becomes_def)

lemma passed_asked: "passed P w0 w \<Longrightarrow> asked w (get_request u token) w' \<Longrightarrow> passed P w0 w'"
  by (auto simp: passed_def asked_def get_request_def)

lemma passed_now: "passed P w0 w \<Longrightarrow> P (files w)"
  by (simp add: passed_def)

lemma passed_mono: "passed P w0 w \<Longrightarrow> (\<And>fs. P fs \<Longrightarrow> Q fs) \<Longrightarrow> passed Q w0 w"
  by (auto simp: passed_def)

lemma wp_report:
  assumes "passed P w0 w"
    and "honest home offers (files w0) (files w)
       \<lparr>hb_host = host, hb_release = releaseID, hb_ok = ok, hb_error = (if m \<noteq> [] then Some m else None), hb_resync = rs\<rparr>"
  shows "wp (heartbeat server host token releaseID ok m rs) E (\<lambda>_. reported server home token offers P w0) e w"
  by (rule wp_heartbeat) (use assms in \<open>auto simp: passed_def reported_def asked_def\<close>)

lemma wp_give_up:
  "passed P w0 w \<Longrightarrow> wp (give_up server host token releaseID err) E (\<lambda>_. reported server home token offers P w0) e w"
  unfolding give_up_def by (rule wp_report) (auto simp: honest_def)

lemma wp_checked:
  "wp m (\<lambda>x w'. wp (stop x) E N e w') (\<lambda>x w'. wp (k x) E N e w') e w \<Longrightarrow> wp (checked m stop k) E N e w"
  unfolding checked_def by (rule wp_tryT) simp

section \<open>Until the release is checked\<close>

definition tmp_key :: "string \<Rightarrow> int \<Rightarrow> nat \<Rightarrow> string list" where
  "tmp_key home i p = release_key home (CHR ''.'' # int_dec i @ ''.tmp.'' @ nat_dec p)"

lemma path_key_releases: "home \<noteq> [] \<Longrightarrow> path_key (path_join [home, ''releases'']) = path_key home @ [''releases'']"
  by (simp add: path_key_child proper_def)

lemma path_join_ne: "a \<noteq> [] \<Longrightarrow> path_join [a, b] \<noteq> []"
proof -
  assume "a \<noteq> []"
  then have "path_join [a, b] = Clean (a @ CHR ''/'' # b)" by (rule path_join_two)
  moreover have "render r cs \<noteq> []" if "\<forall>c \<in> set cs. proper c" for r cs
    using that by (cases cs; cases "tl cs") (auto simp: render_def proper_def)
  ultimately show ?thesis using clean_comps_proper by (auto simp: Clean_def)
qed

lemma int_dec_no_slash: "CHR ''/'' \<notin> set (int_dec i)"
  using plain_name_int_dec [of i] by (simp add: plain_name_def)

lemma path_key_tmp_dir:
  "home \<noteq> [] \<Longrightarrow> path_key (tmp_dir (path_join [home, ''releases'']) (int_dec i) p) = tmp_key home i p"
  unfolding tmp_dir_def
  by (subst path_key_child)
     (auto simp: path_join_ne path_key_releases tmp_key_def release_key_def proper_def int_dec_no_slash nat_dec_no_slash)

lemma apart_tmp: "corpus_ok home fs0 \<Longrightarrow> apart home fs0 (tmp_key home i p)"
  unfolding tmp_key_def by (rule apart_release) (auto simp: plain_name_def)

text \<open>Nothing guarded has changed, and a directory that had no leftover is still empty.\<close>

definition quiet :: "string \<Rightarrow> int \<Rightarrow> nat \<Rightarrow> fs \<Rightarrow> fs \<Rightarrow> bool" where
  "quiet home i p fs0 fs \<longleftrightarrow> agrees home fs0 fs
     \<and> (no_leftover home p fs0 \<longrightarrow> (\<forall>q. strict_prefix (tmp_key home i p) q \<longrightarrow> lookup fs q = None))"

lemma quiet_refl:
  assumes "corpus_ok home fs"
  shows "quiet home i p fs fs"
proof -
  have wf: "wf_fs fs" using assms by (simp add: corpus_ok_def)
  have "lookup fs q = None" if "no_leftover home p fs" "strict_prefix (tmp_key home i p) q" for q
  proof (rule wf_fs_below [OF wf _ that(2)])
    show "\<not> is_dir fs (tmp_key home i p)"
      using that(1) by (auto simp: no_leftover_def tmp_key_def is_dir_def release_key_def Cons_eq_append_conv)
  qed
  then show ?thesis using agrees_refl [OF assms] by (simp add: quiet_def)
qed

lemma quiet_fewer:
  assumes "quiet home i p fs0 fs" "agrees home fs0 fs'" "\<And>q. lookup fs' q = lookup fs q \<or> lookup fs' q = None"
  shows "quiet home i p fs0 fs'"
  using assms unfolding quiet_def by metis

lemma quiet_marker: "corpus_ok home fs0 \<Longrightarrow> quiet home i p fs0 fs \<Longrightarrow> quiet home i p fs0 (drop_tree (marker_key home) fs)"
proof -
  assume ok: "corpus_ok home fs0" and q: "quiet home i p fs0 fs"
  have "apart home fs0 (marker_key home)" unfolding marker_key_def by (rule apart_home [OF ok]) auto
  then have "agrees home fs0 (drop_tree (marker_key home) fs)" using q by (simp add: quiet_def agrees_drop)
  then show ?thesis by (rule quiet_fewer [OF q]) auto
qed

lemma quiet_remove_tmp:
  assumes "corpus_ok home fs0" "quiet home i p fs0 fs"
  shows "quiet home i p fs0 (drop_tree (tmp_key home i p) fs)" "quiet home i p fs0 (torn_tree (tmp_key home i p) e n fs)"
proof -
  have a: "agrees home fs0 fs" using assms(2) by (simp add: quiet_def)
  note t = apart_tmp [OF assms(1), of i p]
  show "quiet home i p fs0 (drop_tree (tmp_key home i p) fs)"
    by (rule quiet_fewer [OF assms(2) agrees_drop [OF a t]]) auto
  show "quiet home i p fs0 (torn_tree (tmp_key home i p) e n fs)"
    by (rule quiet_fewer [OF assms(2) agrees_torn [OF a t]]) (auto simp: lookup_torn_tree)
qed

lemma quiet_mkdir:
  assumes ok: "corpus_ok home fs0" and q: "quiet home i p fs0 fs" and k: "prefix k (tmp_key home i p)"
    and d: "\<not> is_dir fs k" "is_dir fs (butlast k)"
  shows "quiet home i p fs0 (set_node k Dir fs)"
proof -
  have wf: "wf_fs fs" using q by (simp add: quiet_def agrees_def)
  have "\<not> guarded home fs0 k"
  proof (cases "k = tmp_key home i p")
    case True
    then show ?thesis using apart_below [OF apart_tmp [OF ok], of i p k] by simp
  next
    case False
    then have "prefix k (path_key home @ [''releases''])"
      using k by (auto simp: tmp_key_def release_key_def prefix_append prefix_Cons)
    then show ?thesis by (rule unguarded_above [OF ok])
  qed
  moreover have "wf_fs (set_node k Dir fs)"
    using d by (intro wf_fs_set [OF wf]) (auto simp: is_dir_def)
  moreover have "lookup (set_node k Dir fs) x = lookup fs x" if "strict_prefix (tmp_key home i p) x" for x
    using that k by (auto simp: strict_prefix_def)
  ultimately show ?thesis using q unfolding quiet_def by (simp add: agrees_set)
qed

lemma wp_quiet_mkdir_all:
  assumes ok: "corpus_ok home fs0" and q: "runs (quiet home i p fs0) w0 w"
    and path: "prefix (path_key dir) (tmp_key home i p)"
    and E: "\<And>x w'. runs (quiet home i p fs0) w0 w' \<Longrightarrow> E x w'"
    and N: "\<And>u w'. runs (quiet home i p fs0) w0 w' \<Longrightarrow> is_dir (files w') (path_key dir) \<Longrightarrow> N u w'"
  shows "wp (os_mkdir_all dir) E N e w"
  by (rule wp_conseq [OF wp_os_mkdir_all [where P = "quiet home i p fs0", OF q]])
     (use quiet_mkdir [OF ok] prefix_order.trans [OF _ path] E N in blast)+

lemma agrees_pass_view: "corpus_ok home fs0 \<Longrightarrow> agrees home fs0 fs \<Longrightarrow> pass_view home offers p fs0 fs"
  using agrees_served by (auto simp: pass_view_def)

lemma quiet_agrees: "quiet home i p fs0 fs \<Longrightarrow> agrees home fs0 fs"
  by (simp add: quiet_def)

text \<open>Giving up while nothing guarded has changed, the directory discarded or not.\<close>

lemma wp_stop:
  assumes ok: "corpus_ok home (files w0)" and run: "passed (agrees home (files w0)) w0 w"
  shows "wp (give_up server host token i err) E
    (\<lambda>_. reported server home token offers (pass_view home offers p (files w0)) w0) e w"
  by (rule wp_give_up) (rule passed_mono [OF run agrees_pass_view [OF ok]])

lemma wp_discard:
  assumes ok: "corpus_ok home (files w0)" and dir: "path_key dir = tmp_key home i p"
    and run: "passed (agrees home (files w0)) w0 w"
    and N: "\<And>w'. passed (agrees home (files w0)) w0 w' \<Longrightarrow> wp m E N e w'"
  shows "wp (discarding dir m) E N e w"
  unfolding discarding_def
proof (rule wp_tryT, rule wp_os_remove_all)
  note t = apart_tmp [OF ok, of i p] and now = passed_now [OF run]
  show "wp m E N e w'" if "becomes w (torn_tree (path_key dir) e n (files w)) w'" for n w'
    by (rule N [OF passed_becomes [OF run that]]) (use agrees_torn [OF now t] in \<open>simp add: dir\<close>)
  show "wp m E N e w'" if "becomes w (drop_tree (path_key dir) (files w)) w'" for w'
    by (rule N [OF passed_becomes [OF run that]]) (use agrees_drop [OF now t] in \<open>simp add: dir\<close>)
qed

lemma wp_discard_quiet:
  assumes ok: "corpus_ok home (files w0)" and dir: "path_key dir = tmp_key home i p"
    and run: "passed (quiet home i p (files w0)) w0 w"
    and N: "\<And>w'. passed (quiet home i p (files w0)) w0 w' \<Longrightarrow> wp m E N e w'"
  shows "wp (discarding dir m) E N e w"
  unfolding discarding_def
proof (rule wp_tryT, rule wp_os_remove_all)
  note now = passed_now [OF run]
  show "wp m E N e w'" if "becomes w (torn_tree (path_key dir) e n (files w)) w'" for n w'
    by (rule N [OF passed_becomes [OF run that]]) (use quiet_remove_tmp [OF ok now] in \<open>simp add: dir\<close>)
  show "wp m E N e w'" if "becomes w (drop_tree (path_key dir) (files w)) w'" for w'
    by (rule N [OF passed_becomes [OF run that]]) (use quiet_remove_tmp [OF ok now] in \<open>simp add: dir\<close>)
qed

section \<open>Extraction and check\<close>

lemma wp_fetch_archive:
  assumes ok: "corpus_ok home (files w0)" and dir: "dir \<noteq> []" "path_key dir = tmp_key home i p" and want: "distinct want"
    and run: "passed (agrees home (files w0)) w0 w" and there: "lookup (files w) (tmp_key home i p) = Some Dir"
    and E: "\<And>x w'. passed (agrees home (files w0)) w0 w' \<Longrightarrow> E x w'"
    and N: "\<And>u w'. passed (agrees home (files w0)) w0 w' \<Longrightarrow> filled (tmp_key home i p) (files w) want (files w') \<Longrightarrow> N u w'"
  shows "wp (fetchAndExtractArchive server token i dir want) E N e w"
  unfolding fetchAndExtractArchive_def
proof (rule wp_bindT, rule wp_api_fetch)
  note now = passed_now [OF run] and t = apart_tmp [OF ok, of i p]
  fix r w1 assume a: "asked w (get_request (archive_url server i) token) w1"
  then have f: "files w1 = files w" by (simp add: asked_def)
  have w1: "passed (agrees home (files w0)) w0 w1" by (rule passed_asked [OF run a])
  have wf: "wf_fs (files w1)" using now by (simp add: f agrees_def)
  have on: "passed (agrees home (files w0)) w0 w'" if "runs (only_in (tmp_key home i p) (files w1)) w1 w'" for w'
    by (rule passed_runs [OF w1 runs_mono [OF that]]) (use agrees_only_in [OF now t] in \<open>simp add: f\<close>)
  have tk: "tmp_key home i p \<noteq> []" by (simp add: tmp_key_def release_key_def)
  show "wp (extractTar (rs_events r) dir want) E N e w1"
    by (rule wp_conseq [OF wp_extractTar [OF dir(1) dir(2) [symmetric] tk want wf]])
       (use there E N on in \<open>auto simp: f\<close>)
qed (rule E, rule passed_asked [OF run])

lemma wp_hash_check:
  assumes dir: "dir \<noteq> []" "\<forall>d \<in> set (elems (cr_docs cur)). entry_path_ok (sd_path d)"
    and there: "lookup (files w) (path_key dir) = Some Dir"
    and E: "\<And>x w'. becomes w (files w) w' \<Longrightarrow> E x w'"
    and N: "\<And>u w'. becomes w (files w) w' \<Longrightarrow> verified cur (below (files w) (path_key dir)) \<Longrightarrow> N u w'"
  shows "wp (hash_check dir cur) E N e w"
  unfolding hash_check_def
proof (rule wp_tryT, rule wp_recomputeContentHash [OF dir])
  fix w' assume w': "becomes w (files w) w'" and d: "docs_present (below (files w) (path_key dir)) (elems (cr_docs cur))"
  have "below (files w) (path_key dir) [] = Some Dir" using there by (simp add: below_def)
  then show "wp (case Inr (content_hash (read_docs (below (files w) (path_key dir)) (elems (cr_docs cur)))) of
       Inl err \<Rightarrow> fail (OsError (''recompute content hash: '' @ os_text err))
     | Inr gotHash \<Rightarrow> if gotHash \<noteq> cr_hash cur
         then fail (OsError (''content hash mismatch: want '' @ cr_hash cur @ '' got '' @ gotHash))
         else ret ()) E N e w'"
    unfolding sum.case using d E [OF w'] N [OF w'] by (intro wp_if wp_fail wp_ret) (auto simp: verified_def)
qed (auto intro: wp_fail E)

text \<open>The release in its temporary directory.\<close>

definition unpacked :: "string \<Rightarrow> nat \<Rightarrow> fs \<Rightarrow> cur_release \<Rightarrow> string list \<Rightarrow> fs \<Rightarrow> bool" where
  "unpacked home p fs0 cur k fs \<longleftrightarrow> agrees home fs0 fs \<and> verified cur (below fs k)
     \<and> (no_leftover home p fs0 \<longrightarrow> exactly cur (below fs k))"

lemma exactly_filled:
  assumes "filled t fs1 want fs" "set want = sd_path ` set (elems (cr_docs cur))"
    and "\<forall>q. strict_prefix t q \<longrightarrow> lookup fs1 q = None" "lookup fs1 t = Some Dir"
  shows "exactly cur (below fs t)"
proof -
  have "comps ` set want = (\<lambda>d. comps (sd_path d)) ` set (elems (cr_docs cur))"
    unfolding assms(2) by (simp add: image_image)
  then show ?thesis
    using filled_fresh [OF assms(1,3,4)] by (auto simp: exactly_def below_def)
qed

end
