(* ===== verification/ConvergeProps.thy ===== *)
theory ConvergeProps
  imports Converge
begin

text \<open>
  The guarantees of a pass: the corpus changes only by one switch to a checked release,
  whatever fails on the way, and the report is true.
\<close>

section \<open>The name of the release directory\<close>

lemma path_base_render:
  assumes "plain_name c"
  shows "path_base (render r (cs @ [c])) = c"
proof -
  have c: "c \<noteq> []" "CHR ''/'' \<notin> set c" using assms by (auto simp: plain_name_def)
  define a where "a = (if cs = [] then (if r then ''/'' else []) else render r cs @ ''/'')"
  have split: "render r (cs @ [c]) = a @ c" by (simp add: render_snoc a_def)
  have a: "a = [] \<or> (\<exists>b. a = b @ ''/'')" by (auto simp: a_def)
  have "last c \<noteq> CHR ''/''" using c last_in_set by metis
  then have "dropWhile (\<lambda>x. x = CHR ''/'') (rev (a @ c)) = rev (a @ c)"
    using c(1) by (cases c rule: rev_cases) auto
  moreover have "takeWhile (\<lambda>x. x \<noteq> CHR ''/'') (rev (a @ c)) = rev c"
  proof -
    have "takeWhile (\<lambda>x. x \<noteq> CHR ''/'') (rev c @ rev a) = rev c @ takeWhile (\<lambda>x. x \<noteq> CHR ''/'') (rev a)"
      using c(2) by (intro takeWhile_append2) auto
    moreover have "takeWhile (\<lambda>x. x \<noteq> CHR ''/'') (rev a) = []" using a by auto
    ultimately show ?thesis by simp
  qed
  ultimately show ?thesis using c(1) by (simp add: path_base_def split)
qed

lemma path_base_join:
  assumes "a \<noteq> []" "plain_name c"
  shows "path_base (path_join [a, c]) = c"
proof -
  have p: "proper c" "c \<noteq> ''..''" using plain_name_proper [OF assms(2)] by auto
  have "clean_comps r (comps (a @ CHR ''/'' # c)) = clean_comps r (comps a) @ [c]" for r
    using p by (simp add: comps_append comps_single clean_comps_append)
  then have "path_join [a, c] = render (is_abs a) (clean_comps (is_abs a) (comps a) @ [c])"
    using assms(1) by (simp add: path_join_two Clean_def is_abs_append)
  then show ?thesis using path_base_render [OF assms(2)] by simp
qed

lemma path_key_release_dir:
  "home \<noteq> [] \<Longrightarrow> plain_name name \<Longrightarrow> path_key (path_join [path_join [home, ''releases''], name]) = release_key home name"
  using plain_name_proper [of name] by (simp add: path_key_child path_join_ne path_key_releases release_key_def)

section \<open>Installing\<close>

lemma apart_fresh:
  assumes ok: "corpus_ok home fs0" and a: "agrees home fs0 fs" and free: "lookup fs (release_key home name) = None"
  shows "apart home fs0 (release_key home name)"
proof (cases "corpus_dir home fs0 = Some (release_key home name)")
  case True
  then have "guarded home fs0 (release_key home name)" "lookup fs0 (release_key home name) \<noteq> None"
    using ok by (auto simp: guarded_def corpus_ok_def)
  then show ?thesis using a free by (auto simp: agrees_def)
next
  case False
  show ?thesis
    unfolding apart_def
  proof (intro allI impI)
    fix q assume "guarded home fs0 q"
    then have "q = corpus_key home \<or> (\<exists>n r. q = release_key home n @ r \<and> n \<noteq> name)"
      using ok False unfolding guarded_def corpus_ok_def prefix_def by blast
    then show "\<not> prefix (release_key home name) q \<and> \<not> prefix q (release_key home name)"
      by (auto simp: corpus_key_def release_key_def prefix_Cons)
  qed
qed

lemma unpacked_move:
  assumes ok: "corpus_ok home fs0" and u: "unpacked home p fs0 cur (tmp_key home i p') fs"
    and name: "plain_name name" and free: "\<not> taken fs (release_key home name)" and parent: "is_dir fs (butlast (release_key home name))"
  shows "unpacked home p fs0 cur (release_key home name) (move_tree (tmp_key home i p') (release_key home name) fs)"
proof -
  let ?t = "tmp_key home i p'" and ?r = "release_key home name"
  have a: "agrees home fs0 fs" using u by (simp add: unpacked_def)
  have off: "\<not> prefix ?t ?r" "\<not> prefix ?r ?t"
    using name by (auto simp: tmp_key_def release_key_def prefix_Cons plain_name_def)
  have view: "below (move_tree ?t ?r fs) ?r = below fs ?t"
    by (rule ext) (simp add: below_def lookup_move_tree [OF off])
  have "lookup fs ?t = Some Dir" using u by (simp add: unpacked_def verified_def below_def)
  then have "wf_fs (move_tree ?t ?r fs)"
    using a parent by (intro wf_fs_move [OF _ _ off]) (auto simp: agrees_def release_key_def Cons_eq_append_conv)
  then have "agrees home fs0 (move_tree ?t ?r fs)"
    using agrees_move [OF a apart_tmp [OF ok] apart_fresh [OF ok a] off] free by (simp add: taken_def)
  then show ?thesis using u by (simp add: unpacked_def view)
qed

lemma switched_view:
  assumes u: "unpacked home p fs0 cur (release_key home name) fs" and sw: "switched home name fs fs'"
    and name: "plain_name name" and cur: "offers cur"
  shows "pass_view home offers p fs0 fs'" "verified cur (served home fs')" "corpus_ok home fs'"
proof -
  have "lookup fs (release_key home name) = Some Dir" using u by (simp add: unpacked_def verified_def below_def)
  then show ok: "corpus_ok home fs'" by (rule switched_corpus_ok [OF sw name])
  show "verified cur (served home fs')" using switched_served(1) [OF sw name] u by (simp add: unpacked_def)
  then show "pass_view home offers p fs0 fs'"
    using switched_served(1) [OF sw name] u ok cur by (auto simp: pass_view_def unpacked_def)
qed

text \<open>Writing the marker leaves the corpus alone.\<close>

lemma file_written_view:
  assumes ok: "corpus_ok home fs" and home: "home \<noteq> []" and w: "file_written (path_join [home, ''.applied'']) fs fs'"
  shows "served home fs' = served home fs \<and> corpus_ok home fs'"
proof -
  have ap: "apart home fs (marker_key home)" unfolding marker_key_def by (rule apart_home [OF ok]) auto
  have key: "path_key (path_join [home, ''.applied'']) = marker_key home" using home by simp
  have "wf_fs fs'"
  proof (cases "fs' = fs")
    case False
    then obtain c fs1 where c: "fs' = set_node (marker_key home) (File c) fs1"
      "\<forall>q. q \<noteq> marker_key home \<longrightarrow> lookup fs1 q = lookup fs q" "is_dir fs (butlast (marker_key home))" "\<not> is_dir fs (marker_key home)"
      using w by (auto simp: file_written_def key)
    have "wf_fs (set_node (marker_key home) (File c) fs)"
      using ok c(3,4) by (intro wf_fs_set) (auto simp: corpus_ok_def is_dir_def)
    moreover have "lookup fs' = lookup (set_node (marker_key home) (File c) fs)"
      by (rule ext) (use c(2) in \<open>simp add: c(1)\<close>)
    ultimately show ?thesis unfolding wf_fs_def is_dir_def by simp
  qed (use ok in \<open>simp add: corpus_ok_def\<close>)
  moreover have "lookup fs' k = lookup fs k" if "guarded home fs k" for k
    using file_written_lookup [OF w, of k] that ap by (auto simp: key apart_def)
  ultimately have "agrees home fs fs'" by (simp add: agrees_def)
  then show ?thesis using agrees_served ok by blast
qed

text \<open>The marker of a checked release can be read back.\<close>

lemma marked_after:
  assumes "verified cur v" "lookup fs (marker_key home) = Some (File (marker_text (int_dec (cr_id cur)) (cr_hash cur)))"
  shows "marked home cur fs"
proof -
  have "is_word (cr_hash cur)" using is_word_content_hash assms(1) by (metis verified_def)
  then show ?thesis using assms(2) parse_marker_text [OF is_word_int_dec] by (auto simp: marked_def)
qed

text \<open>From the switch on: the marker, then the report.\<close>

lemma wp_finish:
  assumes ok: "corpus_ok home (files w0)" and home: "home \<noteq> []" and cur: "offers cur"
    and run: "passed (pass_view home offers p (files w0)) w0 w"
    and now: "verified cur (served home (files w))" "corpus_ok home (files w)"
  shows "wp (checked (writeApplied (path_join [home, ''.applied'']) (int_dec (cr_id cur)) (cr_hash cur)) (give_up server host token (cr_id cur)) (\<lambda>_.
      heartbeat server host token (cr_id cur) True [] (cr_resync cur))) E
    (\<lambda>_. reported server home token offers (pass_view home offers p (files w0)) w0) e w"
proof (rule wp_checked, unfold writeApplied_def, rule wp_os_write_file)
  let ?P = "pass_view home offers p (files w0)" and ?W = "file_written (path_join [home, ''.applied'']) (files w)"
  have view: "?P fs \<and> served home fs = served home (files w)" if "?W fs" for fs
    using file_written_view [OF now(2) home that] passed_now [OF run] by (auto simp: pass_view_def)
  have on: "passed ?P w0 w'" if "runs ?W w w'" for w'
    by (rule passed_runs [OF run runs_mono [OF that]]) (use view in blast)
  show "wp (give_up server host token (cr_id cur) x) E (\<lambda>_. reported server home token offers ?P w0) e w'" if "runs ?W w w'" for x w'
    by (rule wp_give_up [OF on [OF that]])
  fix w' assume w': "runs ?W w w'"
    and m: "lookup (files w') (path_key (path_join [home, ''.applied''])) = Some (File (marker_text (int_dec (cr_id cur)) (cr_hash cur)))"
  have "marked home cur (files w')" using marked_after [OF now(1)] m home by simp
  moreover have "verified cur (served home (files w'))" using view [OF runs_now [OF w']] now(1) by simp
  ultimately show "wp (heartbeat server host token (cr_id cur) True [] (cr_resync cur)) E
      (\<lambda>_. reported server home token offers ?P w0) e w'"
    using cur by (intro wp_report on [OF w']) (auto simp: honest_def)
qed

lemma wp_pick_dir:
  assumes "wf_fs (files w)" "home \<noteq> []"
    and E: "\<And>x w'. becomes w (files w) w' \<Longrightarrow> E x w'"
    and N: "\<And>name w'. becomes w (files w) w' \<Longrightarrow> plain_name name \<Longrightarrow> \<not> taken (files w) (release_key home name)
       \<Longrightarrow> N (path_join [path_join [home, ''releases''], name]) w'"
  shows "wp (pick_dir (path_join [home, ''releases'']) (int_dec i)) E N e w"
proof -
  let ?dir = "path_join [home, ''releases'']"
  have d: "?dir \<noteq> []" "path_key ?dir \<noteq> []" using assms(2) by (simp_all add: path_join_ne path_key_releases)
  have "wp (freshReleaseDir (enough_fuel (files w)) ?dir (int_dec i)) E
     (\<lambda>r w'. wp (case r of Some p \<Rightarrow> ret p | None \<Rightarrow> fail (OsError ''no free release directory'')) E N e w') e w"
  proof (rule wp_freshReleaseDir [OF assms(1) d plain_name_int_dec order.refl E])
    fix name w' assume w': "becomes w (files w) w'" and fresh: "fresh_name (files w) (path_key ?dir) (int_dec i) name"
    have "plain_name name" by (rule plain_release_names [OF plain_name_int_dec fresh_name_release [OF fresh]])
    moreover have "\<not> taken (files w) (release_key home name)"
      using fresh assms(2) by (simp add: fresh_name_def path_key_releases release_key_def)
    ultimately show "wp (case Some (path_join [?dir, name]) of Some p \<Rightarrow> ret p | None \<Rightarrow> fail (OsError ''no free release directory'')) E N e w'"
      using N [OF w'] by (simp add: wp_ret)
  qed
  then show ?thesis by (simp add: pick_dir_def wp_def bindT_def split: prod.splits sum.splits)
qed

lemma wp_install:
  assumes ok: "corpus_ok home (files w0)" and home: "home \<noteq> []" and cur: "offers cur"
    and dir: "path_key tmpDir = tmp_key home (cr_id cur) p"
    and run: "passed (agrees home (files w0)) w0 w"
    and u: "unpacked home p (files w0) cur (tmp_key home (cr_id cur) p) (files w)"
  shows "wp (install server home host token cur (cr_resync cur) (path_join [home, ''releases'']) tmpDir) E
    (\<lambda>_. reported server home token offers (pass_view home offers p (files w0)) w0) e w"
  unfolding install_def Let_def
proof (rule wp_checked, rule wp_pick_dir)
  let ?P = "pass_view home offers p (files w0)" and ?R = "reported server home token offers (pass_view home offers p (files w0)) w0"
  let ?stop = "give_up server host token (cr_id cur)"
  show "wf_fs (files w)" "home \<noteq> []" using passed_now [OF run] home by (simp_all add: agrees_def)
  have drop: "wp (discarding tmpDir (?stop x)) E (\<lambda>_. ?R) e w'" if "passed (agrees home (files w0)) w0 w'" for x w'
    by (rule wp_discard [OF ok dir that], rule wp_stop [OF ok])
  have stay: "passed (agrees home (files w0)) w0 w'" if "becomes w (files w) w'" for w'
    by (rule passed_becomes [OF run that passed_now [OF run]])
  show "wp (discarding tmpDir (?stop x)) E (\<lambda>_. ?R) e w'" if "becomes w (files w) w'" for x w'
    by (rule drop [OF stay [OF that]])
  fix name w1 assume w1: "becomes w (files w) w1" and name: "plain_name name" and free: "\<not> taken (files w) (release_key home name)"
  let ?dst = "path_join [path_join [home, ''releases''], name]"
  have f1: "files w1 = files w" by (rule becomes_files [OF w1])
  have key: "path_key ?dst = release_key home name" by (rule path_key_release_dir [OF home name])
  have base: "path_base ?dst = name" by (rule path_base_join [OF path_join_ne [OF home] name])
  show "wp (checked (os_rename tmpDir ?dst) (\<lambda>err. discarding tmpDir (?stop err)) (\<lambda>_.
      checked (flipCorpus home (path_base ?dst)) ?stop (\<lambda>_.
      checked (writeApplied (path_join [home, ''.applied'']) (int_dec (cr_id cur)) (cr_hash cur)) ?stop (\<lambda>_.
      heartbeat server host token (cr_id cur) True [] (cr_resync cur))))) E (\<lambda>_. ?R) e w1"
    unfolding base
  proof (rule wp_checked, rule wp_os_rename)
    fix x w2 assume b: "becomes w1 (files w1) w2"
    show "wp (discarding tmpDir (?stop x)) E (\<lambda>_. ?R) e w2"
      by (rule drop, rule passed_becomes [OF stay [OF w1] b passed_now [OF stay [OF w1]]])
  next
    fix w2 assume b: "becomes w1 (move_tree (path_key tmpDir) (path_key ?dst) (files w1)) w2"
      and parent: "is_dir (files w1) (butlast (path_key ?dst))"
    have f2: "files w2 = move_tree (tmp_key home (cr_id cur) p) (release_key home name) (files w)"
      using becomes_files [OF b] by (simp add: dir key f1)
    have u2: "unpacked home p (files w0) cur (release_key home name) (files w2)"
      unfolding f2 by (rule unpacked_move [OF ok u name free]) (use parent in \<open>simp add: key f1\<close>)
    have a2: "agrees home (files w0) (files w2)" using u2 by (simp add: unpacked_def)
    have w2: "passed (agrees home (files w0)) w0 w2"
      by (rule passed_becomes [OF stay [OF w1] b]) (use a2 becomes_files [OF b] in simp)
    show "wp (checked (flipCorpus home name) ?stop (\<lambda>_.
      checked (writeApplied (path_join [home, ''.applied'']) (int_dec (cr_id cur)) (cr_hash cur)) ?stop (\<lambda>_.
      heartbeat server host token (cr_id cur) True [] (cr_resync cur)))) E (\<lambda>_. ?R) e w2"
    proof (rule wp_checked, rule wp_conseq [OF wp_flipCorpus [OF ok home a2]])
      show "wp (?stop x) E (\<lambda>_. ?R) e w3" if "runs (agrees home (files w0)) w2 w3" for x w3
        by (rule wp_stop [OF ok passed_runs [OF w2 that]])
      fix w3 assume fl: "flip_ends home name (files w0) w2 w3"
      then have sw: "switched home name (files w2) (files w3)" by (simp add: flip_ends_def)
      have view: "?P fs" if "agrees home (files w0) fs \<or> switched home name (files w2) fs" for fs
        using that agrees_pass_view [OF ok] switched_view(1) [where offers = offers, OF u2 _ name cur] by blast
      have "runs (\<lambda>fs. agrees home (files w0) fs \<or> switched home name (files w2) fs) w2 w3" using fl by (simp add: flip_ends_def)
      then have "runs ?P w2 w3" by (rule runs_mono) (rule view)
      moreover have "passed ?P w0 w2" by (rule passed_mono [OF w2 agrees_pass_view [OF ok]])
      ultimately have "passed ?P w0 w3" by (rule passed_runs [rotated])
      then show "wp (checked (writeApplied (path_join [home, ''.applied'']) (int_dec (cr_id cur)) (cr_hash cur)) ?stop (\<lambda>_.
        heartbeat server host token (cr_id cur) True [] (cr_resync cur))) E (\<lambda>_. ?R) e w3"
        by (rule wp_finish [where offers = offers, OF ok home cur _ switched_view(2,3) [where offers = offers, OF u2 sw name cur]])
    qed
  qed
qed

section \<open>The whole pass\<close>

text \<open>From the empty temporary directory on.\<close>

lemma wp_unpack_archive:
  assumes ok: "corpus_ok home (files w0)" and home: "home \<noteq> []" and cur: "offers cur"
    and dir: "tmpDir \<noteq> []" "path_key tmpDir = tmp_key home (cr_id cur) p"
    and want: "buildWantSet tmpDir (elems (cr_docs cur)) = Inr want"
    and run: "passed (quiet home (cr_id cur) p (files w0)) w0 w" and there: "lookup (files w) (tmp_key home (cr_id cur) p) = Some Dir"
  shows "wp (checked (fetchAndExtractArchive server token (cr_id cur) tmpDir want) (\<lambda>err. discarding tmpDir (give_up server host token (cr_id cur) err)) (\<lambda>_.
      checked (hash_check tmpDir cur) (\<lambda>err. discarding tmpDir (give_up server host token (cr_id cur) err)) (\<lambda>_.
      install server home host token cur (cr_resync cur) (path_join [home, ''releases'']) tmpDir))) E
    (\<lambda>_. reported server home token offers (pass_view home offers p (files w0)) w0) e w"
proof -
  let ?t = "tmp_key home (cr_id cur) p"
  let ?R = "reported server home token offers (pass_view home offers p (files w0)) w0"
  note want_ok = buildWantSet_ok [OF want dir(1)]
  have agree: "passed (agrees home (files w0)) w0 w" by (rule passed_mono [OF run quiet_agrees])
  have drop: "wp (discarding tmpDir (give_up server host token (cr_id cur) x)) E (\<lambda>_. ?R) e w'"
    if "passed (agrees home (files w0)) w0 w'" for x w'
    by (rule wp_discard [OF ok dir(2) that], rule wp_stop [OF ok])
  show ?thesis
  proof (rule wp_checked, rule wp_fetch_archive [OF ok dir want_ok(2) agree there], erule drop)
    fix w1 assume w1: "passed (agrees home (files w0)) w0 w1" and f: "filled ?t (files w) want (files w1)"
    have root: "lookup (files w1) (path_key tmpDir) = Some Dir" using f by (simp add: dir(2) filled_def only_in_def)
    have exact: "exactly cur (below (files w1) ?t)" if "no_leftover home p (files w0)"
      using exactly_filled [OF f want_ok(1) _ there] passed_now [OF run] that by (simp add: quiet_def)
    show "wp (checked (hash_check tmpDir cur) (\<lambda>err. discarding tmpDir (give_up server host token (cr_id cur) err)) (\<lambda>_.
      install server home host token cur (cr_resync cur) (path_join [home, ''releases'']) tmpDir)) E (\<lambda>_. ?R) e w1"
    proof (rule wp_checked, rule wp_hash_check [OF dir(1) want_ok(3) root])
      fix w2 assume w2: "becomes w1 (files w1) w2"
      have a2: "passed (agrees home (files w0)) w0 w2" by (rule passed_becomes [OF w1 w2 passed_now [OF w1]])
      show "wp (discarding tmpDir (give_up server host token (cr_id cur) x)) E (\<lambda>_. ?R) e w2" for x by (rule drop [OF a2])
      assume "verified cur (below (files w1) (path_key tmpDir))"
      then have "unpacked home p (files w0) cur ?t (files w2)"
        using exact passed_now [OF w1] becomes_files [OF w2] by (simp add: unpacked_def dir(2))
      then show "wp (install server home host token cur (cr_resync cur) (path_join [home, ''releases'']) tmpDir) E (\<lambda>_. ?R) e w2"
        by (rule wp_install [where offers = offers, OF ok home cur dir(2) a2])
    qed
  qed
qed

lemma passed_here: "passed P w0 w \<Longrightarrow> runs P w w"
  by (rule runs_refl) (rule passed_now)

lemma tmp_dir_not_root: "is_dir fs (tmp_key home i p) \<Longrightarrow> lookup fs (tmp_key home i p) = Some Dir"
  by (auto simp: is_dir_def tmp_key_def release_key_def Cons_eq_append_conv)

lemma wp_unpack:
  assumes ok: "corpus_ok home (files w0)" and home: "home \<noteq> []" and cur: "offers cur"
    and dir: "tmpDir \<noteq> []" "path_key tmpDir = tmp_key home (cr_id cur) p"
    and want: "buildWantSet tmpDir (elems (cr_docs cur)) = Inr want"
    and run: "passed (quiet home (cr_id cur) p (files w0)) w0 w"
  shows "wp (unpack server home host token cur (cr_resync cur) (path_join [home, ''releases'']) tmpDir want) E
    (\<lambda>_. reported server home token offers (pass_view home offers p (files w0)) w0) e w"
  unfolding unpack_def Let_def
proof (rule wp_checked, rule wp_quiet_mkdir_all [OF ok passed_here [OF run]])
  show "prefix (path_key tmpDir) (tmp_key home (cr_id cur) p)" by (simp add: dir(2))
  fix w1 assume "runs (quiet home (cr_id cur) p (files w0)) w w1"
  then have w1: "passed (quiet home (cr_id cur) p (files w0)) w0 w1" by (rule passed_runs [OF run])
  show "wp (give_up server host token (cr_id cur) x) E
    (\<lambda>_. reported server home token offers (pass_view home offers p (files w0)) w0) e w1" for x
    by (rule wp_stop [OF ok passed_mono [OF w1 quiet_agrees]])
  assume "is_dir (files w1) (path_key tmpDir)"
  then have "lookup (files w1) (tmp_key home (cr_id cur) p) = Some Dir" by (intro tmp_dir_not_root) (simp add: dir(2))
  then show "wp (checked (fetchAndExtractArchive server token (cr_id cur) tmpDir want) (\<lambda>err. discarding tmpDir (give_up server host token (cr_id cur) err)) (\<lambda>_.
      checked (hash_check tmpDir cur) (\<lambda>err. discarding tmpDir (give_up server host token (cr_id cur) err)) (\<lambda>_.
      install server home host token cur (cr_resync cur) (path_join [home, ''releases'']) tmpDir))) E
    (\<lambda>_. reported server home token offers (pass_view home offers p (files w0)) w0) e w1"
    by (rule wp_unpack_archive [where offers = offers, OF ok home cur dir want w1])
qed

lemma wp_materialize:
  assumes ok: "corpus_ok home (files w0)" and home: "home \<noteq> []" and cur: "offers cur"
    and run: "passed (quiet home (cr_id cur) (pid e) (files w0)) w0 w"
  shows "wp (materialize server home host token cur (cr_resync cur)) E
    (\<lambda>_. reported server home token offers (pass_view home offers (pid e) (files w0)) w0) e w"
  unfolding materialize_def Let_def
proof (rule wp_checked, rule wp_quiet_mkdir_all [OF ok passed_here [OF run]])
  let ?releases = "path_join [home, ''releases'']" and ?p = "pid e" and ?stop = "give_up server host token (cr_id cur)"
  let ?tmp = "tmp_dir ?releases (int_dec (cr_id cur)) ?p" and ?Q = "quiet home (cr_id cur) ?p (files w0)"
  let ?R = "reported server home token offers (pass_view home offers ?p (files w0)) w0"
  have stop: "wp (?stop x) E (\<lambda>_. ?R) e w'" if "passed ?Q w0 w'" for x w'
    by (rule wp_stop [OF ok passed_mono [OF that quiet_agrees]])
  have tmp: "?tmp \<noteq> []" "path_key ?tmp = tmp_key home (cr_id cur) ?p"
    by (simp add: tmp_dir_def path_join_ne [OF path_join_ne [OF home]]) (rule path_key_tmp_dir [OF home])
  show "prefix (path_key ?releases) (tmp_key home (cr_id cur) ?p)"
    by (simp add: path_key_releases home tmp_key_def release_key_def)
  show "wp (?stop x) E (\<lambda>_. ?R) e w1" if "runs ?Q w w1" for x w1
    by (rule stop [OF passed_runs [OF run that]])
  fix w1 assume "runs ?Q w w1"
  then have w1: "passed ?Q w0 w1" by (rule passed_runs [OF run])
  show "wp (bindT get_pid (\<lambda>p. checked (lift_result (buildWantSet (tmp_dir ?releases (int_dec (cr_id cur)) p) (elems (cr_docs cur)))) ?stop (\<lambda>want.
      discarding (tmp_dir ?releases (int_dec (cr_id cur)) p)
        (unpack server home host token cur (cr_resync cur) ?releases (tmp_dir ?releases (int_dec (cr_id cur)) p) want)))) E (\<lambda>_. ?R) e w1"
    by (rule wp_bindT, rule wp_get_pid, rule wp_checked, rule wp_lift_result, rule stop [OF w1],
        rule wp_discard_quiet [OF ok tmp(2) w1], rule wp_unpack [where offers = offers, OF ok home cur tmp])
qed

lemma wp_clear_marker:
  assumes ok: "corpus_ok home (files w0)" and home: "home \<noteq> []" and run: "passed (quiet home i p (files w0)) w0 w"
    and E: "\<And>x w'. passed (quiet home i p (files w0)) w0 w' \<Longrightarrow> E x w'"
    and N: "\<And>w'. passed (quiet home i p (files w0)) w0 w' \<Longrightarrow> (if resync then lookup (files w') (marker_key home) = None else w' = w) \<Longrightarrow> N resync w'"
  shows "wp (clear_marker resync (path_join [home, ''.applied''])) E N e w"
  unfolding clear_marker_def
proof (rule wp_if)
  assume r: resync
  let ?Q = "quiet home i p (files w0)"
  have key: "path_key (path_join [home, ''.applied'']) = marker_key home" using home by simp
  have stay: "passed ?Q w0 w'" if "becomes w (files w) w'" for w'
    by (rule passed_becomes [OF run that passed_now [OF run]])
  have same: "files w' = files w" if "becomes w (files w) w'" for w' by (rule becomes_files [OF that])
  show "wp (tryT (os_remove (path_join [home, ''.applied''])) (\<lambda>r. case r of
          Inl err \<Rightarrow> if is_not_exist err then ret True else fail err | Inr _ \<Rightarrow> ret True)) E N e w"
  proof (rule wp_tryT, rule wp_os_remove_known)
    show "wf_fs (files w)" using passed_now [OF run] by (simp add: quiet_def agrees_def)
    fix w' assume b: "becomes w (drop_tree (path_key (path_join [home, ''.applied''])) (files w)) w'"
    have "passed ?Q w0 w'"
      by (rule passed_becomes [OF run b]) (simp add: key quiet_marker [OF ok passed_now [OF run]])
    then show "wp (case Inr () of Inl err \<Rightarrow> if is_not_exist err then ret True else fail err | Inr _ \<Rightarrow> ret True) E N e w'"
      using N [of w'] becomes_files [OF b] r by (simp add: wp_ret key)
  qed (use stay same E N r key in \<open>auto simp: wp_fail wp_ret\<close>)
qed (use N run in \<open>auto intro!: wp_ret\<close>)

lemma wp_readApplied:
  assumes "\<And>r w'. becomes w (files w) w' \<Longrightarrow>
      (\<And>x. r = Some x \<Longrightarrow> \<exists>m. lookup (files w) (path_key p) = Some (File m) \<and> parse_marker m = Some x) \<Longrightarrow> N r w'"
  shows "wp (readApplied p) E N e w"
  unfolding readApplied_def by (rule wp_tryT, rule wp_os_read_file) (auto intro!: wp_ret assms)

lemma wp_converge_on:
  assumes ok: "corpus_ok home (files w0)" and home: "home \<noteq> []" and cur: "offers cur"
    and run: "passed (quiet home (cr_id cur) (pid e) (files w0)) w0 w" and same: "files w = files w0"
  shows "wp (converge_on server home host token cur) E
    (\<lambda>_. reported server home token offers (pass_view home offers (pid e) (files w0)) w0) e w"
  unfolding converge_on_def Let_def
proof (rule wp_checked, rule wp_clear_marker [OF ok home run])
  let ?Q = "quiet home (cr_id cur) (pid e) (files w0)"
  let ?P = "pass_view home offers (pid e) (files w0)"
  have up: "passed ?P w0 w'" if "passed ?Q w0 w'" for w'
    by (rule passed_mono [OF that agrees_pass_view [OF ok quiet_agrees]])
  show "wp (give_up server host token (cr_id cur) x) E (\<lambda>_. reported server home token offers ?P w0) e w1"
    if "passed ?Q w0 w1" for x w1 by (rule wp_give_up [OF up [OF that]])
  fix w1 assume w1: "passed ?Q w0 w1" and c: "if cr_resync cur then lookup (files w1) (marker_key home) = None else w1 = w"
  show "wp (bindT (readApplied (path_join [home, ''.applied''])) (\<lambda>applied.
      if applied = Some (int_dec (cr_id cur), cr_hash cur) then heartbeat server host token (cr_id cur) True [] False
      else materialize server home host token cur (cr_resync cur))) E (\<lambda>_. reported server home token offers ?P w0) e w1"
  proof (rule wp_bindT, rule wp_readApplied, rule wp_if)
    fix r w2 assume b: "becomes w1 (files w1) w2"
      and m: "\<And>x. r = Some x \<Longrightarrow> \<exists>m. lookup (files w1) (path_key (path_join [home, ''.applied''])) = Some (File m) \<and> parse_marker m = Some x"
    have w2: "passed ?Q w0 w2" by (rule passed_becomes [OF w1 b passed_now [OF w1]])
    show "wp (materialize server home host token cur (cr_resync cur)) E (\<lambda>_. reported server home token offers ?P w0) e w2"
      by (rule wp_materialize [where offers = offers, OF ok home cur w2])
    assume "r = Some (int_dec (cr_id cur), cr_hash cur)"
    then have "marked home cur (files w1)" using m home by (simp add: marked_def)
    moreover from this c have "\<not> cr_resync cur" "w1 = w" by (auto simp: marked_def split: if_splits)
    ultimately show "wp (heartbeat server host token (cr_id cur) True [] False) E (\<lambda>_. reported server home token offers ?P w0) e w2"
      using cur same becomes_files [OF b] by (intro wp_report up [OF w2]) (auto simp: honest_def)
  qed
qed

lemma wp_converge:
  assumes ok: "corpus_ok home (files w)" and home: "home \<noteq> []"
  shows "wp (converge server home host token) (\<lambda>x w'. False)
    (\<lambda>_. reported server home token (offered e (steps w) server host token)
       (pass_view home (offered e (steps w) server host token) (pid e) (files w)) w) e w"
  unfolding converge_def
proof (rule wp_checked, rule wp_fetchCurrent)
  let ?offers = "offered e (steps w) server host token" and ?get = "get_request (current_url server host) token"
  have start: "passed (quiet home i p (files w)) w w1" if "asked w ?get w1" for i p w1
    by (rule passed_asked [OF passed_refl [where P = "quiet home i p (files w)", OF quiet_refl [OF ok]] that])
  show "wp (give_up server host token 0 x) (\<lambda>x w'. False)
      (\<lambda>_. reported server home token ?offers (pass_view home ?offers (pid e) (files w)) w) e w1" if "asked w ?get w1" for x w1
    by (rule wp_stop [OF ok passed_mono [OF start [OF that, of 0 0] quiet_agrees]])
  fix cur w1 assume cur: "?offers cur" and w1: "asked w ?get w1"
  show "wp (converge_on server home host token cur) (\<lambda>x w'. False)
      (\<lambda>_. reported server home token ?offers (pass_view home ?offers (pid e) (files w)) w) e w1"
    by (rule wp_converge_on [where offers = ?offers, OF ok home cur start [OF w1]]) (use w1 in \<open>simp add: asked_def\<close>)
qed

end
