(* ===== verification/PassProps.thy ===== *)
theory PassProps
  imports ConvergeProps
begin

text \<open>
  What a consumer host can rely on: single passes, and any number of passes by processes
  that may be killed at any point.
\<close>

section \<open>One pass\<close>

lemma converge_run:
  assumes "corpus_ok home (files w)" "home \<noteq> []" "converge server home host token e w = (r, w')"
  shows "r = Inr ()" "reported server home token (offered e (steps w) server host token)
    (pass_view home (offered e (steps w) server host token) (pid e) (files w)) w w'"
  using wp_converge [OF assms(1,2), of server host token e] assms(3) by (auto simp: wp_def split: sum.splits)

text \<open>A host with release 2 installed, and a server that cannot be reached.\<close>

definition sample_fs :: fs where
  "sample_fs =
     [([''k''], Dir), ([''k'', ''releases''], Dir), ([''k'', ''releases'', ''2''], Dir),
      ([''k'', ''releases'', ''2'', ''a.md''], File ''text''), ([''k'', ''corpus''], Link ''releases/2'')]"

definition sample_world :: world where
  "sample_world = \<lparr>files = sample_fs, sent = [], steps = 0, trail = []\<rparr>"

lemma sample_keys: "path_key ''k'' = [''k'']" "comps ''releases/2'' = [''releases'', ''2'']"
  by code_simp+

lemma corpus_ok_sample: "corpus_ok ''k'' sample_fs"
proof -
  have "wf_fs sample_fs"
    by (auto simp: wf_fs_def sample_fs_def lookup_def is_dir_def split: if_splits)
  moreover have "corpus_dir ''k'' sample_fs = Some (release_key ''k'' ''2'')"
    by (simp add: corpus_dir_def corpus_key_def release_key_def sample_keys) (simp add: sample_fs_def lookup_def sample_keys)
  moreover have "lookup sample_fs (release_key ''k'' ''2'') = Some Dir"
    by (simp add: release_key_def sample_keys sample_fs_def lookup_def)
  moreover have "plain_name ''2''" by (simp add: plain_name_def)
  ultimately show ?thesis unfolding corpus_ok_def by (metis option.inject)
qed

lemma calm_offers: "\<not> offered calm_os n server host token cur"
  by (simp add: offered_def calm_os_def)

text \<open>C1: The corpus is only ever replaced as a whole, by a checked release.  Whatever call fails at whatever
  point, whatever the server answers and whenever the process is killed, in every state the files go
  through the corpus is what it was before the pass, or it is the tree of a release the server offered
  whose documents are all there and whose recomputed content hash is the one of the manifest; and when no
  earlier process with the same number left its temporary directory behind, that tree holds no other
  file.  The pass itself returns without an error.\<close>

theorem converge_switches_atomically:
  assumes "corpus_ok home (files w)" "home \<noteq> []" "converge server home host token e w = (r, w')"
  shows "r = Inr () \<and> (\<forall>fs \<in> insert (files w') (set (trail w') - set (trail w)).
       corpus_ok home fs
       \<and> (served home fs = served home (files w)
          \<or> (\<exists>cur. offered e (steps w) server host token cur \<and> verified cur (served home fs)
               \<and> (no_leftover home (pid e) (files w) \<longrightarrow> exactly cur (served home fs)))))"
  using converge_run [OF assms] by (auto simp: reported_def pass_view_def)

theorem converge_switches_atomically_witness:
  "\<exists>w'. converge ''http://s'' ''k'' ''h'' [] calm_os sample_world = (Inr (), w')
     \<and> served ''k'' (files w') [''a.md''] = Some (File ''text'')"
proof -
  obtain r w' where run: "converge ''http://s'' ''k'' ''h'' [] calm_os sample_world = (r, w')" by fastforce
  have "corpus_ok ''k'' (files sample_world)" "''k'' \<noteq> []" by (simp_all add: sample_world_def corpus_ok_sample)
  from converge_switches_atomically [OF this run]
  have "r = Inr ()" "served ''k'' (files w') = served ''k'' sample_fs"
    by (auto simp: calm_offers sample_world_def)
  moreover have "served ''k'' sample_fs [''a.md''] = Some (File ''text'')"
    by (simp add: served_def corpus_dir_def corpus_key_def sample_keys) (simp add: sample_fs_def lookup_def sample_keys below_def)
  ultimately show ?thesis using run by auto
qed

text \<open>C14: Every pass ends with one true report.  After its fetches, a pass sends exactly one heartbeat, its last
  request.  A report of success carries no error, names the release the server offered, and is sent only
  when the marker on disk holds that release's number and hash; if the marker did not say so before the
  pass, or a resync was asked for, the corpus has been checked against the release's hash.  The report
  says that a resync was carried out exactly when it was asked for and the pass succeeded.\<close>

theorem converge_reports_truth:
  assumes "corpus_ok home (files w)" "home \<noteq> []" "converge server home host token e w = (r, w')"
  shows "\<exists>gets b. sent w' = sent w @ gets @ [heartbeat_request server token b]
      \<and> (\<forall>rq \<in> set gets. rq_method rq = ''GET'')
      \<and> (\<not> hb_ok b \<longrightarrow> \<not> hb_resync b)
      \<and> (hb_ok b \<longrightarrow> hb_error b = None
          \<and> (\<exists>cur. offered e (steps w) server host token cur \<and> hb_release b = cr_id cur
               \<and> marked home cur (files w') \<and> hb_resync b = cr_resync cur
               \<and> (cr_resync cur \<or> \<not> marked home cur (files w) \<longrightarrow> verified cur (served home (files w')))))"
  using converge_run(2) [OF assms] unfolding reported_def honest_def by blast

theorem converge_reports_truth_witness:
  "\<exists>gets b. sent (snd (converge ''http://s'' ''k'' ''h'' [] calm_os sample_world)) = gets @ [heartbeat_request ''http://s'' [] b]
     \<and> (\<forall>rq \<in> set gets. rq_method rq = ''GET'') \<and> \<not> hb_ok b"
proof -
  have "corpus_ok ''k'' (files sample_world)" "''k'' \<noteq> []" by (simp_all add: sample_world_def corpus_ok_sample)
  from converge_reports_truth [OF this surjective_pairing, of "''http://s''" "''h''" "[]" calm_os]
  show ?thesis by (auto simp: calm_offers sample_world_def)
qed

section \<open>Any number of passes\<close>

text \<open>What is on disk after a pass, or when its process was killed in the middle; the server
  offers releases of \<open>R\<close> only.\<close>

inductive pass_step :: "string \<Rightarrow> string \<Rightarrow> string \<Rightarrow> string \<Rightarrow> cur_release set \<Rightarrow> fs \<Rightarrow> fs \<Rightarrow> bool"
  for server home host token R where
  "converge server home host token e \<lparr>files = fs, sent = [], steps = 0, trail = []\<rparr> = (r, w')
   \<Longrightarrow> {cur. offered e 0 server host token cur} \<subseteq> R
   \<Longrightarrow> fs' = files w' \<or> fs' \<in> set (trail w')
   \<Longrightarrow> pass_step server home host token R fs fs'"

inductive_cases pass_stepE: "pass_step server home host token R fs fs'"

inductive host_reach :: "string \<Rightarrow> string \<Rightarrow> string \<Rightarrow> string \<Rightarrow> cur_release set \<Rightarrow> fs \<Rightarrow> fs \<Rightarrow> bool"
  for server home host token R fs0 where
  reach_start: "host_reach server home host token R fs0 fs0"
| reach_step: "host_reach server home host token R fs0 fs \<Longrightarrow> pass_step server home host token R fs fs'
    \<Longrightarrow> host_reach server home host token R fs0 fs'"

lemma pass_step_view:
  assumes "pass_step server home host token R fs fs'" "corpus_ok home fs" "home \<noteq> []"
  shows "corpus_ok home fs' \<and> (served home fs' = served home fs \<or> (\<exists>cur \<in> R. verified cur (served home fs')))"
  using assms(1)
proof (rule pass_stepE)
  fix e r w'
  assume run: "converge server home host token e \<lparr>files = fs, sent = [], steps = 0, trail = []\<rparr> = (r, w')"
    and R: "{cur. offered e 0 server host token cur} \<subseteq> R" and fs': "fs' = files w' \<or> fs' \<in> set (trail w')"
  have "corpus_ok home (files \<lparr>files = fs, sent = [], steps = 0, trail = []\<rparr>)" using assms(2) by simp
  from converge_run(2) [OF this assms(3) run]
  have "pass_view home (offered e 0 server host token) (pid e) fs fs'" using fs' by (auto simp: reported_def)
  then show ?thesis using R by (auto simp: pass_view_def)
qed

text \<open>C13: The host never serves anything but checked releases.  However many passes run, one after the other,
  each of them completed or killed at any call, with any failures of the disk and the network: as long
  as the server offers releases of a given set only, the corpus is the one the host started with or a
  tree whose bytes match the content hash of a release of that set, and the link is never dangling.\<close>

theorem host_serves_checked_releases:
  assumes "host_reach server home host token R fs0 fs" "corpus_ok home fs0" "home \<noteq> []"
  shows "corpus_ok home fs \<and> (served home fs = served home fs0 \<or> (\<exists>cur \<in> R. verified cur (served home fs)))"
  using assms(1)
proof (induction rule: host_reach.induct)
  case reach_start
  show ?case using assms(2) by simp
next
  case (reach_step fs fs')
  then show ?case using pass_step_view [OF reach_step.hyps(2) _ assms(3)] by auto
qed

theorem host_serves_checked_releases_witness:
  "\<exists>fs. host_reach ''http://s'' ''k'' ''h'' [] {} sample_fs fs \<and> served ''k'' fs = served ''k'' sample_fs"
proof -
  obtain r w' where run: "converge ''http://s'' ''k'' ''h'' [] calm_os \<lparr>files = sample_fs, sent = [], steps = 0, trail = []\<rparr> = (r, w')"
    by fastforce
  then have "pass_step ''http://s'' ''k'' ''h'' [] {} sample_fs (files w')"
    by (rule pass_step.intros) (auto simp: calm_offers)
  then have reach: "host_reach ''http://s'' ''k'' ''h'' [] {} sample_fs (files w')"
    by (rule reach_step [OF reach_start])
  then have "served ''k'' (files w') = served ''k'' sample_fs"
    using host_serves_checked_releases [OF reach corpus_ok_sample] by simp
  then show ?thesis using reach by blast
qed

end
