(* ===== verification/Http.thy ===== *)
theory Http
  imports Hosts Releases
begin

text \<open>
  HTTP as the server's handlers see it: requests after \<open>net/http\<close> has read and routed
  them, responses, and the shared helpers of \<open>api.go\<close> (\<open>writeJSON\<close>, \<open>writeErr\<close>,
  \<open>decodeBody\<close>, \<open>decodeOptionalBody\<close>).  A handler runs on the session of the store and
  always ends with a response.  The wording of JSON decoding errors is not modelled.
\<close>

section \<open>Requests and responses\<close>

record hreq =
  hr_method :: string
  hr_path :: "string list"
  hr_query :: string
  hr_headers :: "(string \<times> string) list"
  hr_body :: string

text \<open>The body of an archive is the entries written and the error that cut it off.\<close>

datatype hbody =
    Text string
  | Tar "tar_entry list" "gerror option"

record hres =
  rp_code :: nat
  rp_headers :: "(string \<times> string) list"
  rp_body :: hbody

text \<open>\<open>r.Header.Values\<close> and \<open>Get\<close>; header names are in canonical form.\<close>

definition header_values :: "hreq \<Rightarrow> string \<Rightarrow> string list" where
  "header_values r name = map snd (filter (\<lambda>h. fst h = name) (hr_headers r))"

definition header_get :: "hreq \<Rightarrow> string \<Rightarrow> string" where
  "header_get r name = (case header_values r name of [] \<Rightarrow> [] | v # vs \<Rightarrow> v)"

text \<open>\<open>w.Header().Set\<close>.\<close>

definition set_header :: "string \<Rightarrow> string \<Rightarrow> (string \<times> string) list \<Rightarrow> (string \<times> string) list" where
  "set_header k v hs = (k, v) # filter (\<lambda>h. fst h \<noteq> k) hs"

section \<open>The query string\<close>

definition hex_digit_val :: "char \<Rightarrow> nat option" where
  "hex_digit_val c =
     (let n = of_char c :: nat in
      if 48 \<le> n \<and> n \<le> 57 then Some (n - 48)
      else if 97 \<le> n \<and> n \<le> 102 then Some (n - 87)
      else if 65 \<le> n \<and> n \<le> 70 then Some (n - 55)
      else None)"

text \<open>\<open>url.QueryUnescape\<close>.\<close>

fun query_unescape :: "string \<Rightarrow> string option" where
  "query_unescape [] = Some []"
| "query_unescape (c # s) =
     (if c = CHR ''%'' then
        (case s of
           a # b # t \<Rightarrow>
             (case (hex_digit_val a, hex_digit_val b) of
                (Some m, Some n) \<Rightarrow> map_option (\<lambda>u. char_of (16 * m + n) # u) (query_unescape t)
              | _ \<Rightarrow> None)
         | _ \<Rightarrow> None)
      else if c = CHR ''+'' then map_option (\<lambda>u. CHR '' '' # u) (query_unescape s)
      else map_option (\<lambda>u. c # u) (query_unescape s))"

text \<open>\<open>url.ParseQuery\<close>, whose error \<open>URL.Query\<close> drops: the pairs that can be read, in order.\<close>

definition cut_pair :: "string \<Rightarrow> string \<times> string" where
  "cut_pair kv = (takeWhile (\<lambda>c. c \<noteq> CHR ''='') kv, tl (dropWhile (\<lambda>c. c \<noteq> CHR ''='') kv))"

definition query_pair :: "string \<Rightarrow> (string \<times> string) option" where
  "query_pair kv =
     (if CHR '';'' \<in> set kv \<or> kv = [] then None
      else (case (query_unescape (fst (cut_pair kv)), query_unescape (snd (cut_pair kv))) of
              (Some k, Some v) \<Rightarrow> Some (k, v)
            | _ \<Rightarrow> None))"

definition parse_query :: "string \<Rightarrow> (string \<times> string) list" where
  "parse_query q = List.map_filter query_pair (split_on (CHR ''&'') q)"

definition query_has :: "hreq \<Rightarrow> string \<Rightarrow> bool" where
  "query_has r k = list_ex (\<lambda>kv. fst kv = k) (parse_query (hr_query r))"

definition query_get :: "hreq \<Rightarrow> string \<Rightarrow> string" where
  "query_get r k =
     (case List.find (\<lambda>kv. fst kv = k) (parse_query (hr_query r)) of None \<Rightarrow> [] | Some kv \<Rightarrow> snd kv)"

section \<open>JSON of the results\<close>

definition opt_str :: "string \<Rightarrow> string \<Rightarrow> (string \<times> json) list" where
  "opt_str k s = (if s = [] then [] else [(k, JStr s)])"

definition opt_int :: "string \<Rightarrow> int \<Rightarrow> (string \<times> json) list" where
  "opt_int k i = (if i = 0 then [] else [(k, json_int i)])"

definition doc_version_json :: "doc_version \<Rightarrow> json" where
  "doc_version_json v = JObj
     [(''collection'', JStr (v_collection v)), (''family_id'', JStr (v_family v)), (''version'', json_int (v_version v)),
      (''status'', JStr (v_status v)), (''created_at'', JStr (v_created v)), (''editor'', JStr (v_editor v))]"

definition manifest_doc_json :: "manifest_doc \<Rightarrow> json" where
  "manifest_doc_json d = JObj
     [(''path'', JStr (md_path d)), (''family_id'', JStr (md_family d)), (''version'', json_int (md_version d)),
      (''sha256'', JStr (md_sha d))]"

definition manifest_json :: "manifest \<Rightarrow> json" where
  "manifest_json m = JObj
     ([(''release_id'', json_int (m_release m)), (''content_hash'', JStr (m_hash m)), (''created_at'', JStr (m_created m)),
       (''docs'', json_slice manifest_doc_json (m_docs m))]
      @ (if m_resync m then [(''resync'', JBool True)] else []))"

definition doc_meta_fields :: "doc_meta \<Rightarrow> (string \<times> json) list" where
  "doc_meta_fields d =
     [(''collection'', JStr (dm_collection d)), (''family_id'', JStr (dm_family d)), (''version'', json_int (dm_version d)),
      (''title'', JStr (dm_title d)), (''status'', JStr (dm_status d)), (''tier'', JStr (dm_tier d)),
      (''editor'', JStr (dm_editor d)), (''created_at'', JStr (dm_created d))]"

definition doc_full_json :: "doc_full \<Rightarrow> json" where
  "doc_full_json d = JObj
     (doc_meta_fields (df_meta d) @
      [(''owner'', JStr (df_owner d)), (''audience'', JStr (df_audience d)),
       (''triggers'', JArr (map JStr (df_triggers d))), (''body'', JStr (df_body d)),
       (''links'', JArr (map link_json (df_links d)))])"

definition conflict_meta_fields :: "conflict_meta \<Rightarrow> (string \<times> json) list" where
  "conflict_meta_fields c =
     [(''id'', json_int (cm_id c)), (''kind'', JStr (cm_kind c)), (''status'', JStr (cm_status c)),
      (''collection'', JStr (cm_collection c)), (''family_id'', JStr (cm_family c))]
     @ opt_str ''other_collection'' (cm_other_collection c) @ opt_str ''other_family_id'' (cm_other_family c)
     @ opt_int ''base_version'' (cm_base c) @ opt_int ''their_version'' (cm_their c)
     @ [(''attempts'', json_int (cm_attempts c)), (''detail'', JStr (cm_detail c)),
        (''opened_by'', JStr (cm_opened_by c)), (''opened_at'', JStr (cm_opened_at c))]
     @ opt_str ''resolved_by'' (cm_resolved_by c) @ opt_str ''resolved_at'' (cm_resolved_at c)
     @ opt_str ''resolution'' (cm_resolution c) @ opt_int ''winning_version'' (cm_winning c)"

definition conflict_json :: "conflict \<Rightarrow> json" where
  "conflict_json c = JObj
     (conflict_meta_fields (cf_meta c)
      @ (case cf_attempted c of None \<Rightarrow> [] | Some d \<Rightarrow> [(''attempted'', doc_save_json d)]))"

definition host_status_json :: "host_status \<Rightarrow> json" where
  "host_status_json h = JObj
     ([(''host'', JStr (hs_host h)), (''release_id'', json_int (hs_release h)), (''ok'', JBool (hs_ok h))]
      @ opt_str ''error'' (hs_error h) @ opt_str ''seen_at'' (hs_seen h)
      @ opt_str ''resync_requested_at'' (hs_resync_at h) @ opt_str ''token_created_at'' (hs_token_at h))"

section \<open>Writing a response\<close>

definition writeJSON :: "(string \<times> string) list \<Rightarrow> nat \<Rightarrow> json \<Rightarrow> hres" where
  "writeJSON hs status v =
     \<lparr>rp_code = status,
      rp_headers = set_header ''X-Content-Type-Options'' ''nosniff''
        (set_header ''Cache-Control'' ''no-store'' (set_header ''Content-Type'' ''application/json'' hs)),
      rp_body = Text (print_json v @ [CHR 0x0A])\<rparr>"

text \<open>The switch of \<open>writeErr\<close>: the first case whose sentinel the error wraps.\<close>

definition err_class :: "gerror \<Rightarrow> string \<times> nat" where
  "err_class err =
     (if errors_is err ErrLint then (''lint'', 409)
      else if errors_is err ErrConflict then (''conflict'', 409)
      else if errors_is err ErrInvalid then (''invalid'', 400)
      else if errors_is err ErrNotFound then (''not_found'', 404)
      else if errors_is err ErrUnauthorized then (''unauthorized'', 401)
      else if errors_is err ErrForbidden then (''forbidden'', 403)
      else if errors_is err ErrTooLarge then (''too_large'', 413)
      else if errors_is err ErrIncompatibleProtocol then (''incompatible_protocol'', 409)
      else (''internal'', 500))"

definition challenge :: string where
  "challenge = ''Bearer realm='' @ dquote # ''knowledge-server'' @ [dquote]"

definition envelope :: "gerror \<Rightarrow> json" where
  "envelope err = JObj
     ((case as_recorded err of None \<Rightarrow> [] | Some i \<Rightarrow> [(''conflict_id'', json_int i)])
      @ [(''detail'', JStr (error_text err)), (''error'', JStr (fst (err_class err)))])"

definition writeErr :: "(string \<times> string) list \<Rightarrow> gerror \<Rightarrow> hres" where
  "writeErr hs err =
     writeJSON (if fst (err_class err) = ''unauthorized'' then set_header ''WWW-Authenticate'' challenge hs else hs)
       (snd (err_class err)) (envelope err)"

text \<open>\<open>w.WriteHeader(http.StatusNoContent)\<close>.\<close>

definition no_content :: "(string \<times> string) list \<Rightarrow> hres" where
  "no_content hs = \<lparr>rp_code = 204, rp_headers = hs, rp_body = Text []\<rparr>"

section \<open>Reading a body\<close>

definition maxBodyBytes :: nat where
  "maxBodyBytes = 1048576"

definition too_large :: gerror where
  "too_large = Wrapf ErrTooLarge (''body exceeds '' @ nat_dec maxBodyBytes @ '' bytes'')"

definition bad_json :: gerror where
  "bad_json = Wrapf ErrInvalid ''bad JSON: malformed''"

definition trailing_data :: gerror where
  "trailing_data = Wrapf ErrInvalid ''trailing data after JSON body''"

text \<open>One \<open>Decode\<close> on what is left of a body that is cut at the cap: the end of the input, the
  cap, an error, or a value and the rest.  \<open>viable\<close> says whether the decoder's scanner has
  found no error in a text that is no complete value; it matters only when the cap cuts the
  text.  A number or a literal is complete when something follows it or the input ends.\<close>

datatype decoded =
    AtEnd | AtCap | Malformed | Value json "chunk list"

definition self_ended :: "json \<Rightarrow> bool" where
  "self_ended v = (case v of JArr xs \<Rightarrow> True | JObj kvs \<Rightarrow> True | _ \<Rightarrow> False)"

definition decode_next :: "(chunk list \<Rightarrow> bool) \<Rightarrow> bool \<Rightarrow> chunk list \<Rightarrow> decoded" where
  "decode_next viable clipped cs =
     (if skip_ws cs = [] then (if clipped then AtCap else AtEnd)
      else (case parse_value max_depth cs of
              Some (v, rest) \<Rightarrow> if clipped \<and> rest = [] \<and> \<not> self_ended v then AtCap else Value v rest
            | None \<Rightarrow> if clipped \<and> viable cs then AtCap else Malformed))"

definition capped :: "string \<Rightarrow> chunk list" where
  "capped body = runes (take maxBodyBytes body)"

definition over_cap :: "string \<Rightarrow> bool" where
  "over_cap body \<longleftrightarrow> maxBodyBytes < length body"

text \<open>The second read: exactly one value in the body.\<close>

definition no_trailing :: "(chunk list \<Rightarrow> bool) \<Rightarrow> bool \<Rightarrow> chunk list \<Rightarrow> gerror option" where
  "no_trailing viable clipped rest =
     (case decode_next viable clipped rest of
        AtEnd \<Rightarrow> None
      | AtCap \<Rightarrow> Some too_large
      | _ \<Rightarrow> Some trailing_data)"

definition decodeBody :: "(chunk list \<Rightarrow> bool) \<Rightarrow> (json \<Rightarrow> 'a \<Rightarrow> 'a option) \<Rightarrow> 'a \<Rightarrow> string \<Rightarrow> gerror + 'a" where
  "decodeBody viable dec zero body =
     (case decode_next viable (over_cap body) (capped body) of
        AtCap \<Rightarrow> Inl too_large
      | AtEnd \<Rightarrow> Inl bad_json
      | Malformed \<Rightarrow> Inl bad_json
      | Value v rest \<Rightarrow>
          (case dec v zero of
             None \<Rightarrow> Inl bad_json
           | Some x \<Rightarrow>
               (case no_trailing viable (over_cap body) rest of Some e \<Rightarrow> Inl e | None \<Rightarrow> Inr x)))"

text \<open>\<open>None\<close>: there was no value.\<close>

definition decodeOptionalBody ::
  "(chunk list \<Rightarrow> bool) \<Rightarrow> (json \<Rightarrow> 'a \<Rightarrow> 'a option) \<Rightarrow> 'a \<Rightarrow> string \<Rightarrow> gerror + 'a option" where
  "decodeOptionalBody viable dec zero body =
     (case decode_next viable (over_cap body) (capped body) of
        AtEnd \<Rightarrow> Inr None
      | AtCap \<Rightarrow> Inl too_large
      | Malformed \<Rightarrow> Inl bad_json
      | Value v rest \<Rightarrow>
          (case dec v zero of
             None \<Rightarrow> Inl bad_json
           | Some x \<Rightarrow>
               (case no_trailing viable (over_cap body) rest of Some e \<Rightarrow> Inl e | None \<Rightarrow> Inr (Some x))))"

end
