(* ===== verification/Auth.thy ===== *)
theory Auth
  imports Http GoOs
begin

text \<open>
  Authentication: the operator credential read from its file at start-up (\<open>loadOperatorToken\<close>,
  \<open>initOperatorToken\<close>, \<open>bootstrapOperatorToken\<close>), and the caller of a request resolved from its
  bearer token (\<open>authenticate\<close>) with the route's policy (\<open>secure\<close>).  File modes are not modelled.
\<close>

section \<open>The operator credential\<close>

record auth_state =
  operatorHash :: string

definition loadOperatorToken :: "string \<Rightarrow> auth_state os" where
  "loadOperatorToken path =
     bindT (os_read_file path) (\<lambda>b.
     let token = trim_space b in
     if token = [] then fail (OsError (''operator token file '' @ path @ '' is empty''))
     else if length token < 32
     then fail (OsError ''operator token must be at least 32 characters; generate with e.g. openssl rand -hex 32'')
     else ret \<lparr>operatorHash = sha256 token\<rparr>)"

text \<open>\<open>O_CREATE|O_EXCL\<close>: \<open>False\<close> when there is something at the path (\<open>fs.ErrExist\<close>).\<close>

definition os_create_new :: "string \<Rightarrow> bool os" where
  "os_create_new p = os_step intact (at_path p (\<lambda>fs nd.
     case nd of
       Some x \<Rightarrow> Inr (False, fs)
     | None \<Rightarrow> Inr (True, set_node (path_key p) (File []) fs)))"

text \<open>\<open>os.Stat\<close>; as everywhere, a link in place of the file is an error.\<close>

definition os_stat :: "string \<Rightarrow> unit os" where
  "os_stat p = os_step intact (at_path p (\<lambda>fs nd.
     case nd of
       None \<Rightarrow> Inl (NotExist p)
     | Some (Link t) \<Rightarrow> Inl (OsError (p @ '': too many levels of symbolic links''))
     | Some x \<Rightarrow> Inr ((), fs)))"

text \<open>\<open>raw\<close> is what \<open>crypto/rand\<close> returned.\<close>

definition initOperatorToken :: "string + string \<Rightarrow> string \<Rightarrow> unit os" where
  "initOperatorToken raw path =
     (case raw of
        Inl m \<Rightarrow> fail (OsError (''generate operator token: '' @ m))
      | Inr bytes \<Rightarrow>
          (let token = hex_encode bytes in
           tryT (os_create_new path) (\<lambda>r. case r of
             Inl err \<Rightarrow> fail (OsError (''write operator token to '' @ path @ '': '' @ os_text err))
           | Inr created \<Rightarrow>
               if \<not> created
               then fail (OsError (''refusing to overwrite existing operator token file '' @ path))
               else tryT (os_write path token) (\<lambda>w. tryT os_close (\<lambda>_.
                 case w of Inl err \<Rightarrow> fail err | Inr _ \<Rightarrow> ret ())))))"

definition bootstrapOperatorToken :: "string + string \<Rightarrow> string \<Rightarrow> bool \<Rightarrow> auth_state option os" where
  "bootstrapOperatorToken raw path init =
     (if path = [] then ret None
      else
        bindT
          (if init then initOperatorToken raw path
           else tryT (os_stat path) (\<lambda>r. case r of
             Inl err \<Rightarrow>
               if is_not_exist err
               then fail (OsError (''operator token file '' @ path @
                      '' not found; supply an existing file or pass -init-operator-token to generate one''))
               else fail (OsError (''stat operator token file '' @ path @ '': '' @ os_text err))
           | Inr _ \<Rightarrow> ret ()))
          (\<lambda>_. bindT (loadOperatorToken path) (\<lambda>a. ret (Some a))))"

section \<open>The caller of a request\<close>

record principal =
  is_operator :: bool
  p_host :: string

definition operator_principal :: principal where
  "operator_principal = \<lparr>is_operator = True, p_host = []\<rparr>"

definition authenticate :: "auth_state option \<Rightarrow> hreq \<Rightarrow> principal store" where
  "authenticate auth r =
     (case auth of
        None \<Rightarrow> ret operator_principal
      | Some a \<Rightarrow>
          (let (token, ok) = cut_prefix (header_get r ''Authorization'') ''Bearer '' in
           if \<not> ok \<or> token = [] then fail (Sentinel ErrUnauthorized)
           else if sha256 token = operatorHash a then ret operator_principal
           else
             bindT (HostForToken token) (\<lambda>found.
             case found of
               None \<Rightarrow> fail (Sentinel ErrUnauthorized)
             | Some host \<Rightarrow> ret \<lparr>is_operator = False, p_host = host\<rparr>)))"

text \<open>A handler gets the caller, the request and the response headers set so far.\<close>

type_synonym handler = "principal \<Rightarrow> hreq \<Rightarrow> (string \<times> string) list \<Rightarrow> hres store"

definition secure :: "auth_state option \<Rightarrow> bool \<Rightarrow> handler \<Rightarrow> hreq \<Rightarrow> hres store" where
  "secure auth operatorOnly h r =
     tryT (authenticate auth r) (\<lambda>res. case res of
       Inl err \<Rightarrow> ret (writeErr [] err)
     | Inr p \<Rightarrow>
         if operatorOnly \<and> \<not> is_operator p
         then ret (writeErr [] (Wrapf ErrForbidden ''operator credential required''))
         else h p r [])"

section \<open>Who a caller is\<close>

text \<open>The token a request carries, and the principals it may act as.\<close>

definition bearer_token :: "hreq \<Rightarrow> string" where
  "bearer_token r = (let (token, ok) = cut_prefix (header_get r ''Authorization'') ''Bearer '' in if ok then token else [])"

definition entitled :: "auth_state option \<Rightarrow> db \<Rightarrow> hreq \<Rightarrow> principal \<Rightarrow> bool" where
  "entitled auth db r p \<longleftrightarrow>
     (case auth of
        None \<Rightarrow> p = operator_principal
      | Some a \<Rightarrow> bearer_token r \<noteq> [] \<and>
          (if sha256 (bearer_token r) = operatorHash a then p = operator_principal
           else \<not> is_operator p \<and> token_host db (bearer_token r) = Some (p_host p)))"

lemma wp_authenticate:
  assumes "\<not> busy s"
    and E: "\<And>x s'. \<not> busy s' \<Longrightarrow> committed s' = committed s \<Longrightarrow>
        faulty e \<and> (\<exists>m. x = Opaque m) \<or> x = Sentinel ErrUnauthorized \<and> (\<forall>p. \<not> entitled auth (committed s) r p) \<Longrightarrow> E x s'"
    and N: "\<And>p s'. \<not> busy s' \<Longrightarrow> committed s' = committed s \<Longrightarrow> entitled auth (committed s) r p \<Longrightarrow> N p s'"
  shows "wp (authenticate auth r) E N e s"
proof (cases auth)
  case None
  then show ?thesis using assms(1) by (auto simp: authenticate_def entitled_def intro!: wp_ret N)
next
  case (Some a)
  obtain token ok where t: "cut_prefix (header_get r ''Authorization'') ''Bearer '' = (token, ok)" by fastforce
  have b: "bearer_token r = (if ok then token else [])" by (simp add: bearer_token_def t)
  show ?thesis
    unfolding authenticate_def Some option.case t Let_def prod.case HostForToken_def
    by (intro wp_if wp_fail wp_ret wp_bindT wp_db_query wp_case_option)
       (auto simp: Some entitled_def b assms(1) operator_principal_def intro!: E N split: if_splits)
qed

end
