(* ===== verification/Handlers.thy ===== *)
theory Handlers
  imports Auth
begin

text \<open>
  The handlers of \<open>api.go\<close>, one definition each, and the routes of \<open>newMux\<close> with their
  access policy.  A path is the list of its unescaped segments; requests whose path
  \<open>ServeMux\<close> would first redirect to its clean form are not represented.
\<close>

section \<open>Shared steps\<close>

text \<open>\<open>x, err := m; if err != nil { writeErr(w, err); return }\<close>.\<close>

definition or_err :: "(string \<times> string) list \<Rightarrow> 'a store \<Rightarrow> ('a \<Rightarrow> hres store) \<Rightarrow> hres store" where
  "or_err hs m k = tryT m (\<lambda>r. case r of Inl err \<Rightarrow> ret (writeErr hs err) | Inr x \<Rightarrow> k x)"

definition editor_of :: "hreq \<Rightarrow> string" where
  "editor_of r = (let ed = header_get r ''X-Editor'' in if ed = [] then ''operator'' else ed)"

definition other_host :: gerror where
  "other_host = Wrapf ErrForbidden ''token is bound to a different host''"

definition subscriberProtocol :: "handler \<Rightarrow> handler" where
  "subscriberProtocol nxt = (\<lambda>p r hs.
     let hs' = set_header ''Agent-Knowledge-Protocol-Version'' ''1'' hs;
         versions = header_values r ''Agent-Knowledge-Protocol-Version'' in
     if 0 < length versions \<and> (length versions \<noteq> 1 \<or> hd versions \<noteq> ''1'')
     then ret (writeErr hs' (Sentinel ErrIncompatibleProtocol))
     else nxt p r hs')"

type_synonym scanner = "chunk list \<Rightarrow> bool"

section \<open>Documents\<close>

definition saveDoc :: "scanner \<Rightarrow> string \<Rightarrow> string \<Rightarrow> handler" where
  "saveDoc viable collection family p r hs =
     or_err hs (lift_result (decodeBody viable dec_doc_save zero_save (hr_body r))) (\<lambda>d.
     or_err hs (SaveDoc collection family (d\<lparr>s_editor := editor_of r\<rparr>)) (\<lambda>v.
     ret (writeJSON hs 200 (doc_version_json v))))"

definition listDocs :: handler where
  "listDocs p r hs =
     or_err hs ListDocs (\<lambda>docs.
     ret (writeJSON hs 200 (JObj [(''docs'', JArr (map (\<lambda>d. JObj (doc_meta_fields d)) docs))])))"

definition version_param :: "hreq \<Rightarrow> gerror + int" where
  "version_param r =
     (if query_has r ''version'' then
        (case parse_int64 (query_get r ''version'') of
           None \<Rightarrow> Inl (Wrapf ErrInvalid ''?version must be a positive integer'')
         | Some n \<Rightarrow> if n < 1 then Inl (Wrapf ErrInvalid ''?version must be a positive integer'') else Inr n)
      else Inr 0)"

definition getDoc :: "string \<Rightarrow> string \<Rightarrow> handler" where
  "getDoc collection family p r hs =
     or_err hs (lift_result (version_param r)) (\<lambda>version.
     or_err hs (GetDoc collection family version) (\<lambda>doc.
     ret (writeJSON hs 200 (doc_full_json doc))))"

definition docHistory :: "string \<Rightarrow> string \<Rightarrow> handler" where
  "docHistory collection family p r hs =
     or_err hs (DocHistory collection family) (\<lambda>vs.
     ret (writeJSON hs 200 (JObj [(''versions'', JArr (map (\<lambda>d. JObj (doc_meta_fields d)) vs))])))"

section \<open>Releases\<close>

definition dec_cut :: "json \<Rightarrow> string option \<Rightarrow> string option option" where
  "dec_cut v a =
     (case v of
        JObj kvs \<Rightarrow> dec_field ''expected_content_hash'' (dec_ptr dec_string []) a kvs
      | JNull \<Rightarrow> Some a
      | _ \<Rightarrow> None)"

definition hash_matches :: "string \<Rightarrow> bool" where
  "hash_matches s \<longleftrightarrow> has_prefix s ''sha256:'' \<and> length s = 71
     \<and> list_all (\<lambda>c. let n = of_char c :: nat in (48 \<le> n \<and> n \<le> 57) \<or> (97 \<le> n \<and> n \<le> 102)) (drop 7 s)"

definition bad_hash :: gerror where
  "bad_hash = Wrapf ErrInvalid
     (''expected_content_hash must be '' @ go_quote (''sha256:'' @ concat (replicate 64 ''[0-9a-f]'')))"

text \<open>The hash a cut is conditional on; empty for none.\<close>

definition expected_hash :: "string option option \<Rightarrow> gerror + string" where
  "expected_hash body =
     (case body of
        None \<Rightarrow> Inr []
      | Some None \<Rightarrow> Inl (Wrapf ErrInvalid ''expected_content_hash is required'')
      | Some (Some h) \<Rightarrow> if hash_matches h then Inr h else Inl bad_hash)"

definition cutRelease :: "scanner \<Rightarrow> handler" where
  "cutRelease viable p r hs =
     or_err hs (lift_result (decodeOptionalBody viable dec_cut None (hr_body r))) (\<lambda>body.
     or_err hs (lift_result (expected_hash body)) (\<lambda>expected.
     or_err hs (CutRelease expected (editor_of r)) (\<lambda>m.
     ret (writeJSON hs 201 (manifest_json m)))))"

definition previewRelease :: handler where
  "previewRelease p r hs =
     or_err hs PreviewRelease (\<lambda>m. ret (writeJSON hs 200 (manifest_json m)))"

text \<open>The host a request is about: a host token speaks for its own host only.\<close>

definition bound_host :: "principal \<Rightarrow> string \<Rightarrow> gerror + string" where
  "bound_host p host =
     (if is_operator p then Inr host
      else if host \<noteq> [] \<and> host \<noteq> p_host p then Inl other_host
      else Inr (p_host p))"

definition currentRelease :: handler where
  "currentRelease p r hs =
     or_err hs CurrentRelease (\<lambda>m.
     or_err hs (lift_result (bound_host p (query_get r ''host''))) (\<lambda>host.
     if host \<noteq> [] then
       or_err hs (ResyncPending host) (\<lambda>pending.
       ret (writeJSON hs 200 (manifest_json (m\<lparr>m_resync := pending\<rparr>))))
     else ret (writeJSON hs 200 (manifest_json m))))"

definition archive :: "string \<Rightarrow> handler" where
  "archive ident p r hs =
     (case parse_int64 ident of
        None \<Rightarrow> ret (writeErr hs (Wrapf ErrInvalid ''bad release id''))
      | Some i \<Rightarrow>
          or_err hs (Release i) (\<lambda>_.
          tryT (WriteArchive i) (\<lambda>res.
          ret \<lparr>rp_code = 200, rp_headers = set_header ''Content-Type'' ''application/x-tar'' hs,
               rp_body = (case res of Inl err \<Rightarrow> Tar [] (Some err) | Inr (out, cutoff) \<Rightarrow> Tar out cutoff)\<rparr>)))"

section \<open>Hosts\<close>

definition requestResync :: "string \<Rightarrow> handler" where
  "requestResync host p r hs = or_err hs (RequestResync host) (\<lambda>_. ret (no_content hs))"

definition latest_release :: "gerror + manifest \<Rightarrow> gerror + int" where
  "latest_release cur =
     (case cur of
        Inr m \<Rightarrow> Inr (m_release m)
      | Inl err \<Rightarrow> if errors_is err ErrNotFound then Inr 0 else Inl err)"

definition listHosts :: handler where
  "listHosts p r hs =
     or_err hs ListHosts (\<lambda>hosts.
     tryT CurrentRelease (\<lambda>cur.
     or_err hs (lift_result (latest_release cur)) (\<lambda>latest.
     bindT get_time (\<lambda>now.
     ret (writeJSON hs 200 (JObj
       [(''hosts'', JArr (map host_status_json hosts)), (''latest_release_id'', json_int latest), (''now'', JStr now)]))))))"

record heartbeat_in =
  hi_host :: string
  hi_release :: int
  hi_ok :: bool
  hi_error :: "string option"
  hi_resync :: bool

definition zero_heartbeat :: heartbeat_in where
  "zero_heartbeat = \<lparr>hi_host = [], hi_release = 0, hi_ok = False, hi_error = None, hi_resync = False\<rparr>"

fun dec_heartbeat :: "json \<Rightarrow> heartbeat_in \<Rightarrow> heartbeat_in option" where
  "dec_heartbeat (JObj kvs) a =
     (case (dec_field ''host'' dec_string (hi_host a) kvs, dec_field ''release_id'' dec_int (hi_release a) kvs,
            dec_field ''ok'' dec_bool (hi_ok a) kvs, dec_field ''error'' (dec_ptr dec_string []) (hi_error a) kvs,
            dec_field ''resync_applied'' dec_bool (hi_resync a) kvs) of
        (Some h, Some i, Some k, Some m, Some rs) \<Rightarrow>
          Some \<lparr>hi_host = h, hi_release = i, hi_ok = k, hi_error = m, hi_resync = rs\<rparr>
      | _ \<Rightarrow> None)"
| "dec_heartbeat JNull a = Some a"
| "dec_heartbeat _ a = None"

definition heartbeat :: "scanner \<Rightarrow> handler" where
  "heartbeat viable p r hs =
     or_err hs (lift_result (decodeBody viable dec_heartbeat zero_heartbeat (hr_body r))) (\<lambda>inp.
     or_err hs (lift_result (bound_host p (hi_host inp))) (\<lambda>host.
     or_err hs (Heartbeat host (hi_release inp) (hi_ok inp) (coalesce (hi_error inp) []) (hi_resync inp)) (\<lambda>_.
     ret (no_content hs))))"

definition issueToken :: "string \<Rightarrow> handler" where
  "issueToken host p r hs =
     or_err hs (IssueHostToken host) (\<lambda>token.
     ret (writeJSON hs 201 (JObj [(''host'', JStr host), (''token'', JStr token)])))"

definition revokeToken :: "string \<Rightarrow> handler" where
  "revokeToken host p r hs = or_err hs (RevokeHostToken host) (\<lambda>_. ret (no_content hs))"

section \<open>Conflicts\<close>

definition listConflicts :: handler where
  "listConflicts p r hs =
     or_err hs (ListConflicts (query_get r ''status'')) (\<lambda>cs.
     ret (writeJSON hs 200 (JObj [(''conflicts'', JArr (map (\<lambda>c. JObj (conflict_meta_fields c)) cs))])))"

definition conflict_id :: "string \<Rightarrow> gerror + int" where
  "conflict_id ident =
     (case parse_int64 ident of None \<Rightarrow> Inl (Wrapf ErrInvalid ''bad conflict id'') | Some i \<Rightarrow> Inr i)"

definition getConflict :: "string \<Rightarrow> handler" where
  "getConflict ident p r hs =
     or_err hs (lift_result (conflict_id ident)) (\<lambda>i.
     or_err hs (GetConflict i) (\<lambda>c.
     ret (writeJSON hs 200 (conflict_json c))))"

record flag_in =
  fi_collection :: string
  fi_family :: string
  fi_other_collection :: string
  fi_other_family :: string
  fi_detail :: string

definition zero_flag :: flag_in where
  "zero_flag = \<lparr>fi_collection = [], fi_family = [], fi_other_collection = [], fi_other_family = [], fi_detail = []\<rparr>"

fun dec_flag :: "json \<Rightarrow> flag_in \<Rightarrow> flag_in option" where
  "dec_flag (JObj kvs) a =
     (case (dec_field ''collection'' dec_string (fi_collection a) kvs, dec_field ''family_id'' dec_string (fi_family a) kvs,
            dec_field ''other_collection'' dec_string (fi_other_collection a) kvs,
            dec_field ''other_family_id'' dec_string (fi_other_family a) kvs,
            dec_field ''detail'' dec_string (fi_detail a) kvs) of
        (Some c, Some f, Some oc, Some off, Some d) \<Rightarrow>
          Some \<lparr>fi_collection = c, fi_family = f, fi_other_collection = oc, fi_other_family = off, fi_detail = d\<rparr>
      | _ \<Rightarrow> None)"
| "dec_flag JNull a = Some a"
| "dec_flag _ a = None"

definition flagConflict :: "scanner \<Rightarrow> handler" where
  "flagConflict viable p r hs =
     or_err hs (lift_result (decodeBody viable dec_flag zero_flag (hr_body r))) (\<lambda>inp.
     or_err hs (FlagClaimConflict (fi_collection inp) (fi_family inp) (fi_other_collection inp) (fi_other_family inp)
                  (fi_detail inp) (editor_of r)) (\<lambda>c.
     ret (writeJSON hs 201 (conflict_json c))))"

record resolve_in =
  ri_resolution :: string
  ri_attempts :: "int option"
  ri_save :: "doc_save option"

definition zero_resolve :: resolve_in where
  "zero_resolve = \<lparr>ri_resolution = [], ri_attempts = None, ri_save = None\<rparr>"

fun dec_resolve :: "json \<Rightarrow> resolve_in \<Rightarrow> resolve_in option" where
  "dec_resolve (JObj kvs) a =
     (case (dec_field ''resolution'' dec_string (ri_resolution a) kvs,
            dec_field ''expected_attempts'' (dec_ptr dec_int 0) (ri_attempts a) kvs,
            dec_field ''save'' (dec_ptr dec_doc_save zero_save) (ri_save a) kvs) of
        (Some res, Some n, Some sv) \<Rightarrow> Some \<lparr>ri_resolution = res, ri_attempts = n, ri_save = sv\<rparr>
      | _ \<Rightarrow> None)"
| "dec_resolve JNull a = Some a"
| "dec_resolve _ a = None"

definition attempts_of :: "resolve_in \<Rightarrow> gerror + int" where
  "attempts_of inp =
     (case ri_attempts inp of
        None \<Rightarrow> Inl (Wrapf ErrInvalid ''expected_attempts is required'')
      | Some n \<Rightarrow> if n < 1 then Inl (Wrapf ErrInvalid ''expected_attempts is required'') else Inr n)"

definition resolveConflict :: "scanner \<Rightarrow> string \<Rightarrow> handler" where
  "resolveConflict viable ident p r hs =
     or_err hs (lift_result (conflict_id ident)) (\<lambda>i.
     or_err hs (lift_result (decodeBody viable dec_resolve zero_resolve (hr_body r))) (\<lambda>inp.
     or_err hs (lift_result (attempts_of inp)) (\<lambda>n.
     or_err hs (ResolveConflict i (ri_resolution inp) n
                  (map_option (\<lambda>d. d\<lparr>s_editor := editor_of r\<rparr>) (ri_save inp)) (editor_of r)) (\<lambda>c.
     ret (writeJSON hs 200 (conflict_json c))))))"

section \<open>Routes\<close>

datatype policy = OperatorOnly | AnyToken

text \<open>The patterns of \<open>newMux\<close> that match a path, with method, policy and handler.\<close>

definition api_routes :: "scanner \<Rightarrow> string list \<Rightarrow> (string \<times> policy \<times> handler) list" where
  "api_routes viable path =
     (case path of
        a # rest \<Rightarrow>
          if a \<noteq> ''api'' \<or> list_ex (\<lambda>seg. seg = []) rest then []
          else (case rest of
            [x] \<Rightarrow>
              if x = ''docs'' then [(''GET'', OperatorOnly, listDocs)]
              else if x = ''releases'' then [(''POST'', OperatorOnly, cutRelease viable)]
              else if x = ''heartbeats'' then [(''POST'', AnyToken, subscriberProtocol (heartbeat viable))]
              else if x = ''hosts'' then [(''GET'', OperatorOnly, listHosts)]
              else if x = ''conflicts'' then
                [(''GET'', OperatorOnly, listConflicts), (''POST'', OperatorOnly, flagConflict viable)]
              else []
          | [x, y] \<Rightarrow>
              if x = ''releases'' \<and> y = ''preview'' then [(''GET'', OperatorOnly, previewRelease)]
              else if x = ''releases'' \<and> y = ''current'' then [(''GET'', AnyToken, subscriberProtocol currentRelease)]
              else if x = ''conflicts'' then [(''GET'', OperatorOnly, getConflict y)]
              else []
          | [x, y, z] \<Rightarrow>
              if x = ''docs'' then
                [(''PUT'', OperatorOnly, saveDoc viable y z), (''GET'', OperatorOnly, getDoc y z)]
              else if x = ''releases'' \<and> z = ''archive'' then [(''GET'', AnyToken, subscriberProtocol (archive y))]
              else if x = ''hosts'' \<and> z = ''resync'' then [(''POST'', OperatorOnly, requestResync y)]
              else if x = ''hosts'' \<and> z = ''token'' then
                [(''POST'', OperatorOnly, issueToken y), (''DELETE'', OperatorOnly, revokeToken y)]
              else if x = ''conflicts'' \<and> z = ''resolve'' then [(''POST'', OperatorOnly, resolveConflict viable y)]
              else []
          | [x, y, z, v] \<Rightarrow>
              if x = ''docs'' \<and> v = ''versions'' then [(''GET'', OperatorOnly, docHistory y z)] else []
          | _ \<Rightarrow> [])
      | [] \<Rightarrow> [])"

text \<open>A pattern for \<open>GET\<close> also takes \<open>HEAD\<close>.\<close>

definition method_matches :: "string \<Rightarrow> string \<Rightarrow> bool" where
  "method_matches pat m \<longleftrightarrow> m = pat \<or> pat = ''GET'' \<and> m = ''HEAD''"

definition plain_error :: "nat \<Rightarrow> string \<Rightarrow> (string \<times> string) list \<Rightarrow> hres" where
  "plain_error code text hs =
     \<lparr>rp_code = code,
      rp_headers = set_header ''X-Content-Type-Options'' ''nosniff'' (set_header ''Content-Type'' ''text/plain; charset=utf-8'' hs),
      rp_body = Text (text @ [CHR 0x0A])\<rparr>"

definition not_found :: "(string \<times> string) list \<Rightarrow> hres" where
  "not_found hs = plain_error 404 ''404 page not found'' hs"

definition allowed_methods :: "string list \<Rightarrow> string" where
  "allowed_methods pats = join '', '' (sort (remdups (pats @ (if list_ex (\<lambda>m. m = ''GET'') pats then [''HEAD''] else []))))"

definition policy_operator :: "policy \<Rightarrow> bool" where
  "policy_operator pol = (pol = OperatorOnly)"

end
