(* ===== verification/JsonWf.thy ===== *)
theory JsonWf
  imports DocTypes
begin

text \<open>
  Every string in a decoded JSON value is well-formed UTF-8 and every number decoded into an
  integer is in the 64-bit range, whatever bytes the text had: the decoder replaces ill-formed
  bytes and lone surrogates.  So a document decoded from a request body is one that can be
  written back (\<open>wire_save\<close>).
\<close>

section \<open>Runes that encode to well-formed text\<close>

lemma in_range_cont: "x < 64 \<Longrightarrow> lo \<le> 128 + x \<Longrightarrow> 128 + x \<le> hi \<Longrightarrow> in_range lo hi (char_of (128 + x))"
  by (simp add: in_range_def)

lemma cont_bits_char: "x < 64 \<Longrightarrow> cont_bits (char_of (128 + x)) = x"
  by (simp add: cont_bits_def)

lemma digits64: "u = u div 64 * 64 + u mod 64" for u :: nat
  by simp

lemma div_div64: "u div 64 div 64 = u div 4096" "u div 4096 div 64 = u div 262144" for u :: nat
  by (simp_all flip: div_mult2_eq)

lemma decode_encode2:
  assumes "128 \<le> u" "u < 2048"
  shows "decode_rune (encode_rune u) = (u, 2)"
proof -
  have b: "2 \<le> u div 64" "u div 64 < 32" using assms by auto
  have x: "u mod 64 < 64" by simp
  show ?thesis
    using assms b in_range_cont [OF x, of 128 191] cont_bits_char [OF x]
    by (simp add: encode_rune_def decode_rune.simps decode2_def Let_def)
qed

lemma decode_encode3:
  assumes "2048 \<le> u" "u < 65536" "\<not> (55296 \<le> u \<and> u < 57344)"
  shows "decode_rune (encode_rune u) = (u, 3)"
proof -
  define a b c where abc: "a = u div 4096" "b = u div 64 mod 64" "c = u mod 64"
  have r: "a < 16" "b < 64" "c < 64" using assms by (auto simp: abc)
  have u: "u = a * 4096 + b * 64 + c" using digits64 [of u] digits64 [of "u div 64"] unfolding abc div_div64 by linarith
  have lo: "a = 0 \<Longrightarrow> 32 \<le> b" using assms(1) r u by linarith
  have hi: "a = 13 \<Longrightarrow> b < 32" using assms(3) r u by linarith
  have r1: "in_range (if 224 + a = 224 then 160 else 128) (if 224 + a = 237 then 159 else 191) (char_of (128 + b))"
    using lo hi r by (intro in_range_cont) auto
  have r2: "in_range 128 191 (char_of (128 + c))" using r by (intro in_range_cont) auto
  have e: "encode_rune u = [char_of (224 + a), char_of (128 + b), char_of (128 + c)]"
    using assms by (simp add: encode_rune_def abc)
  have "decode3 (224 + a) [char_of (128 + b), char_of (128 + c)] = (u, 3)"
    unfolding decode3_def list.case if_P [OF conjI [OF r1 r2]] cont_bits_char [OF r(2)] cont_bits_char [OF r(3)]
    by (simp add: u)
  then show ?thesis using r by (simp add: e decode_rune.simps Let_def)
qed

lemma decode_encode4:
  assumes "65536 \<le> u" "u < 1114112"
  shows "decode_rune (encode_rune u) = (u, 4)"
proof -
  define a b c d where abcd: "a = u div 262144" "b = u div 4096 mod 64" "c = u div 64 mod 64" "d = u mod 64"
  have r: "a < 5" "b < 64" "c < 64" "d < 64" using assms by (auto simp: abcd)
  have u: "u = a * 262144 + b * 4096 + c * 64 + d"
    using digits64 [of u] digits64 [of "u div 64"] digits64 [of "u div 4096"] unfolding abcd div_div64 by linarith
  have lo: "a = 0 \<Longrightarrow> 16 \<le> b" using assms(1) r u by linarith
  have hi: "a = 4 \<Longrightarrow> b < 16" using assms(2) r u by linarith
  have r1: "in_range (if 240 + a = 240 then 144 else 128) (if 240 + a = 244 then 143 else 191) (char_of (128 + b))"
    using lo hi r by (intro in_range_cont) auto
  have r2: "in_range 128 191 (char_of (128 + c))" "in_range 128 191 (char_of (128 + d))"
    using r by (auto intro: in_range_cont)
  have e: "encode_rune u = [char_of (240 + a), char_of (128 + b), char_of (128 + c), char_of (128 + d)]"
    using assms by (simp add: encode_rune_def abcd)
  have "decode4 (240 + a) [char_of (128 + b), char_of (128 + c), char_of (128 + d)] = (u, 4)"
    unfolding decode4_def list.case if_P [OF conjI [OF r1 conjI [OF r2]]] cont_bits_char [OF r(2)]
      cont_bits_char [OF r(3)] cont_bits_char [OF r(4)]
    by (simp add: u)
  then show ?thesis using r by (simp add: e decode_rune.simps Let_def)
qed

lemma runes_single: "decode_rune (c # cs) = (r, w) \<Longrightarrow> length (c # cs) = w \<Longrightarrow> runes (c # cs) = [(r, c # cs)]"
  by (simp add: runes.simps(2))

lemma valid_single:
  assumes "decode_rune s = (r, w)" "length s = w" "\<not> (r = rune_error \<and> w = 1)"
  shows "valid_utf8 s"
proof (cases s)
  case (Cons c cs)
  then show ?thesis using assms runes_single [of c cs r w] by (simp add: valid_utf8_def)
qed simp

lemma valid_encode_rune:
  assumes "u < 1114112" "\<not> (55296 \<le> u \<and> u < 57344)"
  shows "valid_utf8 (encode_rune u)"
proof -
  consider "u < 128" | "128 \<le> u" "u < 2048" | "2048 \<le> u" "u < 65536" | "65536 \<le> u" by linarith
  then show ?thesis
  proof cases
    case 1
    then show ?thesis by (intro valid_utf8_ascii) (simp add: encode_rune_def)
  next
    case 2
    then show ?thesis by (intro valid_single [OF decode_encode2]) (auto simp: encode_rune_def)
  next
    case 3
    then show ?thesis using assms by (intro valid_single [OF decode_encode3]) (auto simp: encode_rune_def)
  next
    case 4
    then show ?thesis using assms by (intro valid_single [OF decode_encode4]) (auto simp: encode_rune_def)
  qed
qed

section \<open>The decoder's input\<close>

definition good_chunk :: "chunk \<Rightarrow> bool" where
  "good_chunk c \<longleftrightarrow> fst c = rune_error \<and> length (snd c) = 1 \<or> valid_utf8 (snd c)"

lemma good_runes: "list_all good_chunk (runes s)"
proof (induction s rule: runes.induct)
  case (2 c cs)
  obtain r w where rw: "decode_rune (c # cs) = (r, w)" by (cases "decode_rune (c # cs)")
  have step: "runes (c # cs) = (r, take w (c # cs)) # runes (drop w (c # cs))" by (simp add: runes.simps(2) rw)
  have "good_chunk (r, take w (c # cs))"
  proof (cases "r = rune_error \<and> w = 1")
    case True
    then show ?thesis by (simp add: good_chunk_def)
  next
    case False
    show ?thesis
      using valid_single [of "take w (c # cs)" r w] decode_rune_stable(1) [OF rw False, of "[]"]
        decode_rune_stable(2) [OF rw False] False
      by (simp add: good_chunk_def)
  qed
  with "2.IH" [OF rw [symmetric] refl] show ?case unfolding step by simp
qed simp

lemma good_skip_ws: "list_all good_chunk cs \<Longrightarrow> list_all good_chunk (skip_ws cs)"
  by (auto simp: list_all_iff skip_ws_def dest: set_dropWhileD)

lemma good_hex4: "hex4 cs = Some (u, rest) \<Longrightarrow> list_all good_chunk cs \<Longrightarrow> list_all good_chunk rest"
  by (induction cs rule: hex4.induct) (auto split: option.splits)

lemma hex_val_less: "hex_val r = Some n \<Longrightarrow> n < 16"
  by (auto simp: hex_val_def split: if_splits)

lemma hex4_less: "hex4 cs = Some (u, rest) \<Longrightarrow> u < 65536"
  by (induction cs rule: hex4.induct) (auto split: option.splits dest!: hex_val_less)

lemma valid_utf8_error: "valid_utf8 utf8_error"
  using valid_encode_rune [of 65533] by (simp add: encode_rune_def utf8_error_def char_of_def bit_simps)


lemma good_valid: "good_chunk (r, bs) \<Longrightarrow> \<not> (r = rune_error \<and> length bs = 1) \<Longrightarrow> valid_utf8 bs"
  by (auto simp: good_chunk_def)

lemma good_unicode_escape:
  assumes "unicode_escape cs = Some (out, rest)" "list_all good_chunk cs"
  shows "valid_utf8 out \<and> list_all good_chunk rest"
proof -
  obtain u rest0 where u: "hex4 cs = Some (u, rest0)" using assms(1) by (auto simp: unicode_escape_def split: option.splits)
  have g0: "list_all good_chunk rest0" "u < 65536" using good_hex4 [OF u assms(2)] hex4_less [OF u] by auto
  show ?thesis
  proof (cases "55296 \<le> u \<and> u < 57344")
    case False
    then show ?thesis using assms(1) u g0 by (auto simp: unicode_escape_def intro!: valid_encode_rune)
  next
    case True
    consider "out = utf8_error" "rest = rest0"
      | x y rest1 v where "rest0 = x # y # rest1" "hex4 rest1 = Some (v, rest)" "u < 56320" "56320 \<le> v" "v < 57344"
          "out = encode_rune (65536 + (u - 55296) * 1024 + (v - 56320))"
      using assms(1) u True by (auto simp: unicode_escape_def split: option.splits list.splits if_splits)
    then show ?thesis
    proof cases
      case 1
      then show ?thesis using g0 valid_utf8_error by simp
    next
      case 2
      then show ?thesis using g0 good_hex4 [OF 2(2)] by (auto intro!: valid_encode_rune)
    qed
  qed
qed

lemma good_string_escape:
  assumes "string_escape cs = Some (out, rest)" "list_all good_chunk cs"
  shows "valid_utf8 out \<and> list_all good_chunk rest"
  using assms
  by (auto simp: string_escape_def good_chunk_def rune_error_def valid_utf8_ascii
      dest!: good_unicode_escape split: list.splits if_splits)

lemma good_parse_str:
  "parse_str cs = Some (s, rest) \<Longrightarrow> list_all good_chunk cs \<Longrightarrow> valid_utf8 s \<and> list_all good_chunk rest"
proof (induction cs arbitrary: s rest rule: parse_str.induct)
  case (2 r bs cs)
  consider (quote) "r = 34" | (esc) "r = 92" | (plain) "r \<noteq> 34" "r \<noteq> 92" by blast
  then show ?case
  proof cases
    case quote
    then show ?thesis using 2 by (auto simp: parse_str.simps(2))
  next
    case esc
    then obtain out rest0 t where *: "string_escape cs = Some (out, rest0)" "parse_str rest0 = Some (t, rest)" "s = out @ t"
      using "2.prems"(1) by (auto simp: parse_str.simps(2) split: option.splits)
    have g: "valid_utf8 out" "list_all good_chunk rest0" using good_string_escape [OF *(1)] "2.prems"(2) by auto
    show ?thesis using "2.IH"(1) [OF _ _ *(1) refl *(2) g(2)] esc g * by simp
  next
    case plain
    then obtain t where *: "parse_str cs = Some (t, rest)" "\<not> r < 32"
        "s = (if r = rune_error \<and> length bs = 1 then utf8_error else bs) @ t"
      using "2.prems"(1) by (auto simp: parse_str.simps(2) split: if_splits)
    have "valid_utf8 (if r = rune_error \<and> length bs = 1 then utf8_error else bs)"
      using "2.prems"(2) good_valid valid_utf8_error by auto
    then show ?thesis using "2.IH"(2) [OF plain *(2) *(1)] "2.prems"(2) *(3) by simp
  qed
qed simp

section \<open>Decoded values\<close>

fun json_wf :: "json \<Rightarrow> bool" where
  "json_wf (JStr s) = valid_utf8 s"
| "json_wf (JArr xs) = (\<forall>x \<in> set xs. json_wf x)"
| "json_wf (JObj kvs) = (\<forall>kv \<in> set kvs. json_wf (snd kv))"
| "json_wf _ = True"

definition reads_wf :: "(chunk list \<Rightarrow> (json \<times> chunk list) option) \<Rightarrow> bool" where
  "reads_wf p \<longleftrightarrow> (\<forall>cs v rest. list_all good_chunk cs \<longrightarrow> p cs = Some (v, rest) \<longrightarrow> json_wf v \<and> list_all good_chunk rest)"

lemma reads_wfD: "reads_wf p \<Longrightarrow> p cs = Some (v, rest) \<Longrightarrow> list_all good_chunk cs \<Longrightarrow> json_wf v \<and> list_all good_chunk rest"
  by (auto simp: reads_wf_def)


lemma good_eat: "eat lit cs = Some rest \<Longrightarrow> list_all good_chunk cs \<Longrightarrow> list_all good_chunk rest"
  by (induction lit cs rule: eat.induct) (auto split: if_splits)

lemma good_take_digits: "take_digits cs = (ds, rest) \<Longrightarrow> list_all good_chunk cs \<Longrightarrow> list_all good_chunk rest"
  by (auto simp: take_digits_def list_all_iff dest: set_dropWhileD)

lemma good_parse_frac: "parse_frac cs = Some (ds, rest) \<Longrightarrow> list_all good_chunk cs \<Longrightarrow> list_all good_chunk rest"
  by (auto simp: parse_frac_def split: list.splits if_splits prod.splits dest: good_take_digits)

lemma good_parse_exp: "parse_exp cs = Some (ds, rest) \<Longrightarrow> list_all good_chunk cs \<Longrightarrow> list_all good_chunk rest"
  by (auto simp: parse_exp_def split: list.splits if_splits prod.splits dest: good_take_digits)

lemma good_parse_num:
  assumes "parse_num cs = Some (n, rest)" "list_all good_chunk cs"
  shows "list_all good_chunk rest"
proof -
  obtain sg cs1 where 1: "(case cs of (r, bs) # rest \<Rightarrow> if r = 45 then (bs, rest) else ([], cs) | [] \<Rightarrow> ([], cs)) = (sg, cs1)"
    by fastforce
  obtain ds cs2 where 2: "(case cs1 of (r, bs) # rest \<Rightarrow> if r = 48 then (bs, rest) else take_digits cs1 | [] \<Rightarrow> ([], cs1)) = (ds, cs2)"
    by fastforce
  have g1: "list_all good_chunk cs1" using 1 assms(2) by (auto split: list.splits if_splits)
  have g2: "list_all good_chunk cs2"
    using 2 g1 good_take_digits [of cs1 ds cs2] by (auto split: list.splits if_splits)
  obtain fr cs3 ex where "parse_frac cs2 = Some (fr, cs3)" "parse_exp cs3 = Some (ex, rest)"
    using assms(1) unfolding parse_num_def 1 prod.case 2 by (auto split: if_splits option.splits)
  then show ?thesis using g2 by (auto dest: good_parse_frac good_parse_exp)
qed

lemma reads_wf_scalar: "reads_wf parse_scalar"
  by (auto simp: reads_wf_def parse_scalar_def split: list.splits if_splits
      dest: good_parse_str good_eat good_parse_num)

lemma good_elems:
  assumes "reads_wf p"
  shows "parse_elems p n cs = Some (vs, rest) \<Longrightarrow> list_all good_chunk cs
    \<Longrightarrow> (\<forall>v \<in> set vs. json_wf v) \<and> list_all good_chunk rest"
proof (induction n arbitrary: cs vs rest)
  case (Suc n)
  obtain v rest0 where v: "p cs = Some (v, rest0)" using Suc.prems(1) by (auto split: option.splits)
  have g: "json_wf v" "list_all good_chunk rest0" using reads_wfD [OF assms v Suc.prems(2)] by auto
  obtain r bs rest1 where ws: "skip_ws rest0 = (r, bs) # rest1"
    using Suc.prems(1) v by (auto split: list.splits)
  have g1: "list_all good_chunk rest1" using good_skip_ws [OF g(2)] by (simp add: ws)
  show ?case using Suc.prems(1) v ws g(1) g1 Suc.IH [of rest1] by (auto split: if_splits)
qed simp

lemma good_member:
  assumes "reads_wf p" "parse_member p cs = Some (kv, rest)" "list_all good_chunk cs"
  shows "json_wf (snd kv) \<and> list_all good_chunk rest"
proof -
  obtain r bs cs1 where 1: "skip_ws cs = (r, bs) # cs1" "r = 34"
    using assms(2) by (auto simp: parse_member_def split: list.splits if_splits)
  obtain k cs2 where 2: "parse_str cs1 = Some (k, cs2)"
    using assms(2) 1 by (auto simp: parse_member_def split: option.splits)
  obtain q bs' cs3 v where 3: "skip_ws cs2 = (q, bs') # cs3" "p cs3 = Some (v, rest)" "kv = (k, v)"
    using assms(2) 1 2 by (auto simp: parse_member_def split: list.splits if_splits)
  have "list_all good_chunk cs1" using good_skip_ws [OF assms(3)] by (simp add: 1)
  then have "list_all good_chunk cs2" using good_parse_str [OF 2] by simp
  then have "list_all good_chunk cs3" using good_skip_ws [of cs2] by (simp add: 3)
  then show ?thesis using reads_wfD [OF assms(1) 3(2)] 3(3) by simp
qed

lemma good_members:
  assumes "reads_wf p"
  shows "parse_members p n cs = Some (kvs, rest) \<Longrightarrow> list_all good_chunk cs
    \<Longrightarrow> (\<forall>kv \<in> set kvs. json_wf (snd kv)) \<and> list_all good_chunk rest"
proof (induction n arbitrary: cs kvs rest)
  case (Suc n)
  obtain kv rest0 where v: "parse_member p cs = Some (kv, rest0)" using Suc.prems(1) by (auto split: option.splits)
  have g: "json_wf (snd kv)" "list_all good_chunk rest0" using good_member [OF assms v Suc.prems(2)] by auto
  obtain r bs rest1 where ws: "skip_ws rest0 = (r, bs) # rest1"
    using Suc.prems(1) v by (auto split: list.splits)
  have g1: "list_all good_chunk rest1" using good_skip_ws [OF g(2)] by (simp add: ws)
  show ?case using Suc.prems(1) v ws g(1) g1 Suc.IH [of rest1] by (fastforce split: if_splits)
qed simp

lemma reads_wf_value: "reads_wf (parse_value d)"
proof (induction d)
  case 0
  show ?case
    unfolding reads_wf_def
  proof (intro allI impI)
    fix cs v rest
    assume g: "list_all good_chunk cs" and p: "parse_value 0 cs = Some (v, rest)"
    obtain r bs cs1 where ws: "skip_ws cs = (r, bs) # cs1" using p by (auto split: list.splits)
    then have "parse_scalar (skip_ws cs) = Some (v, rest)" using p by (auto split: if_splits)
    then show "json_wf v \<and> list_all good_chunk rest"
      using reads_wfD [OF reads_wf_scalar] good_skip_ws [OF g] by blast
  qed
next
  case (Suc d)
  show ?case
    unfolding reads_wf_def
  proof (intro allI impI)
    fix cs v rest
    assume g: "list_all good_chunk cs" and p: "parse_value (Suc d) cs = Some (v, rest)"
    obtain r bs cs1 where ws: "skip_ws cs = (r, bs) # cs1" using p by (auto split: list.splits)
    have g1: "list_all good_chunk cs1" using good_skip_ws [OF g] by (simp add: ws)
    have g2: "list_all good_chunk rest1" if "skip_ws cs1 = c # rest1" for c rest1
      using good_skip_ws [OF g1] that by simp
    consider (arr) "r = 91" | (obj) "r = 123" | (scalar) "r \<noteq> 91" "r \<noteq> 123" by blast
    then show "json_wf v \<and> list_all good_chunk rest"
    proof cases
      case arr
      then show ?thesis
        using p ws g2 good_elems [OF Suc.IH _ g1] by (auto split: list.splits if_splits)
    next
      case obj
      then show ?thesis
        using p ws g2 good_members [OF Suc.IH _ g1] by (auto split: list.splits if_splits)
    next
      case scalar
      then have "parse_scalar (skip_ws cs) = Some (v, rest)" using p ws by auto
      then show ?thesis using reads_wfD [OF reads_wf_scalar] good_skip_ws [OF g] by blast
    qed
  qed
qed

lemma parse_value_wf: "parse_value d (runes s) = Some (v, rest) \<Longrightarrow> json_wf v"
  using reads_wfD [OF reads_wf_value _ good_runes] by blast


section \<open>Decoded documents\<close>

lemma dec_field_keeps:
  assumes "dec_field name f a kvs = Some x" "P a"
    and "\<And>k v b y. (k, v) \<in> set kvs \<Longrightarrow> P b \<Longrightarrow> f v b = Some y \<Longrightarrow> P y"
  shows "P x"
  using assms
proof (induction kvs arbitrary: a)
  case (Cons kv kvs)
  obtain k v where kv: "kv = (k, v)" by fastforce
  show ?case
  proof (cases "fold_key k = name")
    case True
    then obtain b where b: "f v a = Some b" "dec_field name f b kvs = Some x"
      using Cons.prems(1) by (auto simp: kv split: option.splits)
    show ?thesis using Cons.IH [OF b(2)] Cons.prems(2,3) b(1) kv by (metis list.set_intros)
  next
    case False
    then show ?thesis using Cons.IH [of a] Cons.prems kv by (auto simp: kv)
  qed
qed simp

lemma dec_string_wf: "dec_string v a = Some x \<Longrightarrow> json_wf v \<Longrightarrow> valid_utf8 a \<Longrightarrow> valid_utf8 x"
  by (cases v) auto

lemma dec_int_range: "dec_int v a = Some x \<Longrightarrow> int64_range a \<Longrightarrow> int64_range x"
  by (cases v) (auto dest: parse_int64_range)

lemma dec_list_wf:
  assumes "dec_list f zero vs = Some xs" "\<forall>v \<in> set vs. \<forall>x. f v zero = Some x \<longrightarrow> P x"
  shows "list_all P xs"
  using assms by (induction vs arbitrary: xs) (auto split: option.splits)

lemma dec_slice_wf:
  assumes "dec_slice f zero v a = Some xs" "json_wf v" "list_all P (elems a)"
    and f: "\<And>w x. json_wf w \<Longrightarrow> f w zero = Some x \<Longrightarrow> P x"
  shows "list_all P (elems xs)"
proof (cases v)
  case (JArr vs)
  then obtain ys where ys: "dec_list f zero vs = Some ys" "xs = Some ys" using assms(1) by auto
  have "list_all P ys" by (rule dec_list_wf [OF ys(1)]) (use JArr assms(2) f in auto)
  then show ?thesis by (simp add: ys)
qed (use assms in auto)

lemma dec_string_field:
  assumes "dec_field name dec_string a kvs = Some x" "valid_utf8 a" "json_wf (JObj kvs)"
  shows "valid_utf8 x"
  by (rule dec_field_keeps [where P = valid_utf8, OF assms(1,2)]) (use assms(3) dec_string_wf in fastforce)

lemma dec_int_field:
  assumes "dec_field name dec_int a kvs = Some x" "int64_range a"
  shows "int64_range x"
  by (rule dec_field_keeps [where P = int64_range, OF assms]) (use dec_int_range in fastforce)

lemma dec_slice_field:
  assumes "dec_field name (dec_slice f zero) a kvs = Some x" "list_all P (elems a)" "json_wf (JObj kvs)"
    and "\<And>w x. json_wf w \<Longrightarrow> f w zero = Some x \<Longrightarrow> P x"
  shows "list_all P (elems x)"
  by (rule dec_field_keeps [where P = "\<lambda>b. list_all P (elems b)", OF assms(1,2)])
    (use assms(3,4) dec_slice_wf [where f = f and zero = zero and P = P] in fastforce)

lemma int64_zero: "int64_range 0"
  by (simp add: int64_range_def)

lemma dec_link_wire:
  assumes "dec_link v zero_link = Some l" "json_wf v"
  shows "wire_link l"
proof (cases v)
  case (JObj kvs)
  then show ?thesis
    using assms dec_string_field [of _ "[]" kvs] dec_int_field [of _ 0 kvs] int64_zero
    by (auto simp: zero_link_def wire_link_def split: option.splits)
qed (use assms in \<open>auto simp: zero_link_def wire_link_def int64_zero\<close>)

lemma dec_base_range:
  assumes "dec_field name (dec_ptr dec_int 0) None kvs = Some x"
  shows "case x of None \<Rightarrow> True | Some b \<Rightarrow> int64_range b"
  by (rule dec_field_keeps [where P = "case_option True int64_range", OF assms])
    (auto simp: dec_ptr_def int64_zero dest!: dec_int_range split: if_splits option.splits)

lemma dec_doc_save_wire:
  assumes "dec_doc_save v zero_save = Some d" "json_wf v"
  shows "wire_save d"
proof (cases v)
  case (JObj kvs)
  note str = dec_string_field [OF _ valid_utf8_Nil assms(2) [unfolded JObj]]
  have triggers: "list_all valid_utf8 (elems xs)" if "dec_field n (dec_slice dec_string []) None kvs = Some xs" for n xs
    by (rule dec_slice_field [OF that _ assms(2) [unfolded JObj]]) (auto dest: dec_string_wf)
  have links: "list_all wire_link (elems xs)" if "dec_field n (dec_slice dec_link zero_link) None kvs = Some xs" for n xs
    by (rule dec_slice_field [OF that _ assms(2) [unfolded JObj]]) (auto dest: dec_link_wire)
  show ?thesis
    using assms(1) JObj
    by (auto simp: zero_save_def wire_save_def split: option.splits dest: str triggers links dec_base_range)
qed (use assms in \<open>auto simp: zero_save_def wire_save_def\<close>)

end
