(* ===== verification/StoreOps.thy ===== *)
theory StoreOps
  imports ReleaseConflicts Hosts Handlers JsonWf
begin

text \<open>
  The contract between the store's methods and the handlers that call them: run on an idle
  session, a method ends on an idle session, and what it did to the committed database lies in
  a relation that a caller can compose.  Two relations are used: nothing changed (a read), and
  the invariant and the history are kept (any operation).
\<close>

section \<open>Errors that a caller can see\<close>

text \<open>No error of the store is a call that never returns.\<close>

lemma wrapped_alive [simp]:
  "err_invalid m \<noteq> Deadlock" "err_conflict m \<noteq> Deadlock" "claim_exists k \<noteq> Deadlock" "no_token h \<noteq> Deadlock"
  "empty_release \<noteq> Deadlock"
  by (simp_all add: err_invalid_def err_conflict_def claim_exists_def no_token_def empty_release_def)

lemmas alive_wrapped [simp] = wrapped_alive [symmetric]

lemma branch_alive:
  "a \<noteq> Some z \<Longrightarrow> b \<noteq> Inl z \<Longrightarrow> (case a of None \<Rightarrow> b | Some x \<Rightarrow> Inl x) \<noteq> Inl z"
  "(P \<Longrightarrow> c \<noteq> y) \<Longrightarrow> (\<not> P \<Longrightarrow> d \<noteq> y) \<Longrightarrow> (if P then c else d) \<noteq> y"
  by (auto split: option.split)

lemma checks_alive [simp]:
  "validateIdent field h \<noteq> Some Deadlock" "validateDocSave d \<noteq> Some Deadlock" "save_checks c f d \<noteq> Some Deadlock"
  "save_guard db c f d \<noteq> Some Deadlock" "resolve_guard db i n sv \<noteq> Some Deadlock"
  "flag_checks c f oc off detail \<noteq> Inl Deadlock" "conflict_of_row x \<noteq> Inl Deadlock"
proof -
  show v: "validateIdent field h \<noteq> Some Deadlock" for field h by (auto dest: validateIdent_invalid)
  show d: "validateDocSave d \<noteq> Some Deadlock" for d by (auto dest: validateDocSave_invalid)
  show "save_checks c f d \<noteq> Some Deadlock" by (auto dest: save_checks_invalid)
  show g: "save_guard db c f d \<noteq> Some Deadlock" for c f d by (auto dest: save_guard_conflict(3))
  show "resolve_guard db i n sv \<noteq> Some Deadlock"
    using d g by (auto simp: resolve_guard_def split: option.splits)
  show "flag_checks c f oc off detail \<noteq> Inl Deadlock"
    unfolding flag_checks_def Let_def by (intro branch_alive v) auto
  show "conflict_of_row x \<noteq> Inl Deadlock" by (auto simp: conflict_of_row_def split: option.splits)
qed

lemma candidate_error_alive [simp]: "candidate_error db \<noteq> Some Deadlock"
  by (auto simp: candidate_error_def split: option.splits if_splits dest!: first_error_Some)
    (blast dest: kernel_lint_form doc_lint_form)+

lemma save_effect_alive [simp]: "\<not> save_effect c f d a (Inl Deadlock) b"
  by (auto elim: save_effect.cases)

section \<open>Contracts on the committed database\<close>

text \<open>From an idle session in the invariant \<open>I\<close>, the action ends idle and in the invariant, and the
  database after it is related by \<open>R\<close> to the one before.\<close>

definition settled :: "(db \<Rightarrow> bool) \<Rightarrow> (db \<Rightarrow> db \<Rightarrow> bool) \<Rightarrow> db \<Rightarrow> db sess \<Rightarrow> bool" where
  "settled I R d s \<longleftrightarrow> \<not> busy s \<and> I (committed s) \<and> R d (committed s)"

definition moves :: "(db \<Rightarrow> bool) \<Rightarrow> (db \<Rightarrow> db \<Rightarrow> bool) \<Rightarrow> env \<Rightarrow> 'a store \<Rightarrow> bool" where
  "moves I R e m \<longleftrightarrow> (\<forall>s. \<not> busy s \<longrightarrow> I (committed s) \<longrightarrow>
     wp m (\<lambda>x s'. x \<noteq> Deadlock \<and> settled I R (committed s) s') (\<lambda>_. settled I R (committed s)) e s)"

text \<open>A handler also ends with a response, one in \<open>Q\<close>.\<close>

definition answers ::
  "(db \<Rightarrow> bool) \<Rightarrow> (db \<Rightarrow> db \<Rightarrow> bool) \<Rightarrow> (hres \<Rightarrow> bool) \<Rightarrow> env \<Rightarrow> hres store \<Rightarrow> bool" where
  "answers I R Q e m \<longleftrightarrow> (\<forall>s. \<not> busy s \<longrightarrow> I (committed s) \<longrightarrow>
     wp m (\<lambda>_ _. False) (\<lambda>res s'. Q res \<and> settled I R (committed s) s') e s)"

lemma movesI:
  "(\<And>s. \<not> busy s \<Longrightarrow> I (committed s) \<Longrightarrow>
      wp m (\<lambda>x s'. x \<noteq> Deadlock \<and> settled I R (committed s) s') (\<lambda>_. settled I R (committed s)) e s) \<Longrightarrow> moves I R e m"
  by (simp add: moves_def)

lemma answersD:
  assumes "answers I R Q e m" "\<not> busy s" "I (committed s)"
  obtains res s' where "m e s = (Inr res, s')" "Q res" "settled I R (committed s) s'"
  using assms unfolding answers_def by (auto elim!: wp_elim)

locale database_contract =
  fixes I :: "db \<Rightarrow> bool" and R :: "db \<Rightarrow> db \<Rightarrow> bool"
  assumes refl: "R a a" and trans: "R a b \<Longrightarrow> R b c \<Longrightarrow> R a c"
begin

lemma settled_refl: "\<not> busy s \<Longrightarrow> I (committed s) \<Longrightarrow> settled I R (committed s) s"
  by (simp add: settled_def refl)

lemma moves_ret: "moves I R e (ret x)"
  by (rule movesI) (simp add: wp_ret settled_refl)

lemma moves_fail: "x \<noteq> Deadlock \<Longrightarrow> moves I R e (fail x)"
  by (rule movesI) (simp add: wp_fail settled_refl)

lemma moves_lift: "r \<noteq> Inl Deadlock \<Longrightarrow> moves I R e (lift_result r)"
  by (rule movesI) (auto intro!: wp_lift_result simp: settled_refl)

lemma moves_get_time: "moves I R e get_time"
  by (rule movesI) (auto intro!: wp_get_time simp: settled_def refl)

text \<open>What follows a call runs from where the call ended.\<close>

lemma settled_wp:
  assumes "settled I R d s'" and m: "\<not> busy s' \<Longrightarrow> I (committed s') \<Longrightarrow>
    wp m (\<lambda>x s''. E x \<and> settled I R (committed s') s'') (\<lambda>a s''. Q a \<and> settled I R (committed s') s'') e s'"
  shows "wp m (\<lambda>x s''. E x \<and> settled I R d s'') (\<lambda>a s''. Q a \<and> settled I R d s'') e s'"
proof (rule wp_conseq)
  show "wp m (\<lambda>x s''. E x \<and> settled I R (committed s') s'') (\<lambda>a s''. Q a \<and> settled I R (committed s') s'') e s'"
    using m assms(1) by (simp add: settled_def)
qed (use assms(1) in \<open>auto simp: settled_def intro: trans\<close>)

lemma moves_tryT:
  assumes "moves I R e m" "\<And>r. r \<noteq> Inl Deadlock \<Longrightarrow> moves I R e (k r)"
  shows "moves I R e (tryT m k)"
proof (rule movesI)
  fix s :: "db sess" assume s: "\<not> busy s" "I (committed s)"
  have next_step: "wp (k r) (\<lambda>x s'. x \<noteq> Deadlock \<and> settled I R (committed s) s') (\<lambda>_. settled I R (committed s)) e s'"
    if "settled I R (committed s) s'" "r \<noteq> Inl Deadlock" for r s'
    using settled_wp [OF that(1), of "k r" "\<lambda>x. x \<noteq> Deadlock" "\<lambda>_. True" e] assms(2) [OF that(2)]
    by (simp add: moves_def)
  have "wp m (\<lambda>x s'. x \<noteq> Deadlock \<and> settled I R (committed s) s') (\<lambda>_. settled I R (committed s)) e s"
    using assms(1) s by (simp add: moves_def)
  then show "wp (tryT m k) (\<lambda>x s'. x \<noteq> Deadlock \<and> settled I R (committed s) s') (\<lambda>_. settled I R (committed s)) e s"
    by (intro wp_tryT) (rule wp_conseq, assumption, auto intro: next_step)
qed

lemma moves_bindT:
  assumes "moves I R e m" "\<And>x. moves I R e (k x)"
  shows "moves I R e (bindT m k)"
proof -
  have "bindT m k = tryT m (\<lambda>r. case r of Inl x \<Rightarrow> fail x | Inr x \<Rightarrow> k x)"
    by (auto simp: bindT_def tryT_def fail_def fun_eq_iff split: prod.split sum.split)
  then show ?thesis using assms by (auto intro!: moves_tryT moves_fail split: sum.split)
qed

lemma moves_if: "(b \<Longrightarrow> moves I R e m) \<Longrightarrow> (\<not> b \<Longrightarrow> moves I R e n) \<Longrightarrow> moves I R e (if b then m else n)"
  by simp

lemma moves_option:
  "(x = None \<Longrightarrow> moves I R e m) \<Longrightarrow> (\<And>a. x = Some a \<Longrightarrow> moves I R e (f a)) \<Longrightarrow> moves I R e (case x of None \<Rightarrow> m | Some a \<Rightarrow> f a)"
  by (cases x) auto

text \<open>Any sequence of such calls.\<close>

lemma moves_for_each: "(\<And>x. x \<in> set xs \<Longrightarrow> moves I R e (f x)) \<Longrightarrow> moves I R e (for_each f xs)"
  by (induction xs) (auto intro: moves_ret moves_bindT)

text \<open>Handlers.\<close>

lemma answers_ret: "Q x \<Longrightarrow> answers I R Q e (ret x)"
  by (simp add: answers_def wp_ret settled_refl)

lemma answers_tryT:
  assumes "moves I R e m" "\<And>r. r \<noteq> Inl Deadlock \<Longrightarrow> answers I R Q e (k r)"
  shows "answers I R Q e (tryT m k)"
  unfolding answers_def
proof (intro allI impI)
  fix s :: "db sess" assume s: "\<not> busy s" "I (committed s)"
  have next_step: "wp (k r) (\<lambda>_ _. False) (\<lambda>res s'. Q res \<and> settled I R (committed s) s') e s'"
    if "settled I R (committed s) s'" "r \<noteq> Inl Deadlock" for r s'
    using settled_wp [OF that(1), of "k r" "\<lambda>_. False" Q e] assms(2) [OF that(2)]
    by (simp add: answers_def)
  have "wp m (\<lambda>x s'. x \<noteq> Deadlock \<and> settled I R (committed s) s') (\<lambda>_. settled I R (committed s)) e s"
    using assms(1) s by (simp add: moves_def)
  then show "wp (tryT m k) (\<lambda>_ _. False) (\<lambda>res s'. Q res \<and> settled I R (committed s) s') e s"
    by (intro wp_tryT) (rule wp_conseq, assumption, auto intro: next_step)
qed

lemma answers_or_err:
  assumes "moves I R e m" "\<And>err. err \<noteq> Deadlock \<Longrightarrow> Q (writeErr hs err)" "\<And>x. answers I R Q e (k x)"
  shows "answers I R Q e (or_err hs m k)"
  unfolding or_err_def by (rule answers_tryT) (use assms in \<open>auto split: sum.split intro: answers_ret\<close>)

lemma answers_checked:
  assumes "r \<noteq> Inl Deadlock" "\<And>err. err \<noteq> Deadlock \<Longrightarrow> Q (writeErr hs err)" "\<And>x. r = Inr x \<Longrightarrow> answers I R Q e (k x)"
  shows "answers I R Q e (or_err hs (lift_result r) k)"
proof (cases r)
  case (Inl err)
  have "or_err hs (lift_result r) k = ret (writeErr hs err)"
    by (simp add: or_err_def tryT_def lift_result_def ret_def Inl)
  then show ?thesis using assms(1,2) Inl by (simp add: answers_ret)
next
  case (Inr x)
  have "or_err hs (lift_result r) k = k x" by (simp add: or_err_def tryT_def lift_result_def Inr)
  then show ?thesis using assms(3) Inr by simp
qed

end

text \<open>A method of the store, the inputs a caller may give it, and the relation it stays in.\<close>

locale store_method = database_contract I R for I :: "db \<Rightarrow> bool" and R :: "db \<Rightarrow> db \<Rightarrow> bool" +
  fixes op :: "'i \<Rightarrow> 'a store" and admits :: "env \<Rightarrow> 'i \<Rightarrow> bool"
  assumes method_moves: "admits e i \<Longrightarrow> moves I R e (op i)"
begin

lemma handled:
  "admits e i \<Longrightarrow> (\<And>err. err \<noteq> Deadlock \<Longrightarrow> Q (writeErr hs err)) \<Longrightarrow> (\<And>x. answers I R Q e (k x))
     \<Longrightarrow> answers I R Q e (or_err hs (op i) k)"
  by (rule answers_or_err) (auto intro: method_moves)

lemma repeated: "(\<And>i. i \<in> set is \<Longrightarrow> admits e i) \<Longrightarrow> moves I R e (for_each (\<lambda>i. bindT (op i) (\<lambda>_. ret ())) is)"
  by (auto intro!: moves_for_each moves_bindT moves_ret method_moves)

end

section \<open>Reads\<close>

definition unchanged :: "db \<Rightarrow> db \<Rightarrow> bool" where
  "unchanged a b \<longleftrightarrow> b = a"

interpretation rd: database_contract "\<lambda>_. True" unchanged
  by unfold_locales (auto simp: unchanged_def)

lemma moves_db_query: "moves (\<lambda>_. True) unchanged e (db_query q)"
  by (rule movesI) (auto intro!: wp_db_query simp: settled_def unchanged_def)

lemmas read_rules = moves_db_query rd.moves_fail rd.moves_ret rd.moves_lift rd.moves_option rd.moves_if rd.moves_bindT

lemma reads_Documents:
  "moves (\<lambda>_. True) unchanged e ListDocs" "moves (\<lambda>_. True) unchanged e (DocHistory c f)" "moves (\<lambda>_. True) unchanged e (GetDoc c f n)"
  unfolding ListDocs_def DocHistory_def GetDoc_def by (auto intro!: read_rules dest!: validateIdent_invalid)

lemma reads_Conflicts: "moves (\<lambda>_. True) unchanged e (ListConflicts st)" "moves (\<lambda>_. True) unchanged e (GetConflict i)"
  unfolding ListConflicts_def GetConflict_def by (auto intro!: read_rules)

lemma reads_manifest: "moves (\<lambda>_. True) unchanged e (read_manifest sel)"
  unfolding read_manifest_def by (auto intro!: read_rules)

lemma reads_Hosts: "moves (\<lambda>_. True) unchanged e ListHosts" "moves (\<lambda>_. True) unchanged e (ResyncPending h)" "moves (\<lambda>_. True) unchanged e (HostForToken t)"
  unfolding ListHosts_def ResyncPending_def HostForToken_def by (intro read_rules)+

lemma reads_Preview: "moves (\<lambda>_. True) unchanged e PreviewRelease"
  by (rule movesI) (auto intro: wp_conseq [OF wp_PreviewRelease] simp: settled_def unchanged_def)

lemma reads_Release: "moves (\<lambda>_. True) unchanged e (Release i)" "moves (\<lambda>_. True) unchanged e CurrentRelease"
  unfolding Release_def CurrentRelease_def by (rule reads_manifest)+

lemma reads_out_write: "moves (\<lambda>_. True) unchanged e out_write"
  by (rule movesI) (auto simp: settled_def unchanged_def out_write_def driver_def wp_def split: option.split)

lemma reads_entries: "moves (\<lambda>_. True) unchanged e (write_entries i ds acc)"
proof (induction ds arbitrary: acc)
  case (Cons d ds)
  then show ?case
    by (auto intro!: rd.moves_tryT rd.moves_bindT moves_db_query reads_out_write rd.moves_ret split: sum.split option.split)
qed (auto intro!: rd.moves_tryT reads_out_write rd.moves_ret split: sum.split)

lemma reads_Archive: "moves (\<lambda>_. True) unchanged e (WriteArchive i)"
  unfolding WriteArchive_def
  by (auto intro!: rd.moves_tryT reads_Release rd.moves_ret reads_entries split: sum.split)

lemmas reads = reads_Documents reads_Conflicts reads_Hosts reads_Preview reads_Release reads_Archive

text \<open>A read satisfies every contract.\<close>

context database_contract begin

lemma reads_move:
  assumes "moves (\<lambda>_. True) unchanged e m"
  shows "moves I R e m"
proof (rule movesI)
  fix s :: "db sess" assume s: "\<not> busy s" "I (committed s)"
  have "wp m (\<lambda>x s'. x \<noteq> Deadlock \<and> settled (\<lambda>_. True) unchanged (committed s) s') (\<lambda>_. settled (\<lambda>_. True) unchanged (committed s)) e s"
    using assms s by (simp add: moves_def)
  then show "wp m (\<lambda>x s'. x \<noteq> Deadlock \<and> settled I R (committed s) s') (\<lambda>_. settled I R (committed s)) e s"
    by (rule wp_conseq) (use s in \<open>auto simp: settled_def unchanged_def refl\<close>)
qed

end

section \<open>The server's invariant\<close>

definition server_inv :: "db \<Rightarrow> bool" where
  "server_inv db \<longleftrightarrow> store_inv db \<and> hosts_inv db"

lemma server_inv_initial: "server_inv initial_db"
  by (simp add: server_inv_def store_inv_initial hosts_inv_initial)

text \<open>Every method keeps the invariant and loses nothing of the history.\<close>

interpretation pr: database_contract server_inv history_kept
  by unfold_locales (auto intro: history_trans)

text \<open>An operation on the documents or the conflicts leaves the other tables alone.\<close>

definition other_tables :: "db \<Rightarrow> db \<Rightarrow> bool" where
  "other_tables a b \<longleftrightarrow> releases b = releases a \<and> release_docs b = release_docs a \<and> heartbeats b = heartbeats a
     \<and> resync_requests b = resync_requests a \<and> host_tokens b = host_tokens a"

lemma server_inv_docs:
  assumes "server_inv a" "docs_inv b" "conflicts_inv b" "history_kept a b" "other_tables a b"
  shows "server_inv b"
proof -
  have "releases_inv b"
    using assms releases_inv_kept [of a b] by (auto simp: server_inv_def store_inv_def other_tables_def)
  moreover have "hosts_inv b"
    using assms(1,5) hosts_inv_tables [of b a] by (simp add: server_inv_def other_tables_def)
  ultimately show ?thesis using assms(2,3) by (simp add: server_inv_def store_inv_def)
qed

lemma save_effect_tables: "save_effect c f d a r b \<Longrightarrow> other_tables a b"
  by (erule save_effect.cases) (auto simp: other_tables_def recorded_edit_def dest!: arg_cong [where f = snd])

lemma flagged_tables: "other_tables db (flagged_db main other h tr who at db)"
  by (simp add: other_tables_def flagged_db_def)

lemma resolved_tables: "other_tables db (resolved_db db x save who res t at)"
  by (simp add: other_tables_def resolved_db_def resolve_saved_def split: option.split)

lemma cut_effect_hosts:
  assumes "cut_effect e expected editor a r b" "hosts_inv a"
  shows "hosts_inv b"
  using assms(1)
proof cases
  case (cut m n at)
  then show ?thesis using assms(2) hosts_inv_tables [of "cut_db a (clock_at e n) editor at" a] by simp
next
  case (linted c f v reason at i)
  then have "b = snd (recorded_policy c f v editor reason at a)" by simp
  then show ?thesis using assms(2) hosts_inv_tables [of b a] by (simp add: recorded_policy_def)
qed

lemma settled_step:
  "\<not> busy s' \<Longrightarrow> server_inv a \<Longrightarrow> committed s' = a \<or> server_inv (committed s') \<and> history_kept a (committed s')
     \<Longrightarrow> settled server_inv history_kept a s'"
  by (auto simp: settled_def)

lemma SaveDoc_moves:
  assumes "wire_save d"
  shows "moves server_inv history_kept e (SaveDoc c f d)"
proof (rule movesI)
  fix s :: "db sess" assume s: "\<not> busy s" "server_inv (committed s)"
  note inv = store_invD(1,2) [OF s(2) [unfolded server_inv_def, THEN conjunct1]]
  have step: "server_inv b \<and> history_kept (committed s) b"
    if "save_checks c f d = None" "save_effect c f d (committed s) r b" for r b
    using server_inv_docs [OF s(2)] save_effect_inv [OF that(2) inv] save_effect_tables [OF that(2)] that(1) assms
    by (auto simp: save_checks_None)
  show "wp (SaveDoc c f d) (\<lambda>x s'. x \<noteq> Deadlock \<and> settled server_inv history_kept (committed s) s') (\<lambda>_. settled server_inv history_kept (committed s)) e s"
    by (rule wp_conseq [OF wp_SaveDoc [OF s(1) inv assms]]) (use s step in \<open>auto intro!: settled_step\<close>)
qed

lemma CutRelease_moves:
  assumes "clock_rfc3339 e"
  shows "moves server_inv history_kept e (CutRelease expected editor)"
proof (rule movesI)
  fix s :: "db sess" assume s: "\<not> busy s" "server_inv (committed s)"
  have st: "store_inv (committed s)" using s(2) by (simp add: server_inv_def)
  have "r \<noteq> Inl Deadlock \<and> settled server_inv history_kept (committed s) s'" if run: "CutRelease expected editor e s = (r, s')" for r s'
  proof -
    note k = CutRelease_keeps [OF s(1) st assms run]
    have alive: "r \<noteq> Inl Deadlock"
      using CutRelease_run(2) [OF s(1) st run] by (auto elim: cut_effect_errE)
    have "hosts_inv (committed s')"
      using CutRelease_run(2) [OF s(1) st run] cut_effect_hosts s(2) by (auto simp: server_inv_def)
    then show ?thesis using k alive by (simp add: settled_def server_inv_def)
  qed
  then show "wp (CutRelease expected editor) (\<lambda>x s'. x \<noteq> Deadlock \<and> settled server_inv history_kept (committed s) s') (\<lambda>_. settled server_inv history_kept (committed s)) e s"
    by (intro wpI) auto
qed

lemma FlagClaim_moves: "moves server_inv history_kept e (FlagClaimConflict c f oc off detail who)"
proof (rule movesI)
  fix s :: "db sess" assume s: "\<not> busy s" "server_inv (committed s)"
  note inv = store_invD(1,2) [OF s(2) [unfolded server_inv_def, THEN conjunct1]]
  have step: "server_inv b \<and> history_kept (committed s) b"
    if ck: "flag_checks c f oc off detail = Inr r" and ok: "flagged_ok (committed s) b r who" for r b
  proof -
    obtain main other h tr where r: "r = (main, other, h, tr)" by (cases r)
    obtain at where b: "b = flagged_db main other h tr who at (committed s)"
        and no: "open_conflict_id (committed s) ''claim'' (fst main) (snd main) = None"
      using ok by (auto simp: flagged_ok_def r)
    note f = flagged_db_ok [OF inv(2) ck [unfolded r] no]
    have "docs_inv b" using inv(1) by (simp add: b flagged_db_def)
    then show ?thesis using server_inv_docs [OF s(2)] f(1,2) flagged_tables by (simp add: b)
  qed
  show "wp (FlagClaimConflict c f oc off detail who) (\<lambda>x s'. x \<noteq> Deadlock \<and> settled server_inv history_kept (committed s) s') (\<lambda>_. settled server_inv history_kept (committed s)) e s"
    by (rule wp_conseq [OF wp_FlagClaimConflict [OF s(1) inv(2)]])
      (use s step in \<open>auto intro!: settled_step split: sum.splits\<close>)
qed

lemma ResolveConflict_moves: "moves server_inv history_kept e (ResolveConflict i resolution expected save who)"
proof (rule movesI)
  fix s :: "db sess" assume s: "\<not> busy s" "server_inv (committed s)"
  note inv = store_invD(1,2) [OF s(2) [unfolded server_inv_def, THEN conjunct1]]
  have step: "server_inv b \<and> history_kept (committed s) b"
    if ok: "resolved_ok (committed s) b i (trim_space resolution) expected save who" and ne: "trim_space resolution \<noteq> []" for b
  proof -
    have "other_tables (committed s) b" using ok resolved_tables by (auto simp: resolved_ok_def)
    then show ?thesis using server_inv_docs [OF s(2)] resolved_ok_inv [OF inv ok ne] by simp
  qed
  show "wp (ResolveConflict i resolution expected save who) (\<lambda>x s'. x \<noteq> Deadlock \<and> settled server_inv history_kept (committed s) s') (\<lambda>_. settled server_inv history_kept (committed s)) e s"
    by (rule wp_conseq [OF wp_ResolveConflict [OF s(1) inv]])
      (use s step in \<open>auto intro!: settled_step split: if_splits\<close>)
qed

section \<open>Operations on the hosts\<close>

lemma join_doc_hosts [simp]:
  "join_doc (db\<lparr>heartbeats := h\<rparr>) = join_doc db" "join_doc (db\<lparr>resync_requests := q\<rparr>) = join_doc db"
  "join_doc (db\<lparr>host_tokens := t\<rparr>) = join_doc db"
  by (simp_all add: join_doc_def fun_eq_iff)

lemma store_inv_hosts [simp]:
  "store_inv (db\<lparr>heartbeats := h\<rparr>) = store_inv db" "store_inv (db\<lparr>resync_requests := q\<rparr>) = store_inv db"
  "store_inv (db\<lparr>host_tokens := t\<rparr>) = store_inv db"
  by (simp_all add: store_inv_def releases_inv_def rel_refs_def release_ok_def release_rows_def release_join_def Let_def)

lemma rfc3339_nonempty: "\<not> rfc3339_ok []"
  by (simp add: rfc3339_ok_def accept_def)

lemma clock_rfc3339_reads: "clock_rfc3339 e \<Longrightarrow> clock_reads e"
  unfolding clock_rfc3339_def clock_reads_def by (metis rfc3339_nonempty)

lemma Heartbeat_moves:
  assumes "clock_rfc3339 e"
  shows "moves server_inv history_kept e (Heartbeat host rid ok msg applied)"
proof (rule movesI)
  fix s :: "db sess" assume s: "\<not> busy s" "server_inv (committed s)"
  have inv: "hosts_inv (heartbeat_db (committed s) h clear)"
    if "valid_ident (h_host h)" "h_ok h \<in> {0, 1}" "h_seen h \<noteq> []" for h clear
  proof -
    have "hosts_inv ((committed s)\<lparr>heartbeats := upsert h_host h (heartbeats (committed s))\<rparr>)"
      using hosts_inv_heartbeat [OF _ that] s(2) by (simp add: server_inv_def)
    then show ?thesis
      using hosts_inv_drop(1) [of "(committed s)\<lparr>heartbeats := upsert h_host h (heartbeats (committed s))\<rparr>"]
      by (simp add: heartbeat_db_def Let_def)
  qed
  have step: "server_inv (heartbeat_db (committed s) h clear) \<and> history_kept (committed s) (heartbeat_db (committed s) h clear)"
    if "valid_ident (h_host h)" "h_ok h \<in> {0, 1}" "h_seen h \<noteq> []" for h clear
    using inv [OF that] s(2) by (auto simp: server_inv_def heartbeat_db_def Let_def)
  show "wp (Heartbeat host rid ok msg applied) (\<lambda>x s'. x \<noteq> Deadlock \<and> settled server_inv history_kept (committed s) s') (\<lambda>_. settled server_inv history_kept (committed s)) e s"
    by (rule wp_conseq [OF wp_Heartbeat [OF s(1)]])
      (use s step assms clock_rfc3339_reads in \<open>auto intro!: settled_step simp: clock_reads_def\<close>)
qed

lemma RequestResync_moves:
  assumes "clock_rfc3339 e"
  shows "moves server_inv history_kept e (RequestResync host)"
proof (rule movesI)
  fix s :: "db sess" assume s: "\<not> busy s" "server_inv (committed s)"
  have inv: "hosts_inv ((committed s)\<lparr>resync_requests := upsert q_host r (resync_requests (committed s))\<rparr>)"
    if "valid_ident (q_host r)" "q_requested r \<noteq> []" for r
    using hosts_inv_resync [OF _ that] s(2) by (simp add: server_inv_def)
  show "wp (RequestResync host) (\<lambda>x s'. x \<noteq> Deadlock \<and> settled server_inv history_kept (committed s) s') (\<lambda>_. settled server_inv history_kept (committed s)) e s"
    by (rule wp_conseq [OF wp_RequestResync [OF s(1)]])
      (use s inv clock_rfc3339_reads [OF assms] in \<open>auto intro!: settled_step simp: clock_reads_def server_inv_def\<close>)
qed

lemma digest_length: "length (token_digest token) = 64"
  by (simp add: token_digest_def)

lemma IssueHostToken_moves:
  assumes "clock_rfc3339 e"
  shows "moves server_inv history_kept e (IssueHostToken host)"
proof (rule movesI)
  fix s :: "db sess" assume s: "\<not> busy s" "server_inv (committed s)"
  have inv: "server_inv b \<and> history_kept (committed s) b"
    if "upsert_token t (committed s) = Inr ((), b)" "valid_ident (t_host t)" "length (t_hash t) = 64" "t_created t \<noteq> []" for t b
    using hosts_inv_token [OF _ that(2-4,1)] s(2) by (simp add: server_inv_def)
  show "wp (IssueHostToken host) (\<lambda>x s'. x \<noteq> Deadlock \<and> settled server_inv history_kept (committed s) s') (\<lambda>_. settled server_inv history_kept (committed s)) e s"
    by (rule wp_conseq [OF wp_IssueHostToken [OF s(1)]])
      (use s inv clock_rfc3339_reads [OF assms] digest_length in \<open>auto intro!: settled_step simp: clock_reads_def\<close>)
qed

lemma RevokeHostToken_moves: "moves server_inv history_kept e (RevokeHostToken host)"
proof (rule movesI)
  fix s :: "db sess" assume s: "\<not> busy s" "server_inv (committed s)"
  have inv: "hosts_inv ((committed s)\<lparr>host_tokens := filter P (host_tokens (committed s))\<rparr>)" for P
    using hosts_inv_drop(2) s(2) by (simp add: server_inv_def)
  show "wp (RevokeHostToken host) (\<lambda>x s'. x \<noteq> Deadlock \<and> settled server_inv history_kept (committed s) s') (\<lambda>_. settled server_inv history_kept (committed s)) e s"
    by (rule wp_conseq [OF wp_RevokeHostToken [OF s(1)]])
      (use s inv in \<open>auto intro!: settled_step simp: server_inv_def\<close>)
qed

section \<open>The store provides the contract\<close>

interpretation save: store_method server_inv history_kept "\<lambda>(c, f, d). SaveDoc c f d" "\<lambda>e (c, f, d). wire_save d"
  by unfold_locales (auto intro: SaveDoc_moves)

interpretation cutting: store_method server_inv history_kept "\<lambda>(h, editor). CutRelease h editor" "\<lambda>e i. clock_rfc3339 e"
  by unfold_locales (auto intro: CutRelease_moves)

interpretation flag: store_method server_inv history_kept
    "\<lambda>(c, f, oc, off, detail, who). FlagClaimConflict c f oc off detail who" "\<lambda>e i. True"
  by unfold_locales (auto intro: FlagClaim_moves)

interpretation resolve: store_method server_inv history_kept
    "\<lambda>(i, resolution, n, d, who). ResolveConflict i resolution n d who" "\<lambda>e i. True"
  by unfold_locales (auto intro: ResolveConflict_moves)

interpretation beat: store_method server_inv history_kept
    "\<lambda>(host, rid, ok, msg, applied). Heartbeat host rid ok msg applied" "\<lambda>e i. clock_rfc3339 e"
  by unfold_locales (auto intro: Heartbeat_moves)

interpretation resync: store_method server_inv history_kept RequestResync "\<lambda>e i. clock_rfc3339 e"
  by unfold_locales (auto intro: RequestResync_moves)

interpretation issue: store_method server_inv history_kept IssueHostToken "\<lambda>e i. clock_rfc3339 e"
  by unfold_locales (auto intro: IssueHostToken_moves)

interpretation revoke: store_method server_inv history_kept RevokeHostToken "\<lambda>e i. True"
  by unfold_locales (auto intro: RevokeHostToken_moves)

end
