(* ===== verification/Server.thy ===== *)
theory Server
  imports Handlers
begin

text \<open>
  The server's request multiplexer (\<open>newMux\<close>) with the embedded web UI (\<open>ui.go\<close>): which handler
  a request reaches and behind which access policy.  The contents of the embedded files are a
  parameter.  Requests with range or precondition headers are not represented for the UI files;
  \<open>net/http\<close> drops the body it is given for \<open>HEAD\<close>.
\<close>

section \<open>The embedded UI\<close>

definition uiHardeningHeaders :: "(string \<times> string) list" where
  "uiHardeningHeaders =
     [(''Content-Security-Policy'',
       ''default-src 'none'; script-src 'self'; style-src 'self'; connect-src 'self'; img-src 'self'; ''
       @ ''base-uri 'none'; form-action 'none'; frame-ancestors 'none'' @ [CHR 0x27]),
      (''X-Frame-Options'', ''DENY''),
      (''Cache-Control'', ''no-store''),
      (''X-Content-Type-Options'', ''nosniff'')]"

text \<open>The files of the \<open>go:embed\<close> directive; \<open>assets\<close> gives their contents.\<close>

definition embedded :: "string list" where
  "embedded = [''ui/index.html'', ''ui/app.js'', ''ui/lib.mjs'', ''ui/style.css'']"

definition uiFS :: "(string \<Rightarrow> string) \<Rightarrow> string \<Rightarrow> string option" where
  "uiFS assets name = (if name \<in> set embedded then Some (assets name) else None)"

definition uiAllowList :: "(string \<times> string) list" where
  "uiAllowList =
     [(''app.js'', ''text/javascript; charset=utf-8''),
      (''lib.mjs'', ''text/javascript; charset=utf-8''),
      (''style.css'', ''text/css; charset=utf-8'')]"

text \<open>\<open>http.ServeContent\<close> for a request that asks for all of it, with no modification time.\<close>

definition serve_content :: "(string \<times> string) list \<Rightarrow> string \<Rightarrow> hres" where
  "serve_content hs content =
     \<lparr>rp_code = 200,
      rp_headers = set_header ''Content-Length'' (nat_dec (length content)) (set_header ''Accept-Ranges'' ''bytes'' hs),
      rp_body = Text content\<rparr>"

definition serveUIFile :: "(string \<Rightarrow> string) \<Rightarrow> string \<Rightarrow> string \<Rightarrow> hres" where
  "serveUIFile assets embedName ctype =
     (let hs = set_header ''Content-Type'' ctype (fold (\<lambda>(k, v). set_header k v) uiHardeningHeaders []) in
      case uiFS assets embedName of
        None \<Rightarrow> not_found hs
      | Some content \<Rightarrow> if \<not> has_prefix embedName ''ui/'' then not_found hs else serve_content hs content)"

section \<open>The multiplexer\<close>

datatype target =
    Secured policy handler
  | Asset string string

definition registerUI :: "string list \<Rightarrow> (string \<times> target) list" where
  "registerUI path =
     (case path of
        [seg] \<Rightarrow> if seg = [] then [(''GET'', Asset ''ui/index.html'' ''text/html; charset=utf-8'')] else []
      | [dir, asset] \<Rightarrow>
          if dir = ''ui''
          then map (\<lambda>(name, ctype). (''GET'', Asset (''ui/'' @ name) ctype)) (filter (\<lambda>(name, ctype). name = asset) uiAllowList)
          else []
      | _ \<Rightarrow> [])"

definition routes :: "scanner \<Rightarrow> string list \<Rightarrow> (string \<times> target) list" where
  "routes viable path =
     map (\<lambda>(m, pol, h). (m, Secured pol h)) (api_routes viable path) @ registerUI path"

definition method_not_allowed :: "string list \<Rightarrow> hres" where
  "method_not_allowed pats = plain_error 405 ''Method Not Allowed'' [(''Allow'', allowed_methods pats)]"

text \<open>\<open>ServeMux\<close> picks the pattern of the request's own method, or of \<open>GET\<close> for \<open>HEAD\<close>.\<close>

definition find_route :: "scanner \<Rightarrow> hreq \<Rightarrow> target option" where
  "find_route viable r =
     map_option snd (List.find (\<lambda>rt. method_matches (fst rt) (hr_method r)) (routes viable (hr_path r)))"

definition newMux :: "scanner \<Rightarrow> (string \<Rightarrow> string) \<Rightarrow> auth_state option \<Rightarrow> hreq \<Rightarrow> hres store" where
  "newMux viable assets auth r =
     (case find_route viable r of
        Some (Secured pol h) \<Rightarrow> secure auth (policy_operator pol) h r
      | Some (Asset name ctype) \<Rightarrow> ret (serveUIFile assets name ctype)
      | None \<Rightarrow>
          (case map fst (routes viable (hr_path r)) of
             [] \<Rightarrow> ret (not_found [])
           | pats \<Rightarrow> ret (method_not_allowed pats)))"

end
