(* ===== verification/ServerProps.thy ===== *)
theory ServerProps
  imports StoreOps Server
begin

text \<open>
  The properties of the server as a whole: what every response looks like, what a sequence of
  requests keeps, who reaches which route, and what a host's token can do.
\<close>

section \<open>The form of a response\<close>

definition header_of :: "hres \<Rightarrow> string \<Rightarrow> string option" where
  "header_of res name = map_option snd (List.find (\<lambda>h. fst h = name) (rp_headers res))"

definition error_statuses :: "(string \<times> nat) list" where
  "error_statuses =
     [(''lint'', 409), (''conflict'', 409), (''invalid'', 400), (''not_found'', 404), (''unauthorized'', 401),
      (''forbidden'', 403), (''too_large'', 413), (''incompatible_protocol'', 409), (''internal'', 500)]"

definition json_reply :: "hres \<Rightarrow> json \<Rightarrow> bool" where
  "json_reply res v \<longleftrightarrow> rp_body res = Text (print_json v @ [CHR 0x0A])
     \<and> header_of res ''Content-Type'' = Some ''application/json''
     \<and> header_of res ''Cache-Control'' = Some ''no-store''
     \<and> header_of res ''X-Content-Type-Options'' = Some ''nosniff''"

definition error_reply :: "hres \<Rightarrow> gerror \<Rightarrow> bool" where
  "error_reply res err \<longleftrightarrow> err \<noteq> Deadlock \<and> (fst (err_class err), rp_code res) \<in> set error_statuses
     \<and> json_reply res (JObj
         ((case as_recorded err of None \<Rightarrow> [] | Some i \<Rightarrow> [(''conflict_id'', json_int i)])
          @ [(''detail'', JStr (error_text err)), (''error'', JStr (fst (err_class err)))]))"

definition api_reply :: "hres \<Rightarrow> bool" where
  "api_reply res \<longleftrightarrow>
     rp_code res = 204 \<and> rp_body res = Text []
     \<or> rp_code res = 200 \<and> header_of res ''Content-Type'' = Some ''application/x-tar''
         \<and> (\<exists>out cutoff. rp_body res = Tar out cutoff)
     \<or> rp_code res \<in> {200, 201} \<and> (\<exists>v. json_reply res v)
     \<or> (\<exists>err. error_reply res err)"

lemma find_set_header:
  "List.find (\<lambda>h. fst h = k) (set_header k' v hs) = (if k = k' then Some (k', v) else List.find (\<lambda>h. fst h = k) hs)"
  by (induction hs) (auto simp: set_header_def)

lemma writeJSON_reply: "json_reply (writeJSON hs status v) v" "rp_code (writeJSON hs status v) = status"
  by (simp_all add: json_reply_def writeJSON_def header_of_def find_set_header)

lemma err_class_table: "err_class err \<in> set error_statuses"
  by (simp add: err_class_def error_statuses_def)

lemma writeErr_reply: "err \<noteq> Deadlock \<Longrightarrow> error_reply (writeErr hs err) err"
  using err_class_table [of err] by (simp add: error_reply_def writeErr_def writeJSON_reply envelope_def)

lemma replies:
  "api_reply (writeJSON hs 200 v)" "api_reply (writeJSON hs 201 v)" "api_reply (no_content hs)"
  "err \<noteq> Deadlock \<Longrightarrow> api_reply (writeErr hs err)"
  using writeErr_reply [of err hs] writeJSON_reply(1) [of hs 200 v] writeJSON_reply(1) [of hs 201 v]
  by (auto simp: api_reply_def no_content_def writeJSON_reply(2))

section \<open>The handlers\<close>

lemma decode_next_Value:
  "decode_next viable clipped cs = Value v rest \<Longrightarrow> parse_value max_depth cs = Some (v, rest)"
  by (auto simp: decode_next_def split: option.splits if_splits)

lemma decodeBody_wf:
  assumes "decodeBody viable dec zero body = Inr x"
  obtains v where "json_wf v" "dec v zero = Some x"
proof -
  obtain v rest where v: "decode_next viable (over_cap body) (capped body) = Value v rest" "dec v zero = Some x"
    using assms by (auto simp: decodeBody_def split: decoded.splits option.splits)
  have "json_wf v" using parse_value_wf decode_next_Value [OF v(1)] unfolding capped_def by blast
  with v(2) that show thesis by blast
qed

lemma decode_alive [simp]:
  "decodeBody viable dec zero body \<noteq> Inl Deadlock" "decodeOptionalBody viable dec zero body \<noteq> Inl Deadlock"
  by (auto simp: decodeBody_def decodeOptionalBody_def no_trailing_def too_large_def bad_json_def trailing_data_def
      split: decoded.split option.split)

lemma params_alive [simp]:
  "version_param r \<noteq> Inl Deadlock" "expected_hash b \<noteq> Inl Deadlock" "bound_host p h \<noteq> Inl Deadlock"
  "conflict_id i \<noteq> Inl Deadlock" "attempts_of n \<noteq> Inl Deadlock"
  by (auto simp: version_param_def expected_hash_def bound_host_def conflict_id_def attempts_of_def bad_hash_def other_host_def
      split: option.split)

text \<open>What a handler promises: a well-formed response, the invariant and the history.\<close>

abbreviation good :: "env \<Rightarrow> hres store \<Rightarrow> bool" where
  "good \<equiv> answers server_inv history_kept api_reply"

lemmas read_good = reads [THEN pr.reads_move]

lemma good_docs:
  "good e (saveDoc viable c f p r hs)" "good e (listDocs p r hs)" "good e (getDoc c f p r hs)" "good e (docHistory c f p r hs)"
proof -
  have save: "good e (or_err hs (SaveDoc c f (d\<lparr>s_editor := editor_of r\<rparr>)) (\<lambda>v. ret (writeJSON hs 200 (doc_version_json v))))"
    if "decodeBody viable dec_doc_save zero_save (hr_body r) = Inr d" for d
  proof -
    have "wire_save d" using that by (rule decodeBody_wf) (rule dec_doc_save_wire)
    then have "wire_save (d\<lparr>s_editor := editor_of r\<rparr>)" by (simp add: wire_save_def)
    then show ?thesis
      by (intro save.handled [where i = "(c, f, d\<lparr>s_editor := editor_of r\<rparr>)", unfolded prod.case] pr.answers_ret replies)
  qed
  show "good e (saveDoc viable c f p r hs)"
    unfolding saveDoc_def by (rule pr.answers_checked) (auto intro: replies save)
  show "good e (listDocs p r hs)"
    unfolding listDocs_def by (auto intro!: pr.answers_or_err read_good pr.answers_ret replies)
  show "good e (getDoc c f p r hs)"
    unfolding getDoc_def by (rule pr.answers_checked) (auto intro!: pr.answers_or_err read_good pr.answers_ret replies)
  show "good e (docHistory c f p r hs)"
    unfolding docHistory_def by (auto intro!: pr.answers_or_err read_good pr.answers_ret replies)
qed

lemma good_releases:
  assumes "clock_rfc3339 e"
  shows "good e (cutRelease viable p r hs)" "good e (previewRelease p r hs)" "good e (currentRelease p r hs)"
    "good e (archive i p r hs)"
proof -
  show "good e (cutRelease viable p r hs)"
    unfolding cutRelease_def
    by (intro pr.answers_checked replies cutting.handled [where i = "(h, ed)" for h ed, unfolded prod.case] pr.answers_ret)
      (simp_all add: assms)
  show "good e (previewRelease p r hs)"
    unfolding previewRelease_def by (intro pr.answers_or_err read_good pr.answers_ret replies)
  show "good e (currentRelease p r hs)"
    unfolding currentRelease_def
    by (intro pr.answers_or_err [OF read_good(11)] pr.answers_checked replies)
      (auto intro!: pr.answers_or_err read_good pr.answers_ret replies)
  have tar: "api_reply \<lparr>rp_code = 200, rp_headers = set_header ''Content-Type'' ''application/x-tar'' hs,
      rp_body = (case res of Inl err \<Rightarrow> Tar [] (Some err) | Inr (out, cutoff) \<Rightarrow> Tar out cutoff)\<rparr>" for res
    by (auto simp: api_reply_def header_of_def find_set_header split: sum.split prod.split)
  show "good e (archive i p r hs)"
    unfolding archive_def
    by (auto intro!: pr.answers_or_err pr.answers_tryT read_good pr.answers_ret replies tar split: option.split)
qed

lemma good_hosts:
  assumes "clock_rfc3339 e"
  shows "good e (requestResync h p r hs)" "good e (listHosts p r hs)" "good e (heartbeat viable p r hs)"
    "good e (issueToken h p r hs)" "good e (revokeToken h p r hs)"
proof -
  show "good e (requestResync h p r hs)"
    unfolding requestResync_def by (intro resync.handled pr.answers_ret replies assms)
  show "good e (issueToken h p r hs)"
    unfolding issueToken_def by (intro issue.handled pr.answers_ret replies assms)
  show "good e (revokeToken h p r hs)"
    unfolding revokeToken_def by (intro revoke.handled pr.answers_ret replies TrueI)
  show "good e (heartbeat viable p r hs)"
    unfolding heartbeat_def
    by (intro pr.answers_checked replies beat.handled [where i = "(h, rid, ok, m, a)" for h rid ok m a, unfolded prod.case]
        pr.answers_ret) (simp_all add: assms)
  have latest: "latest_release r \<noteq> Inl Deadlock" if "r \<noteq> Inl Deadlock" for r
    using that by (auto simp: latest_release_def split: sum.splits)
  have timed: "good e (bindT get_time (\<lambda>now. ret (writeJSON hs 200 (v now))))" for v
    unfolding answers_def by (auto intro!: wp_bindT wp_get_time wp_ret replies simp: settled_def)
  show "good e (listHosts p r hs)"
    unfolding listHosts_def
    by (intro pr.answers_or_err read_good pr.answers_tryT pr.answers_checked latest replies timed)
qed

lemma good_conflicts:
  "good e (listConflicts p r hs)" "good e (getConflict i p r hs)" "good e (flagConflict viable p r hs)"
  "good e (resolveConflict viable i p r hs)"
proof -
  show "good e (listConflicts p r hs)"
    unfolding listConflicts_def by (intro pr.answers_or_err read_good pr.answers_ret replies)
  show "good e (getConflict i p r hs)"
    unfolding getConflict_def by (intro pr.answers_checked pr.answers_or_err read_good pr.answers_ret replies params_alive)
  show "good e (flagConflict viable p r hs)"
    unfolding flagConflict_def
    by (intro pr.answers_checked replies decode_alive pr.answers_ret TrueI
        flag.handled [where i = "(c, f, oc, off, d, w)" for c f oc off d w, unfolded prod.case])
  show "good e (resolveConflict viable i p r hs)"
    unfolding resolveConflict_def
    by (intro pr.answers_checked replies decode_alive params_alive pr.answers_ret TrueI
        resolve.handled [where i = "(i, rs, n, d, w)" for i rs n d w, unfolded prod.case])
qed

lemma good_protocol: "(\<And>hs. good e (h p r hs)) \<Longrightarrow> good e (subscriberProtocol h p r hs)"
  by (auto simp: subscriberProtocol_def Let_def intro!: pr.answers_ret replies)

section \<open>Any request\<close>

lemmas good_handlers = good_docs good_releases good_hosts good_conflicts

lemma path_cases:
  obtains "path = []" | a where "path = [a]" | a x where "path = [a, x]" | a x y where "path = [a, x, y]"
    | a x y z where "path = [a, x, y, z]" | a x y z v where "path = [a, x, y, z, v]"
    | a x y z v w t where "path = a # x # y # z # v # w # t"
  by (metis list.exhaust)

lemma route_good:
  assumes clock: "clock_rfc3339 e" and mem: "(m, pol, h) \<in> set (api_routes viable path)"
  shows "good e (h p r hs)"
proof -
  note hs = good_docs good_conflicts good_releases [OF clock] good_hosts [OF clock]
  have sub: "good e (subscriberProtocol currentRelease p r hs)" "good e (subscriberProtocol (heartbeat viable) p r hs)"
    "good e (subscriberProtocol (archive i) p r hs)" for i
    by (intro good_protocol hs)+
  show ?thesis
    by (rule path_cases [of path]; use mem in \<open>simp add: api_routes_def split: if_splits\<close>)
      (auto simp: hs sub)
qed

lemma reads_authenticate: "moves (\<lambda>_. True) unchanged e (authenticate auth r)"
  by (rule movesI, rule wp_conseq [OF wp_authenticate [where N = "\<lambda>_ s'. \<not> busy s' \<and> committed s' = committed s"
        and E = "\<lambda>x s'. x \<noteq> Deadlock \<and> \<not> busy s' \<and> committed s' = committed s" for s]])
    (auto simp: settled_def unchanged_def)

lemma secure_good: "(\<And>p. good e (h p r [])) \<Longrightarrow> good e (secure auth opr h r)"
  unfolding secure_def
  by (rule pr.answers_tryT [OF pr.reads_move [OF reads_authenticate]])
    (auto intro!: pr.answers_ret replies split: sum.split)

lemma find_SomeD: "List.find P xs = Some x \<Longrightarrow> x \<in> set xs \<and> P x"
  by (induction xs) (auto split: if_splits)

lemma ui_targets: "(m, t) \<in> set (registerUI path) \<Longrightarrow> m = ''GET'' \<and> (\<exists>name ctype. t = Asset name ctype)"
  by (rule path_cases [of path]) (auto simp: registerUI_def split: if_splits)

lemma find_route_mem:
  assumes "find_route viable r = Some (Secured pol h)"
  obtains m where "(m, pol, h) \<in> set (api_routes viable (hr_path r))" "method_matches m (hr_method r)"
proof -
  obtain m where m: "(m, Secured pol h) \<in> set (routes viable (hr_path r))" "method_matches m (hr_method r)"
    using assms by (auto simp: find_route_def dest!: find_SomeD)
  then have "(m, pol, h) \<in> set (api_routes viable (hr_path r))"
    using ui_targets by (fastforce simp: routes_def)
  with m(2) that show thesis by blast
qed

text \<open>Any response of the server: of the API, or of the UI and the multiplexer itself.\<close>

definition plain_reply :: "hres \<Rightarrow> bool" where
  "plain_reply res \<longleftrightarrow> rp_code res \<in> {200, 404, 405} \<and> (\<exists>t. rp_body res = Text t)
     \<and> header_of res ''X-Content-Type-Options'' = Some ''nosniff''"

lemma plain_error_reply: "code \<in> {404, 405} \<Longrightarrow> plain_reply (plain_error code text hs)"
  by (auto simp: plain_reply_def plain_error_def header_of_def find_set_header)

lemma serveUIFile_reply: "plain_reply (serveUIFile assets name ctype)"
  by (auto simp: serveUIFile_def Let_def not_found_def plain_error_reply split: option.split)
    (simp add: plain_reply_def serve_content_def header_of_def find_set_header uiHardeningHeaders_def)

definition reply_of :: "scanner \<Rightarrow> hreq \<Rightarrow> hres \<Rightarrow> bool" where
  "reply_of viable r res = (case find_route viable r of Some (Secured pol h) \<Rightarrow> api_reply res | _ \<Rightarrow> plain_reply res)"

lemma newMux_good:
  assumes "clock_rfc3339 e"
  shows "answers server_inv history_kept (reply_of viable r) e (newMux viable assets auth r)"
proof (cases "find_route viable r")
  case None
  then show ?thesis
    by (auto simp: newMux_def not_found_def method_not_allowed_def reply_of_def
        intro!: pr.answers_ret plain_error_reply split: list.split)
next
  case (Some t)
  show ?thesis
  proof (cases t)
    case (Secured pol h)
    then have "good e (newMux viable assets auth r)"
      using Some route_good [OF assms] by (auto simp: newMux_def elim!: find_route_mem intro!: secure_good)
    then show ?thesis using Some Secured by (simp add: answers_def reply_of_def)
  next
    case (Asset name ctype)
    then show ?thesis using Some by (simp add: newMux_def reply_of_def pr.answers_ret serveUIFile_reply)
  qed
qed

text \<open>C16: Every request gets a well-formed response, whatever fails.  From an idle store in the invariant the
  server answers each request and leaves the store idle; no statement waits for the connection its own
  request holds.  The answer of an API route is a JSON document with status 200 or 201, an empty 204, an
  archive, or the error envelope whose \<open>error\<close> code and status belong together, never cached or sniffed;
  any other answer is a plain 200, 404 or 405.\<close>

theorem newMux_responds:
  assumes "\<not> busy s" "server_inv (committed s)" "clock_rfc3339 e"
  shows "\<exists>res s'. newMux viable assets auth r e s = (Inr res, s') \<and> \<not> busy s'
    \<and> (case find_route viable r of Some (Secured pol h) \<Rightarrow> api_reply res | _ \<Rightarrow> plain_reply res)"
  by (rule answersD [OF newMux_good [OF assms(3)] assms(1,2)]) (auto simp: settled_def reply_of_def)

definition sample_request :: "string \<Rightarrow> string list \<Rightarrow> string \<Rightarrow> hreq" where
  "sample_request m path body =
     \<lparr>hr_method = m, hr_path = path, hr_query = [], hr_headers = [], hr_body = body\<rparr>"

theorem newMux_responds_witness:
  "\<exists>res s'. newMux (\<lambda>_. True) (\<lambda>_. []) None (sample_request ''GET'' [''api'', ''releases'', ''current''] [])
       (calm ''2024-01-01T00:00:00Z'' []) (idle initial_db 0) = (Inr res, s')
     \<and> api_reply res \<and> rp_code res = 404"
proof -
  let ?r = "sample_request ''GET'' [''api'', ''releases'', ''current''] []"
  have route: "find_route (\<lambda>_. True) ?r = Some (Secured AnyToken (subscriberProtocol currentRelease))"
    by (simp add: find_route_def routes_def api_routes_def sample_request_def method_matches_def)
  obtain res s' where res: "newMux (\<lambda>_. True) (\<lambda>_. []) None ?r (calm ''2024-01-01T00:00:00Z'' []) (idle initial_db 0) = (Inr res, s')"
      "api_reply res"
    using newMux_responds [of "idle initial_db 0" "calm ''2024-01-01T00:00:00Z'' []" "\<lambda>_. True" "\<lambda>_. []" None ?r]
      server_inv_initial sample_clock by (auto simp: route)
  moreover have "rp_code res = 404"
  proof -
    have "fst (newMux (\<lambda>_. True) (\<lambda>_. []) None ?r (calm ''2024-01-01T00:00:00Z'' []) (idle initial_db 0))
        = Inr (writeErr [(''Agent-Knowledge-Protocol-Version'', ''1'')] (Sentinel ErrNotFound))"
      unfolding newMux_def route option.case target.case
      by (simp add: secure_def authenticate_def tryT_def ret_def subscriberProtocol_def Let_def policy_operator_def
          header_values_def sample_request_def currentRelease_def or_err_def CurrentRelease_def read_manifest_def
          bindT_def db_query_def on_pool_def driver_def calm_def current_release_def initial_db_def fail_def set_header_def)
    then show ?thesis using res(1) by (simp add: writeErr_def writeJSON_def err_class_def)
  qed
  ultimately show ?thesis by blast
qed

section \<open>Any sequence of requests\<close>

text \<open>The server handles requests one after another, each with failures of its own.\<close>

inductive served_from ::
  "scanner \<Rightarrow> (string \<Rightarrow> string) \<Rightarrow> auth_state option \<Rightarrow> db sess \<Rightarrow> db sess \<Rightarrow> bool"
  for viable assets auth s where
  none: "served_from viable assets auth s s"
| request: "served_from viable assets auth s s1 \<Longrightarrow> clock_rfc3339 e \<Longrightarrow> newMux viable assets auth r e s1 = (res, s2)
     \<Longrightarrow> served_from viable assets auth s s2"

inductive_cases served_requestE: "served_from viable assets auth s s'"

text \<open>C15: No sequence of requests breaks the database or rewrites its history.  Whatever the requests are and
  whichever of the database's statements fail, the store stays idle between requests, all its invariants hold
  (documents, conflicts, releases, hosts), and everything recorded stays: document versions keep their content,
  links, releases and their contents stay, and conflict records only move towards resolved.\<close>

theorem served_invariant:
  assumes "served_from viable assets auth s s'" "\<not> busy s" "server_inv (committed s)"
  shows "\<not> busy s' \<and> server_inv (committed s') \<and> history_kept (committed s) (committed s')"
  using assms
proof (induction rule: served_from.induct)
  case (request s1 e r res s2)
  then have s1: "\<not> busy s1" "server_inv (committed s1)" "history_kept (committed s) (committed s1)" by auto
  obtain res' s' where "newMux viable assets auth r e s1 = (Inr res', s')" "settled server_inv history_kept (committed s1) s'"
    by (rule answersD [OF newMux_good [OF request.hyps(2)] s1(1,2)])
  then show ?case using request.hyps(3) s1(3) by (auto simp: settled_def intro: history_trans)
qed simp

theorem served_invariant_witness:
  "\<exists>s'. served_from (\<lambda>_. True) (\<lambda>_. []) None (idle initial_db 0) s'
     \<and> calls s' \<noteq> 0 \<and> server_inv (committed s') \<and> history_kept initial_db (committed s')"
proof -
  let ?r = "sample_request ''POST'' [''api'', ''hosts'', ''web'', ''resync''] []" and ?e = "calm ''2024-01-01T00:00:00Z'' []"
  obtain res s' where run: "newMux (\<lambda>_. True) (\<lambda>_. []) None ?r ?e (idle initial_db 0) = (res, s')" by fastforce
  then have srv: "served_from (\<lambda>_. True) (\<lambda>_. []) None (idle initial_db 0) s'"
    using served_from.request [OF served_from.none sample_clock] by blast
  have "find_route (\<lambda>_. True) ?r = Some (Secured OperatorOnly (requestResync ''web''))"
    by (simp add: find_route_def routes_def api_routes_def sample_request_def method_matches_def)
  then have "calls s' \<noteq> 0"
    using run sample_host
    by (auto simp: newMux_def secure_def authenticate_def tryT_def ret_def policy_operator_def operator_principal_def
        requestResync_def or_err_def RequestResync_def validateIdent_None [THEN iffD2] bindT_def get_time_def
        db_exec_def on_pool_def driver_def calm_def upsert_resync_def tick_def idle_def)
  with srv show ?thesis
    using served_invariant [OF srv] server_inv_initial by auto
qed

section \<open>Access control\<close>

text \<open>A request without the operator's token.\<close>

definition not_operator :: "auth_state \<Rightarrow> hreq \<Rightarrow> bool" where
  "not_operator a r \<longleftrightarrow> bearer_token r = [] \<or> sha256 (bearer_token r) \<noteq> operatorHash a"



text \<open>What a failed check answers.\<close>

definition refused :: "env \<Rightarrow> hres \<Rightarrow> bool" where
  "refused e res \<longleftrightarrow> rp_code res = 401 \<or> rp_code res = 403 \<or> rp_code res = 500 \<and> faulty e"

lemma writeErr_code: "rp_code (writeErr hs err) = snd (err_class err)"
  by (simp add: writeErr_def writeJSON_reply(2))

lemma secure_refuses:
  assumes "\<not> busy s" "not_operator a r"
    and h: "\<And>host s'. \<lbrakk>\<not> opr; token_host (committed s) (bearer_token r) = Some host; \<not> busy s'; committed s' = committed s\<rbrakk>
        \<Longrightarrow> wp (h \<lparr>is_operator = False, p_host = host\<rparr> r []) (\<lambda>_ _. False) N e s'"
    and refuse: "\<And>res s'. \<lbrakk>refused e res; \<not> busy s'; committed s' = committed s\<rbrakk> \<Longrightarrow> N res s'"
  shows "wp (secure (Some a) opr h r) (\<lambda>_ _. False) N e s"
proof -
  have err: "refused e (writeErr [] x)"
    if "faulty e \<and> (\<exists>m. x = Opaque m) \<or> x = Sentinel ErrUnauthorized \<and> P \<or> x = Wrapf ErrForbidden msg" for x P msg
    using that by (auto simp: refused_def writeErr_code err_class_def)
  show ?thesis
    unfolding secure_def
  proof (rule wp_tryT, rule wp_authenticate [OF assms(1)], goal_cases)
    case (1 x s')
    then show ?case using err [of x "\<forall>p. \<not> entitled (Some a) (committed s) r p" "[]"] by (auto intro!: wp_ret refuse)
  next
    case (2 p s')
    then have p: "\<not> is_operator p" "token_host (committed s) (bearer_token r) = Some (p_host p)"
      using assms(2) by (auto simp: entitled_def not_operator_def split: if_splits)
    then obtain host where host: "p = \<lparr>is_operator = False, p_host = host\<rparr>" "token_host (committed s) (bearer_token r) = Some host"
      by (cases p) auto
    show ?case
      using 2 host(2) err [of "Wrapf ErrForbidden ''operator credential required''" False "''operator credential required''"] h [of host s']
      unfolding host(1)
      by (auto intro!: wp_ret wp_if refuse)
  qed
qed




section \<open>What a host's token can change\<close>

text \<open>Only the heartbeat of the host itself and its own pending resync, which it can only take down.\<close>

definition only_host :: "string \<Rightarrow> db \<Rightarrow> db \<Rightarrow> bool" where
  "only_host host a b \<longleftrightarrow>
     b = a\<lparr>heartbeats := heartbeats b, resync_requests := resync_requests b\<rparr>
     \<and> filter (\<lambda>h. h_host h \<noteq> host) (heartbeats b) = filter (\<lambda>h. h_host h \<noteq> host) (heartbeats a)
     \<and> filter (\<lambda>q. q_host q \<noteq> host) (resync_requests b) = filter (\<lambda>q. q_host q \<noteq> host) (resync_requests a)
     \<and> set (resync_requests b) \<subseteq> set (resync_requests a)"

lemma only_host_trans: "only_host host a b \<Longrightarrow> only_host host b c \<Longrightarrow> only_host host a c"
  unfolding only_host_def by (metis (no_types, lifting) db.surjective db.update_convs(6,7) subset_trans)

interpretation own: database_contract "\<lambda>_. True" "only_host host" for host
proof unfold_locales
  show "only_host host a a" for a by (simp add: only_host_def)
  show "only_host host a c" if "only_host host a b" "only_host host b c" for a b c
    using that by (rule only_host_trans)
qed

lemma filter_replace: "key r = k \<Longrightarrow> filter (\<lambda>w. key w \<noteq> k) (map (\<lambda>w. if key w = k then r else w) rs) = filter (\<lambda>w. key w \<noteq> k) rs"
  by (induction rs) auto

lemma filter_upsert: "key r = k \<Longrightarrow> filter (\<lambda>w. key w \<noteq> k) (upsert key r rs) = filter (\<lambda>w. key w \<noteq> k) rs"
  using filter_replace [of key r k rs] by (auto simp: upsert_def)

lemma only_host_heartbeat: "only_host (h_host h) db (heartbeat_db db h clear)"
  by (auto simp: only_host_def heartbeat_db_def Let_def filter_upsert)

interpretation own_beat: store_method "\<lambda>_. True" "only_host host"
    "\<lambda>(rid, ok, msg, applied). Heartbeat host rid ok msg applied" "\<lambda>e i. True" for host
proof (unfold_locales, clarify)
  fix e rid ok msg applied
  show "moves (\<lambda>_. True) (only_host host) e (Heartbeat host rid ok msg applied)"
  proof (rule movesI)
    fix s :: "db sess" assume s: "\<not> busy s"
    show "wp (Heartbeat host rid ok msg applied)
        (\<lambda>x s'. x \<noteq> Deadlock \<and> settled (\<lambda>_. True) (only_host host) (committed s) s')
        (\<lambda>_. settled (\<lambda>_. True) (only_host host) (committed s)) e s"
      using only_host_heartbeat [of "\<lparr>h_host = host, h_release = rid, h_ok = (if ok then 1 else 0), h_error = msg, h_seen = t\<rparr>" for t]
      by (intro wp_conseq [OF wp_Heartbeat [OF s]]) (auto simp: settled_def own.refl)
  qed
qed

text \<open>The handlers of the subscribers, called for a host.\<close>

abbreviation scoped :: "string \<Rightarrow> env \<Rightarrow> hres store \<Rightarrow> bool" where
  "scoped host \<equiv> answers (\<lambda>_. True) (only_host host) (\<lambda>_. True)"

lemma scoped_handlers:
  fixes host :: string
  defines "p \<equiv> \<lparr>is_operator = False, p_host = host\<rparr>"
  shows "scoped host e (subscriberProtocol currentRelease p r hs)" "scoped host e (subscriberProtocol (archive i) p r hs)"
    "scoped host e (subscriberProtocol (heartbeat viable) p r hs)"
proof -
  note rd = reads [THEN own.reads_move]
  have protocol: "scoped host e (subscriberProtocol h p r hs)" if "\<And>hs. scoped host e (h p r hs)" for h
    using that by (auto simp: subscriberProtocol_def Let_def intro!: own.answers_ret)
  have "scoped host e (currentRelease p r hs)" for hs
    unfolding currentRelease_def
    by (intro own.answers_or_err [OF rd(11)] own.answers_checked TrueI)
      (auto intro!: own.answers_or_err rd own.answers_ret)
  then show "scoped host e (subscriberProtocol currentRelease p r hs)" by (rule protocol)
  have "scoped host e (archive i p r hs)" for hs
    unfolding archive_def
    by (auto intro!: own.answers_or_err own.answers_tryT rd own.answers_ret split: option.split)
  then show "scoped host e (subscriberProtocol (archive i) p r hs)" by (rule protocol)
  have bound: "k = host" if "bound_host p h = Inr k" for h k
    using that by (auto simp: bound_host_def p_def split: if_splits)
  have beat: "scoped host e (or_err hs (lift_result (bound_host p h)) (\<lambda>k.
      or_err hs (Heartbeat k rid ok msg a) (\<lambda>_. ret (no_content hs))))" for hs h rid ok msg a
    by (rule own.answers_checked)
      (auto dest!: bound intro!: own_beat.handled [where i = "(rid, ok, msg, a)", unfolded prod.case] own.answers_ret)
  have "scoped host e (heartbeat viable p r hs)" for hs
    unfolding heartbeat_def by (rule own.answers_checked) (auto intro: beat)
  then show "scoped host e (subscriberProtocol (heartbeat viable) p r hs)" by (rule protocol)
qed


lemma any_token_scoped:
  assumes "(m, AnyToken, h) \<in> set (api_routes viable path)"
  shows "scoped host e (h \<lparr>is_operator = False, p_host = host\<rparr> r hs)"
  by (rule path_cases [of path]; use assms in \<open>simp add: api_routes_def split: if_splits\<close>) (auto simp: scoped_handlers)

text \<open>C8: A host's token speaks for its own host only.  Whatever request it is used for, nothing but the
  heartbeat of that host changes in the database, and its pending resync, which the request can only take down:
  the heartbeats and resyncs of every other host, the tokens, documents, releases and conflicts stay as they are.\<close>

theorem host_token_scope:
  assumes "\<not> busy s" "not_operator a r" "token_host (committed s) (bearer_token r) = Some host"
    and "newMux viable assets (Some a) r e s = (Inr res, s')"
  shows "only_host host (committed s) (committed s') \<and> \<not> busy s'"
proof -
  have keep: "only_host host (committed s) (committed s)" by (rule own.refl)
  have "wp (newMux viable assets (Some a) r) (\<lambda>_ _. False) (\<lambda>_ s'. only_host host (committed s) (committed s') \<and> \<not> busy s') e s"
  proof (cases "find_route viable r")
    case None
    then show ?thesis using keep assms(1) by (auto simp: newMux_def intro!: wp_ret split: list.split)
  next
    case (Some t)
    show ?thesis
    proof (cases t)
      case (Asset name ctype)
      then show ?thesis using Some keep assms(1) by (simp add: newMux_def wp_ret)
    next
      case (Secured pol h)
      then obtain m where mem: "(m, pol, h) \<in> set (api_routes viable (hr_path r))"
        using Some find_route_mem by blast
      have call: "wp (h \<lparr>is_operator = False, p_host = k\<rparr> r []) (\<lambda>_ _. False)
          (\<lambda>_ s'. only_host host (committed s) (committed s') \<and> \<not> busy s') e s'"
        if "\<not> policy_operator pol" "token_host (committed s) (bearer_token r) = Some k" "\<not> busy s'" "committed s' = committed s" for k s'
      proof -
        have "pol = AnyToken" using that(1) by (cases pol) (auto simp: policy_operator_def)
        then have "scoped host e (h \<lparr>is_operator = False, p_host = k\<rparr> r [])"
          using any_token_scoped mem that(2) assms(3) by simp
        then show ?thesis using that(3,4) unfolding answers_def settled_def by (auto elim!: wp_conseq)
      qed
      show ?thesis
        unfolding newMux_def Some Secured option.case target.case
        by (rule secure_refuses [OF assms(1,2)]) (use call keep in auto)
    qed
  qed
  then show ?thesis using assms(4) by (simp add: wp_def)
qed

definition token_db :: db where
  "token_db = initial_db\<lparr>host_tokens := [\<lparr>t_host = ''web'', t_hash = token_digest ''secret'', t_created = ''2024-01-01T00:00:00Z''\<rparr>]\<rparr>"

definition token_request :: hreq where
  "token_request = (sample_request ''POST'' [''api'', ''heartbeats''] ''{}'')\<lparr>hr_headers := [(''Authorization'', ''Bearer secret'')]\<rparr>"

lemma token_request_bearer: "bearer_token token_request = ''secret''"
  by (simp add: token_request_def sample_request_def bearer_token_def header_get_def header_values_def cut_prefix_def)

theorem host_token_scope_witness:
  "\<exists>res s'. newMux (\<lambda>_. True) (\<lambda>_. []) (Some \<lparr>operatorHash = []\<rparr>) token_request
       (calm ''2024-01-01T00:00:00Z'' []) (idle token_db 0) = (Inr res, s') \<and> only_host ''web'' token_db (committed s')"
proof -
  let ?a = "\<lparr>operatorHash = []\<rparr>" and ?s = "idle token_db 0" and ?e = "calm ''2024-01-01T00:00:00Z'' []"
  have n: "not_operator ?a token_request"
    using length_sha256 [of "''secret''"] by (auto simp: not_operator_def token_request_bearer simp del: length_sha256)
  have t: "token_host (committed ?s) (bearer_token token_request) = Some ''web''"
    by (simp add: token_host_def token_request_bearer token_db_def initial_db_def first_row_def)
  have inv: "server_inv (committed ?s)"
    using server_inv_initial by (simp add: server_inv_def token_db_def hosts_inv_def sample_host digest_length)
  obtain res s' where run: "newMux (\<lambda>_. True) (\<lambda>_. []) (Some ?a) token_request ?e ?s = (Inr res, s')"
    by (rule answersD [OF newMux_good [OF sample_clock], of ?s]) (use inv in auto)
  show ?thesis using host_token_scope [OF _ n t run] run by auto
qed

section \<open>Request bodies\<close>

lemma decode_next_complete:
  "decode_next viable False cs =
     (if skip_ws cs = [] then AtEnd
      else case parse_value max_depth cs of None \<Rightarrow> Malformed | Some (v, rest) \<Rightarrow> Value v rest)"
  by (auto simp: decode_next_def split: option.split)

lemma parse_value_ws: "skip_ws cs = [] \<Longrightarrow> parse_value d cs = None"
  by (cases d) simp_all

lemma no_trailing_None: "no_trailing viable clipped rest = None \<longleftrightarrow> skip_ws rest = [] \<and> \<not> clipped"
  by (auto simp: no_trailing_def decode_next_def split: option.split decoded.splits)

text \<open>C38: A body is read only whole.  \<open>decodeBody\<close> accepts a body exactly when it has at most \<open>maxBodyBytes\<close>
  bytes and is one JSON value with nothing but white space around it, and then decodes that value; every other body
  is an error, 413 only for a body over the limit and 400 otherwise.\<close>

theorem decodeBody_whole:
  "(decodeBody viable dec zero body = Inr x \<longleftrightarrow>
      length body \<le> 1048576 \<and> (\<exists>v. parse_json body = Some v \<and> dec v zero = Some x))
   \<and> (\<forall>err. decodeBody viable dec zero body = Inl err \<longrightarrow>
        snd (err_class err) = 413 \<and> 1048576 < length body \<or> snd (err_class err) = 400)"
proof (intro conjI allI impI)
  show "decodeBody viable dec zero body = Inr x \<longleftrightarrow>
      length body \<le> 1048576 \<and> (\<exists>v. parse_json body = Some v \<and> dec v zero = Some x)"
  proof (cases "over_cap body")
    case True
    then show ?thesis
      by (auto simp: decodeBody_def over_cap_def maxBodyBytes_def no_trailing_None split: decoded.splits option.splits)
  next
    case False
    then have c: "capped body = runes body" by (simp add: capped_def over_cap_def)
    show ?thesis
      using False parse_value_ws [of "runes body" max_depth]
      by (auto simp: decodeBody_def c decode_next_complete parse_json_def over_cap_def maxBodyBytes_def
          no_trailing_None split: decoded.splits option.splits if_splits)
        (metis no_trailing_None option.distinct(1))+
  qed
  have cap: "clipped" if "decode_next viable clipped cs = AtCap" for clipped cs
    using that by (auto simp: decode_next_def split: option.splits if_splits)
  show "snd (err_class err) = 413 \<and> 1048576 < length body \<or> snd (err_class err) = 400"
    if "decodeBody viable dec zero body = Inl err" for err
    using that cap
    by (auto simp: decodeBody_def no_trailing_def err_class_def too_large_def bad_json_def trailing_data_def
        over_cap_def maxBodyBytes_def split: decoded.splits option.splits dest!: cap)
qed

theorem decodeBody_whole_witness:
  "decodeBody (\<lambda>_. True) dec_cut None ''{}'' = Inr None"
proof -
  have "parse_json ''{}'' = Some (JObj [])" by code_simp
  then show ?thesis
    using decodeBody_whole [of "\<lambda>_. True" dec_cut None "''{}''" None] by (simp add: dec_cut_def)
qed

end
