(* ===== verification/AuthProps.thy ===== *)
theory AuthProps
  imports Auth Marker Extract
begin

text \<open>
  The operator credential: a generated token is what the server then accepts, and nothing the
  server does at start-up replaces a credential that is already there.
\<close>

section \<open>The calls\<close>

abbreviation present :: "fs \<Rightarrow> string \<Rightarrow> bool" where
  "present fs p \<equiv> is_dir fs (path_key p) \<or> lookup fs (path_key p) \<noteq> None"

lemma wp_os_create_new:
  assumes "\<And>x w'. becomes w (files w) w' \<Longrightarrow> E x w'"
    and "\<And>w'. present (files w) p \<Longrightarrow> becomes w (files w) w' \<Longrightarrow> N False w'"
    and "\<And>w'. \<not> present (files w) p \<Longrightarrow> becomes w (set_node (path_key p) (File []) (files w)) w' \<Longrightarrow> N True w'"
  shows "wp (os_create_new p) E N e w"
  unfolding os_create_new_def
  by (rule wp_os_step) (use assms in \<open>auto simp: intact_def dest!: at_path_Inr(3) split: option.splits if_splits\<close>)

lemma wp_os_stat:
  assumes "\<And>x w'. becomes w (files w) w' \<Longrightarrow> E x w'" "\<And>w'. becomes w (files w) w' \<Longrightarrow> N () w'"
  shows "wp (os_stat p) E N e w"
  unfolding os_stat_def
  by (rule wp_os_step)
    (use assms in \<open>auto simp: intact_def dest!: at_path_Inr(3) split: option.splits node.splits if_splits\<close>)

text \<open>\<open>still w w'\<close>: no state on the way differs from the first.\<close>

abbreviation still :: "world \<Rightarrow> world \<Rightarrow> bool" where
  "still w \<equiv> runs (\<lambda>fs. fs = files w) w"

lemma still_step: "still w w' \<Longrightarrow> becomes w' (files w') w'' \<Longrightarrow> still w w''"
  by (rule runs_becomes) (auto dest: runs_now)

lemma wp_loadOperatorToken:
  assumes "\<And>x w'. still w w' \<Longrightarrow> E x w'"
    and "\<And>b w'. still w w' \<Longrightarrow> lookup (files w) (path_key p) = Some (File b) \<Longrightarrow> 32 \<le> length (trim_space b)
        \<Longrightarrow> N \<lparr>operatorHash = sha256 (trim_space b)\<rparr> w'"
  shows "wp (loadOperatorToken p) E N e w"
proof -
  have w: "still w w'" if "becomes w (files w) w'" for w'
    by (rule still_step [OF runs_refl that]) simp
  show ?thesis
    unfolding loadOperatorToken_def Let_def
    by (intro wp_bindT wp_os_read_file wp_if wp_fail wp_ret) (auto intro!: assms w)
qed

lemma wp_initOperatorToken:
  assumes E: "\<And>x w'. present (files w) p \<Longrightarrow> still w w' \<Longrightarrow> E x w'" "\<And>x w'. \<not> present (files w) p \<Longrightarrow> E x w'"
    and N: "\<And>bytes w'. \<not> present (files w) p \<Longrightarrow> raw = Inr bytes
        \<Longrightarrow> files w' = set_node (path_key p) (File (hex_encode bytes)) (set_node (path_key p) (File []) (files w)) \<Longrightarrow> N () w'"
  shows "wp (initOperatorToken raw p) E N e w"
proof -
  have w: "still w w'" if "becomes w (files w) w'" for w'
    by (rule still_step [OF runs_refl that]) simp
  have r: "still w w" by (rule runs_refl) simp
  have E': "E x w'" if "still w w'" for x w' using E that by blast
  show ?thesis
  proof (cases raw)
    case (Inl m)
    then show ?thesis by (simp add: initOperatorToken_def wp_fail E' r)
  next
    case (Inr bytes)
    let ?token = "hex_encode bytes"
    have filled: "wp (tryT (os_write p ?token) (\<lambda>u. tryT os_close (\<lambda>_. case u of Inl err \<Rightarrow> fail err | Inr _ \<Rightarrow> ret ()))) E N e w1"
      if new: "\<not> present (files w) p" and w1: "becomes w (set_node (path_key p) (File []) (files w)) w1" for w1
    proof -
      have finish: "N () w3" if "becomes w1 (set_node (path_key p) (File ?token) (files w1)) w2" "becomes w2 (files w2) w3" for w2 w3
        by (rule N [OF new Inr]) (use that w1 in \<open>auto dest!: becomes_files\<close>)
      show ?thesis
        by (intro wp_tryT wp_os_write wp_os_close) (auto intro!: wp_fail wp_ret E(2) [OF new] finish)
    qed
    show ?thesis
      unfolding initOperatorToken_def Inr sum.case Let_def
    proof (rule wp_tryT, rule wp_os_create_new, goal_cases)
      case (1 x w')
      then show ?case using E' [OF w] by (simp add: wp_fail)
    next
      case (2 w')
      then show ?case using E' [OF w] by (simp add: wp_fail)
    next
      case (3 w')
      then show ?case using filled by simp
    qed
  qed
qed

section \<open>The properties\<close>

text \<open>C40: Start-up never replaces a credential.  Loading a token changes nothing on the disk at any moment, and
  asking for a new one where anything exists already is an error that changes nothing either, whatever fails.\<close>

theorem bootstrap_keeps_existing:
  assumes "bootstrapOperatorToken raw path init e w = (r, w')"
    and "\<not> init \<or> is_dir (files w) (path_key path) \<or> lookup (files w) (path_key path) \<noteq> None"
  shows "files w' = files w \<and> set (trail w') \<subseteq> insert (files w) (set (trail w))
    \<and> (init \<and> path \<noteq> [] \<longrightarrow> (\<exists>x. r = Inl x))"
proof -
  have r: "still w w" by (rule runs_refl) simp
  have w: "still w w'" if "becomes w (files w) w'" for w'
    by (rule still_step [OF r that])
  have load: "wp (bindT (loadOperatorToken path) (\<lambda>a. ret (Some a))) (\<lambda>_. still w) (\<lambda>_. still w) e w1" if "still w w1" for w1
  proof -
    have "still w w2" if "still w1 w2" for w2
      using runs_trans [OF \<open>still w w1\<close>] that runs_now [OF \<open>still w w1\<close>] by simp
    then show ?thesis by (intro wp_bindT wp_loadOperatorToken wp_ret)
  qed
  have "wp (bootstrapOperatorToken raw path init) (\<lambda>_. still w) (\<lambda>_ w'. still w w' \<and> (init \<longrightarrow> path = [])) e w"
  proof (cases "init \<and> path \<noteq> []")
    case True
    then show ?thesis
      unfolding bootstrapOperatorToken_def using assms(2)
      by (auto intro!: wp_bindT wp_initOperatorToken)
  next
    case False
    then have "wp (bootstrapOperatorToken raw path init) (\<lambda>_. still w) (\<lambda>_. still w) e w"
      unfolding bootstrapOperatorToken_def
      by (auto intro!: wp_bindT wp_tryT wp_os_stat wp_if wp_fail wp_ret load w r)
    then show ?thesis using False by (auto elim!: wp_conseq)
  qed
  then show ?thesis
    using assms(1) by (auto simp: wp_def runs_def split: sum.splits)
qed

lemma path_key_t: "path_key ''/t'' = [''/'', ''t'']"
  by code_simp

theorem bootstrap_keeps_existing_witness:
  "let w = \<lparr>files = [([''/'', ''t''], File ''kept'')], sent = [], steps = 0, trail = []\<rparr> in
   \<exists>x w'. bootstrapOperatorToken (Inr ''random'') ''/t'' True calm_os w = (Inl x, w') \<and> files w' = files w"
proof -
  let ?w = "\<lparr>files = [([''/'', ''t''], File ''kept'')], sent = [], steps = 0, trail = []\<rparr>"
  obtain r w' where run: "bootstrapOperatorToken (Inr ''random'') ''/t'' True calm_os ?w = (r, w')" by fastforce
  show ?thesis
    using bootstrap_keeps_existing [OF run] run by (auto simp: path_key_t lookup_def Let_def)
qed

lemma hex_encode_Nil: "hex_encode s = [] \<longleftrightarrow> s = []"
  using length_hex_encode [of s] by (metis length_0_conv mult_is_0 zero_neq_numeral)

lemma trim_space_hex: "trim_space (hex_encode bytes) = hex_encode bytes"
proof (cases "bytes = []")
  case False
  then have "hex_encode bytes \<noteq> []" by (simp add: hex_encode_Nil)
  then have "is_word (hex_encode bytes)" unfolding is_word_def list_all_iff using hex_encode_visible by blast
  then show ?thesis by (rule trim_space_word)
qed (simp add: trim_space_def)

lemma authenticate_operator:
  assumes "header_get r ''Authorization'' = ''Bearer '' @ token" "token \<noteq> []"
  shows "authenticate (Some \<lparr>operatorHash = sha256 token\<rparr>) r e s = (Inr operator_principal, s)"
proof -
  have "cut_prefix (header_get r ''Authorization'') ''Bearer '' = (token, True)"
    by (simp add: assms(1) cut_prefix_def)
  then show ?thesis using assms(2) by (simp add: authenticate_def ret_def)
qed

text \<open>C39: A generated credential is the one that works.  When the server generated its token without an error,
  the file holds exactly the hexadecimal text of the random bytes and nothing else on the disk changed; a request
  that presents this text is the operator's; and every later start of the server that succeeds loads the same
  credential.\<close>

theorem bootstrap_token_works:
  assumes "bootstrapOperatorToken (Inr bytes) path True e w = (Inr a, w')" "path \<noteq> []"
  shows "a = Some \<lparr>operatorHash = sha256 (hex_encode bytes)\<rparr>
    \<and> lookup (files w') (path_key path) = Some (File (hex_encode bytes))
    \<and> (\<forall>q. q \<noteq> path_key path \<longrightarrow> lookup (files w') q = lookup (files w) q)
    \<and> (\<forall>r e' s. header_get r ''Authorization'' = ''Bearer '' @ hex_encode bytes \<longrightarrow>
         authenticate a r e' s = (Inr operator_principal, s))
    \<and> (\<forall>raw' e' a' w''. bootstrapOperatorToken raw' path False e' w' = (Inr a', w'') \<longrightarrow> a' = a)"
proof -
  let ?k = "path_key path" and ?token = "hex_encode bytes" and ?a = "Some \<lparr>operatorHash = sha256 (hex_encode bytes)\<rparr>"
  have load: "wp (loadOperatorToken path) (\<lambda>_ _. True) (\<lambda>a w2. Some a = ?a \<and> files w2 = files w1 \<and> bytes \<noteq> []) e1 w1"
    if "lookup (files w1) ?k = Some (File ?token)" for e1 w1
    using that by (intro wp_loadOperatorToken) (auto simp: trim_space_hex dest: runs_now)
  have "wp (bootstrapOperatorToken (Inr bytes) path True) (\<lambda>_ _. True)
      (\<lambda>a w2. a = ?a \<and> files w2 = set_node ?k (File ?token) (set_node ?k (File []) (files w)) \<and> bytes \<noteq> []) e w"
    unfolding bootstrapOperatorToken_def using assms(2)
    by (simp, intro wp_bindT wp_initOperatorToken TrueI) (auto intro!: wp_ret wp_conseq [OF load])
  then have a: "a = ?a" "files w' = set_node ?k (File ?token) (set_node ?k (File []) (files w))" "bytes \<noteq> []"
    using assms(1) by (auto simp: wp_def)
  have "a' = ?a" if "bootstrapOperatorToken raw' path False e' w' = (Inr a', w'')" for raw' e' a' w''
  proof -
    have "wp (bootstrapOperatorToken raw' path False) (\<lambda>_ _. True) (\<lambda>a w2. a = ?a) e' w'"
      unfolding bootstrapOperatorToken_def using assms(2) a(2)
      by (simp, intro wp_bindT wp_tryT wp_os_stat)
        (auto intro!: wp_if wp_fail wp_ret wp_bindT wp_conseq [OF load] dest: becomes_files)
    then show ?thesis using that by (simp add: wp_def)
  qed
  moreover have "hex_encode bytes \<noteq> []" using a(3) by (simp add: hex_encode_Nil)
  ultimately show ?thesis using a authenticate_operator by auto
qed

lemma bootstrap_fresh:
  assumes "length bytes = 16"
  shows "\<exists>a w'. bootstrapOperatorToken (Inr bytes) ''/t'' True calm_os \<lparr>files = [], sent = [], steps = 0, trail = []\<rparr> = (Inr a, w')"
proof -
  define token where "token = hex_encode bytes"
  have t: "length token = 32" "trim_space token = token" unfolding token_def using assms by (simp_all add: trim_space_hex)
  then have "token \<noteq> []" by auto
  with t show ?thesis
    by (simp add: bootstrapOperatorToken_def bindT_def tryT_def initOperatorToken_def Let_def token_def [symmetric]
        os_create_new_def os_write_def os_close_def os_step_def at_path_def walk_error_def path_key_t ancestors_def
        is_dir_def lookup_def set_node_def calm_os_def intact_def ret_def loadOperatorToken_def os_read_file_def)
qed

theorem bootstrap_token_works_witness:
  "\<exists>a w'. bootstrapOperatorToken (Inr ''0123456789abcdef'') ''/t'' True calm_os \<lparr>files = [], sent = [], steps = 0, trail = []\<rparr> = (Inr a, w')
     \<and> lookup (files w') [''/'', ''t''] = Some (File (hex_encode ''0123456789abcdef''))"
proof -
  obtain a w' where run: "bootstrapOperatorToken (Inr ''0123456789abcdef'') ''/t'' True calm_os
      \<lparr>files = [], sent = [], steps = 0, trail = []\<rparr> = (Inr a, w')"
    using bootstrap_fresh [of "''0123456789abcdef''"] by auto
  show ?thesis
    using bootstrap_token_works [OF run, THEN conjunct2, THEN conjunct1] run path_key_t by auto
qed

end
