(* ===== verification/GoNet.thy ===== *)
theory GoNet
  imports Http
begin

text \<open>
  Go's \<open>net\<close> package as far as the server and the subscriber use it on addresses:
  \<open>SplitHostPort\<close>, \<open>ParseIP\<close> (with \<open>netip.ParseAddr\<close> below it) and \<open>IP.IsLoopback\<close>.
  An address is the list of its 16 bytes, an IPv4 address in its IPv4-mapped form.
\<close>

section \<open>IPv4\<close>

definition parse_octet :: "string \<Rightarrow> nat option" where
  "parse_octet s =
     (if s = [] \<or> 1 < length s \<and> hd s = CHR ''0'' then None
      else (case digits_val 0 s of None \<Rightarrow> None | Some n \<Rightarrow> if n \<le> 255 then Some n else None))"

fun all_some :: "'a option list \<Rightarrow> 'a list option" where
  "all_some [] = Some []"
| "all_some (None # xs) = None"
| "all_some (Some x # xs) = map_option (\<lambda>ys. x # ys) (all_some xs)"

definition parse_ipv4 :: "string \<Rightarrow> nat list option" where
  "parse_ipv4 s =
     (let parts = split_on (CHR ''.'') s in
      if length parts \<noteq> 4 then None else all_some (map parse_octet parts))"

lemma all_some_iff: "all_some xs = Some ys \<longleftrightarrow> xs = map Some ys"
  by (induction xs arbitrary: ys rule: all_some.induct) auto

lemma digit_val_Some: "digit_val c = Some d \<longleftrightarrow> d < 10 \<and> c = digit_char d"
  by (auto simp: digit_val_def digit_char_def Let_def split: if_splits)

lemma nat_dec_0: "nat_dec 0 = ''0''"
  by code_simp

text \<open>A decimal text without a leading zero is the one \<open>nat_dec\<close> prints.\<close>

lemma canonical_decimal:
  "digits_val 0 s = Some n \<Longrightarrow> s \<noteq> [] \<Longrightarrow> length s = 1 \<or> hd s \<noteq> CHR ''0'' \<Longrightarrow> s = nat_dec n"
proof (induction s arbitrary: n rule: rev_induct)
  case (snoc c s)
  obtain m d where md: "digits_val 0 s = Some m" "d < 10" "c = digit_char d" "n = 10 * m + d"
    using snoc.prems(1) by (auto simp: digits_val_append digit_val_Some split: option.splits)
  show ?case
  proof (cases "s = []")
    case True
    then show ?thesis using md by (simp add: nat_dec.simps [of d])
  next
    case False
    then have h: "hd s \<noteq> CHR ''0''" using snoc.prems(3) by (cases s) auto
    then have s: "s = nat_dec m" using snoc.IH [OF md(1) False] by simp
    have "m \<noteq> 0"
    proof
      assume "m = 0"
      then have "hd s = CHR ''0''" by (simp add: s nat_dec_0)
      with h show False ..
    qed
    then show ?thesis using md s by (simp add: nat_dec.simps [of "10 * m + d"])
  qed
qed simp

lemma nat_dec_head: "n \<noteq> 0 \<Longrightarrow> hd (nat_dec n) \<noteq> CHR ''0''"
proof (induction n rule: nat_dec.induct)
  case (1 n)
  have d: "digit_char k \<noteq> CHR ''0''" if "0 < k" "k < 10" for k
    using of_char_digit_char [of k] that by (auto dest: arg_cong [where f = "of_char :: char \<Rightarrow> nat"])
  show ?case
  proof (cases "n < 10")
    case True
    then show ?thesis using 1 d [of n] by (simp add: nat_dec.simps [of n])
  next
    case False
    then show ?thesis using 1 by (simp add: nat_dec.simps [of n] hd_append)
  qed
qed

lemma parse_octet_iff: "parse_octet s = Some n \<longleftrightarrow> n \<le> 255 \<and> s = nat_dec n"
proof
  assume "parse_octet s = Some n"
  then show "n \<le> 255 \<and> s = nat_dec n"
    using canonical_decimal [of s n] by (cases s) (auto simp: parse_octet_def split: if_splits option.splits)
next
  assume a: "n \<le> 255 \<and> s = nat_dec n"
  have "length (nat_dec n) = 1" if "hd (nat_dec n) = CHR ''0''"
    using nat_dec_head [of n] that by (cases "n = 0") (auto simp: nat_dec.simps [of 0])
  then show "parse_octet s = Some n" using a by (auto simp: parse_octet_def digits_val_nat_dec)
qed

lemma dot_not_in_dec: "CHR ''.'' \<notin> set (nat_dec n)"
  using nat_dec_digits [of "CHR ''.''" n] by auto

lemma parse_ipv4_iff:
  "parse_ipv4 s = Some bs \<longleftrightarrow> length bs = 4 \<and> (\<forall>b \<in> set bs. b \<le> 255) \<and> s = join ''.'' (map nat_dec bs)"
proof
  assume p: "parse_ipv4 s = Some bs"
  then have l: "length (split_on (CHR ''.'') s) = 4" "map parse_octet (split_on (CHR ''.'') s) = map Some bs"
    by (auto simp: parse_ipv4_def Let_def all_some_iff split: if_splits)
  then have "length bs = 4" by (metis length_map)
  moreover have o: "\<forall>i < length bs. bs ! i \<le> 255 \<and> split_on (CHR ''.'') s ! i = nat_dec (bs ! i)"
    using l by (metis length_map nth_map parse_octet_iff)
  moreover have "split_on (CHR ''.'') s = map nat_dec bs"
    using o l \<open>length bs = 4\<close> by (intro nth_equalityI) auto
  ultimately show "length bs = 4 \<and> (\<forall>b \<in> set bs. b \<le> 255) \<and> s = join ''.'' (map nat_dec bs)"
    using join_split_on [of "CHR ''.''" s] by (auto simp: in_set_conv_nth)
next
  assume a: "length bs = 4 \<and> (\<forall>b \<in> set bs. b \<le> 255) \<and> s = join ''.'' (map nat_dec bs)"
  then have "split_on (CHR ''.'') s = map nat_dec bs"
    using dot_not_in_dec by (auto intro!: split_on_join)
  then show "parse_ipv4 s = Some bs"
    using a by (auto simp: parse_ipv4_def all_some_iff parse_octet_iff)
qed

section \<open>IPv6\<close>

text \<open>The hexadecimal number in front of a text, with what follows it: at most four digits.\<close>

definition hex_group :: "string \<Rightarrow> (nat \<times> string) option" where
  "hex_group s =
     (let ds = takeWhile (\<lambda>c. hex_digit_val c \<noteq> None) s
      in if ds = [] \<or> 4 < length ds then None
         else Some (foldl (\<lambda>acc c. 16 * acc + the (hex_digit_val c)) 0 ds,
                    dropWhile (\<lambda>c. hex_digit_val c \<noteq> None) s))"

text \<open>
  The loop of \<open>netip.parseIPv6\<close>: the bytes read so far and the place of the ellipsis among
  them.  It ends with the text it did not read.
\<close>

function v6_groups :: "nat list \<Rightarrow> nat option \<Rightarrow> string \<Rightarrow> (nat list \<times> nat option \<times> string) option" where
  "v6_groups ip ell s =
     (if 16 \<le> length ip then Some (ip, ell, s)
      else (case hex_group s of
         None \<Rightarrow> None
       | Some (acc, t) \<Rightarrow>
           if has_prefix t ''.''
           then (if ell = None \<and> length ip \<noteq> 12 \<or> 16 < length ip + 4 then None
                 else map_option (\<lambda>bs. (ip @ bs, ell, [])) (parse_ipv4 s))
           else
             (let ip' = ip @ [acc div 256, acc mod 256]
              in if t = [] then Some (ip', ell, [])
                 else if hd t \<noteq> CHR '':'' \<or> length t = 1 then None
                 else if has_prefix (tl t) '':''
                 then (if ell \<noteq> None then None
                       else if tl (tl t) = [] then Some (ip', Some (length ip'), [])
                       else v6_groups ip' (Some (length ip')) (tl (tl t)))
                 else v6_groups ip' ell (tl t))))"
  by pat_completeness auto
termination by (relation "measure (\<lambda>(ip, ell, s). 16 - length ip)") auto

declare v6_groups.simps [simp del]

definition parse_ipv6 :: "string \<Rightarrow> nat list option" where
  "parse_ipv6 s =
     (if s = ''::'' then Some (replicate 16 0)
      else
        (case (if has_prefix s ''::'' then v6_groups [] (Some 0) (drop 2 s) else v6_groups [] None s) of
           None \<Rightarrow> None
         | Some (ip, ell, rest) \<Rightarrow>
             if rest \<noteq> [] then None
             else if length ip < 16
             then (case ell of
                     None \<Rightarrow> None
                   | Some k \<Rightarrow> Some (take k ip @ replicate (16 - length ip) 0 @ drop k ip))
             else if ell \<noteq> None then None
             else Some ip))"

section \<open>Addresses\<close>

text \<open>
  \<open>net.ParseIP\<close>: the first of the three characters decides, and an address with a zone is
  no address.
\<close>

definition parse_ip :: "string \<Rightarrow> nat list option" where
  "parse_ip s =
     (case dropWhile (\<lambda>c. c \<notin> {CHR ''.'', CHR '':'', CHR ''%''}) s of
        [] \<Rightarrow> None
      | c # t \<Rightarrow>
          if c = CHR ''.'' then map_option (\<lambda>bs. replicate 10 0 @ [255, 255] @ bs) (parse_ipv4 s)
          else if c = CHR '':'' \<and> CHR ''%'' \<notin> set s then parse_ipv6 s
          else None)"

text \<open>\<open>IP.IsLoopback\<close>; \<open>To4\<close> reads the IPv4-mapped form.\<close>

definition is_loopback :: "nat list \<Rightarrow> bool" where
  "is_loopback ip =
     (if take 12 ip = replicate 10 0 @ [255, 255] then ip ! 12 = 127
      else ip = replicate 15 0 @ [1])"

section \<open>Hosts and ports\<close>

text \<open>\<open>AddrError.Error\<close>.\<close>

definition addr_error :: "string \<Rightarrow> string \<Rightarrow> string" where
  "addr_error addr why = (if addr = [] then why else ''address '' @ addr @ '': '' @ why)"

text \<open>\<open>net.SplitHostPort\<close>; the port starts after the last colon.\<close>

definition last_colon :: "string \<Rightarrow> nat option" where
  "last_colon s =
     (if CHR '':'' \<in> set s
      then Some (length s - Suc (length (takeWhile (\<lambda>c. c \<noteq> CHR '':'') (rev s))))
      else None)"

definition first_index :: "char \<Rightarrow> string \<Rightarrow> nat" where
  "first_index c s = length (takeWhile (\<lambda>d. d \<noteq> c) s)"

definition SplitHostPort :: "string \<Rightarrow> string + string \<times> string" where
  "SplitHostPort hostport =
     (case last_colon hostport of
        None \<Rightarrow> Inl (addr_error hostport ''missing port in address'')
      | Some i \<Rightarrow>
          let plain = (\<lambda>host j k.
            if CHR ''['' \<in> set (drop j hostport) then Inl (addr_error hostport ''unexpected '[' in address'')
            else if CHR '']'' \<in> set (drop k hostport) then Inl (addr_error hostport ''unexpected ']' in address'')
            else Inr (host, drop (Suc i) hostport))
          in if hd hostport = CHR ''[''
             then
               (let fin = first_index (CHR '']'') hostport
                in if fin = length hostport then Inl (addr_error hostport ''missing ']' in address'')
                   else if Suc fin = length hostport then Inl (addr_error hostport ''missing port in address'')
                   else if Suc fin = i then plain (drop 1 (take fin hostport)) 1 (Suc fin)
                   else if hostport ! Suc fin = CHR '':'' then Inl (addr_error hostport ''too many colons in address'')
                   else Inl (addr_error hostport ''missing port in address''))
             else if CHR '':'' \<in> set (take i hostport)
             then Inl (addr_error hostport ''too many colons in address'')
             else plain (take i hostport) 0 0)"

section \<open>What is accepted\<close>


lemma takeWhile_rev_append: "c \<notin> set p \<Longrightarrow> takeWhile (\<lambda>d. d \<noteq> c) (rev p @ c # q) = rev p"
  by (subst takeWhile_append2) auto

lemma last_colon_Some:
  "last_colon s = Some i \<longleftrightarrow> i < length s \<and> s ! i = CHR '':'' \<and> CHR '':'' \<notin> set (drop (Suc i) s)"
proof
  assume l: "last_colon s = Some i"
  then have "CHR '':'' \<in> set s" by (auto simp: last_colon_def split: if_splits)
  then obtain h p where s: "s = h @ CHR '':'' # p" "CHR '':'' \<notin> set p"
    by (meson split_list_last)
  then have "i = length h" using l by (simp add: last_colon_def takeWhile_rev_append)
  with s show "i < length s \<and> s ! i = CHR '':'' \<and> CHR '':'' \<notin> set (drop (Suc i) s)" by simp
next
  assume a: "i < length s \<and> s ! i = CHR '':'' \<and> CHR '':'' \<notin> set (drop (Suc i) s)"
  then have s: "s = take i s @ CHR '':'' # drop (Suc i) s" by (metis id_take_nth_drop)
  obtain h p where hp: "h = take i s" "p = drop (Suc i) s" by simp
  have "last_colon (h @ CHR '':'' # p) = Some (length h)" using a
    by (simp add: last_colon_def takeWhile_rev_append hp)
  then show "last_colon s = Some i" using a s hp by simp
qed

lemma first_index_first: "c \<notin> set h \<Longrightarrow> first_index c (h @ c # t) = length h"
  by (induction h) (auto simp: first_index_def)

lemma first_index_none: "c \<notin> set s \<Longrightarrow> first_index c s = length s"
  by (induction s) (auto simp: first_index_def)

lemma first_index_split: "first_index c s < length s \<Longrightarrow> \<exists>h t. s = h @ c # t \<and> c \<notin> set h"
proof -
  assume "first_index c s < length s"
  then have "c \<in> set s" using first_index_none [of c s] by force
  then show "\<exists>h t. s = h @ c # t \<and> c \<notin> set h" by (meson split_list_first)
qed

text \<open>Exactly two forms are accepted: a host without colons, and a host in brackets.\<close>

definition no_brackets :: "string \<Rightarrow> bool" where
  "no_brackets s \<longleftrightarrow> CHR ''['' \<notin> set s \<and> CHR '']'' \<notin> set s"

lemma SplitHostPort_Some:
  assumes "SplitHostPort addr = Inr (h, p)"
  shows "(addr = h @ '':'' @ p \<and> CHR '':'' \<notin> set h \<or> addr = ''['' @ h @ '']:'' @ p)
    \<and> no_brackets h \<and> no_brackets p \<and> CHR '':'' \<notin> set p"
proof -
  obtain i where i: "last_colon addr = Some i" using assms by (auto simp: SplitHostPort_def split: option.splits)
  then have "i < length addr" "addr ! i = CHR '':''" by (simp_all add: last_colon_Some)
  then obtain a q where addr: "addr = a @ CHR '':'' # q" and ia: "i = length a" and q: "CHR '':'' \<notin> set q"
    using i id_take_nth_drop [of i addr] by (auto simp: last_colon_Some min_def)
  show ?thesis
  proof (cases "hd addr = CHR ''[''")
    case False
    then have "h = a" "p = q" "CHR '':'' \<notin> set a" "no_brackets (a @ q)"
      using assms unfolding SplitHostPort_def i ia Let_def
      by (simp_all add: addr no_brackets_def split: if_splits)
    then show ?thesis using addr q by (simp add: no_brackets_def)
  next
    case True
    let ?f = "first_index (CHR '']'') addr"
    have f: "Suc ?f = length a" "h = drop 1 (take ?f addr)" "p = q" "CHR ''['' \<notin> set (drop 1 addr)" "CHR '']'' \<notin> set q"
      using assms True unfolding SplitHostPort_def i ia Let_def
      by (auto simp: addr split: if_splits)
    have "?f < length addr" using f(1) by (simp add: addr)
    then obtain x y where xy: "addr = x @ CHR '']'' # y" "CHR '']'' \<notin> set x" using first_index_split by blast
    then have fx: "?f = length x" by (simp add: first_index_first)
    then have "take (length a) addr = x @ [CHR '']'']" by (simp add: xy(1) flip: f(1))
    then have a: "a = x @ [CHR '']'']" by (simp add: addr)
    obtain h' where h': "x = CHR ''['' # h'" using True xy(1) by (cases x) auto
    then have "h' = h" using f(2) xy(1) fx by simp
    then show ?thesis using f q xy(2) by (auto simp: addr a h' no_brackets_def)
  qed
qed

text \<open>The hosts that are loopback addresses.\<close>

lemma parse_ip_loopback:
  assumes "parse_ip h = Some ip" "is_loopback ip"
  shows "(\<exists>a b c. a \<le> 255 \<and> b \<le> 255 \<and> c \<le> 255 \<and> h = ''127.'' @ nat_dec a @ ''.'' @ nat_dec b @ ''.'' @ nat_dec c)
    \<or> parse_ipv6 h = Some ip \<and> CHR '':'' \<in> set h"
proof -
  obtain c t where ct: "dropWhile (\<lambda>c. c \<notin> {CHR ''.'', CHR '':'', CHR ''%''}) h = c # t"
    using assms(1) by (auto simp: parse_ip_def split: list.splits)
  then have c: "c \<in> set h" by (metis list.set_intros(1) set_dropWhileD)
  show ?thesis
  proof (cases "c = CHR ''.''")
    case True
    then obtain bs where bs: "parse_ipv4 h = Some bs" "ip = replicate 10 0 @ [255, 255] @ bs"
      using assms(1) ct by (auto simp: parse_ip_def)
    then obtain x a b d where x: "bs = [x, a, b, d]" "a \<le> 255" "b \<le> 255" "d \<le> 255" "h = join ''.'' (map nat_dec bs)"
      by (auto simp: parse_ipv4_iff length_Suc_conv eval_nat_numeral)
    have "x = 127" using assms(2) bs(2) x(1) by (simp add: is_loopback_def eval_nat_numeral)
    moreover have "nat_dec 127 = ''127''" by code_simp
    ultimately show ?thesis using x by auto
  next
    case False
    then show ?thesis using assms(1) ct c by (auto simp: parse_ip_def split: if_splits)
  qed
qed

text \<open>The texts of the loopback hosts.\<close>

definition loopback_text :: "string \<Rightarrow> bool" where
  "loopback_text h \<longleftrightarrow> h = ''localhost''
     \<or> (\<exists>a b c. a \<le> 255 \<and> b \<le> 255 \<and> c \<le> 255 \<and> h = ''127.'' @ nat_dec a @ ''.'' @ nat_dec b @ ''.'' @ nat_dec c)
     \<or> (\<exists>ip. CHR '':'' \<in> set h \<and> parse_ipv6 h = Some ip \<and> is_loopback ip)"

lemma loopback_textI: "h = ''localhost'' \<or> (\<exists>ip. parse_ip h = Some ip \<and> is_loopback ip) \<Longrightarrow> loopback_text h"
  using parse_ip_loopback [of h] by (auto simp: loopback_text_def)

lemma loopback_text_nonempty: "loopback_text h \<Longrightarrow> h \<noteq> []"
  by (auto simp: loopback_text_def)

end
