(* ===== verification/Startup.thy ===== *)
theory Startup
  imports AuthProps GoNet
begin

text \<open>
  The start of the server: \<open>main\<close> of \<open>knowledge-server/main.go\<close> up to the moment it listens, with
  \<open>checkListenAddr\<close> and \<open>isLoopbackHost\<close>, and \<open>store.Open\<close>.  The flags are given parsed, and
  \<open>log.Fatal\<close> is an error; the loop of \<open>net/http\<close> is not modelled.
\<close>

section \<open>Flags\<close>

record server_flags =
  fl_db :: string
  fl_listen :: string
  fl_operator_token_file :: string
  fl_tls_cert :: string
  fl_tls_key :: string
  fl_insecure_no_auth :: bool
  fl_init_operator_token :: bool

definition default_flags :: server_flags where
  "default_flags =
     \<lparr>fl_db = ''knowledge.db'', fl_listen = ''127.0.0.1:8471'', fl_operator_token_file = [], fl_tls_cert = [],
      fl_tls_key = [], fl_insecure_no_auth = False, fl_init_operator_token = False\<rparr>"

section \<open>Where the server may listen\<close>

definition isLoopbackHost :: "string \<Rightarrow> bool" where
  "isLoopbackHost host =
     (if host = ''localhost'' then True
      else (case parse_ip host of Some ip \<Rightarrow> is_loopback ip | None \<Rightarrow> False))"

definition checkListenAddr :: "string \<Rightarrow> bool \<Rightarrow> bool \<Rightarrow> string + unit" where
  "checkListenAddr addr secured insecureNoAuth =
     (case SplitHostPort addr of
        Inl err \<Rightarrow> Inl (''invalid -listen address '' @ go_quote addr @ '': '' @ err)
      | Inr (host, port) \<Rightarrow>
          if secured \<or> insecureNoAuth then Inr ()
          else if \<not> isLoopbackHost host
          then Inl (''refusing non-loopback bind on '' @ addr @ '' without auth+TLS'')
          else Inr ())"

section \<open>Opening the store\<close>

text \<open>What \<open>database/sql\<close> and the driver answer for a data source: the error of \<open>sql.Open\<close>, and that of
  running the schema.\<close>

record sql_driver =
  sql_open :: "string \<Rightarrow> string option"
  exec_schema :: "string \<Rightarrow> string option"

record store_handle =
  data_source :: string
  max_open_conns :: nat

definition Open :: "sql_driver \<Rightarrow> string \<Rightarrow> string + store_handle" where
  "Open drv path =
     (let dsn = ''file:'' @ path @ ''?_pragma=foreign_keys(1)'' @ ''&_pragma=busy_timeout(5000)''
                @ ''&_pragma=journal_mode(WAL)''
      in case sql_open drv dsn of
           Some err \<Rightarrow> Inl err
         | None \<Rightarrow>
             (case exec_schema drv dsn of
                Some err \<Rightarrow> Inl (''migrate: '' @ err)
              | None \<Rightarrow> Inr \<lparr>data_source = dsn, max_open_conns = 1\<rparr>))"

section \<open>Start-up\<close>

text \<open>The server that listens: its timeouts are in seconds, 0 for none; its handler is \<open>newMux\<close> with
  \<open>sv_auth\<close>.\<close>

record http_server =
  sv_addr :: string
  sv_store :: store_handle
  sv_auth :: "auth_state option"
  sv_read_header_timeout :: nat
  sv_read_timeout :: nat
  sv_write_timeout :: nat
  sv_idle_timeout :: nat
  sv_tls :: "(string \<times> string) option"

datatype outcome = Provisioned | Listening http_server

definition server_main :: "string + string \<Rightarrow> sql_driver \<Rightarrow> server_flags \<Rightarrow> outcome os" where
  "server_main raw drv fl =
     (if (fl_tls_cert fl = []) \<noteq> (fl_tls_key fl = [])
      then fail (OsError ''-tls-cert and -tls-key must be set together'')
      else if fl_init_operator_token fl \<and> fl_operator_token_file fl = []
      then fail (OsError ''-init-operator-token requires -operator-token-file'')
      else
        bindT (bootstrapOperatorToken raw (fl_operator_token_file fl) (fl_init_operator_token fl)) (\<lambda>auth.
        if fl_init_operator_token fl then ret Provisioned
        else
          (let secured = auth \<noteq> None \<and> fl_tls_cert fl \<noteq> []
           in case checkListenAddr (fl_listen fl) secured (fl_insecure_no_auth fl) of
                Inl err \<Rightarrow> fail (OsError (err @
                  '' (enable -operator-token-file and TLS, or pass --insecure-no-auth to override)''))
              | Inr _ \<Rightarrow>
                  (case Open drv (fl_db fl) of
                     Inl err \<Rightarrow> fail (OsError (''open store: '' @ err))
                   | Inr st \<Rightarrow>
                       ret (Listening
                         \<lparr>sv_addr = fl_listen fl, sv_store = st, sv_auth = auth, sv_read_header_timeout = 10,
                          sv_read_timeout = 30, sv_write_timeout = 0, sv_idle_timeout = 120,
                          sv_tls = (if fl_tls_cert fl \<noteq> [] then Some (fl_tls_cert fl, fl_tls_key fl) else None)\<rparr>)))))"

section \<open>What a listening server exposes\<close>

lemma wp_trivial: "wp m (\<lambda>_ _. True) (\<lambda>_ _. True) e w"
  by (auto simp: wp_def split: sum.splits prod.splits)

lemma wp_bootstrap_auth:
  "wp (bootstrapOperatorToken raw path init) (\<lambda>_ _. True) (\<lambda>auth _. auth = None \<longleftrightarrow> path = []) e w"
  unfolding bootstrapOperatorToken_def
  by (auto intro!: wp_ret wp_if wp_bindT wp_conseq [OF wp_trivial])

lemma isLoopbackHost_text: "isLoopbackHost h \<Longrightarrow> loopback_text h"
  by (rule loopback_textI) (auto simp: isLoopbackHost_def split: if_splits option.splits)

text \<open>A listen address with such a host; an empty host is none.\<close>

definition loopback_listen :: "string \<Rightarrow> bool" where
  "loopback_listen addr \<longleftrightarrow>
     (\<exists>h p. (addr = h @ '':'' @ p \<or> addr = ''['' @ h @ '']:'' @ p) \<and> CHR '':'' \<notin> set p \<and> h \<noteq> [] \<and> loopback_text h)"

lemma checkListenAddr_ok:
  "checkListenAddr addr secured insecure = Inr u \<Longrightarrow> secured \<or> insecure \<or> loopback_listen addr"
  using SplitHostPort_Some isLoopbackHost_text
  by (fastforce simp: checkListenAddr_def loopback_listen_def loopback_text_def split: sum.splits if_splits)

text \<open>C11: The server is never exposed by accident.  When start-up reaches the point of listening without
  \<open>-insecure-no-auth\<close>, either it checks credentials and serves TLS with both a certificate and a key, or its
  listen address is \<open>host:port\<close> or \<open>[host]:port\<close> where the host is \<open>localhost\<close>, an IPv4 address of 127.0.0.0/8 or
  a loopback IPv6 address; an empty host is none of them.  A configured token file always means that
  credentials are checked, and a provisioning run never listens.\<close>

theorem startup_exposure:
  assumes "server_main raw drv fl e w = (Inr (Listening sv), w')"
  shows "\<not> fl_init_operator_token fl \<and> sv_addr sv = fl_listen fl
    \<and> (sv_auth sv = None \<longleftrightarrow> fl_operator_token_file fl = [])
    \<and> (\<forall>c k. sv_tls sv = Some (c, k) \<longrightarrow> c \<noteq> [] \<and> k \<noteq> [])
    \<and> (fl_insecure_no_auth fl \<or> sv_auth sv \<noteq> None \<and> sv_tls sv \<noteq> None \<or> loopback_listen (sv_addr sv))"
proof -
  let ?tls = "if fl_tls_cert fl \<noteq> [] then Some (fl_tls_cert fl, fl_tls_key fl) else None"
  have "wp (server_main raw drv fl) (\<lambda>_ _. True)
     (\<lambda>out _. \<forall>sv. out = Listening sv \<longrightarrow> \<not> fl_init_operator_token fl \<and> sv_addr sv = fl_listen fl
        \<and> (sv_auth sv = None \<longleftrightarrow> fl_operator_token_file fl = [])
        \<and> sv_tls sv = ?tls \<and> ((fl_tls_cert fl = []) = (fl_tls_key fl = []))
        \<and> (sv_auth sv \<noteq> None \<and> fl_tls_cert fl \<noteq> [] \<or> fl_insecure_no_auth fl \<or> loopback_listen (fl_listen fl))) e w"
    unfolding server_main_def Let_def
    by (intro wp_if wp_fail wp_bindT wp_conseq [OF wp_bootstrap_auth] wp_case_sum wp_ret)
      (auto dest: checkListenAddr_ok)
  then show ?thesis using assms by (auto simp: wp_def split: if_splits)
qed

theorem startup_exposure_witness:
  "\<exists>sv w'. server_main (Inr []) \<lparr>sql_open = \<lambda>_. None, exec_schema = \<lambda>_. None\<rparr> default_flags calm_os
       \<lparr>files = [], sent = [], steps = 0, trail = []\<rparr> = (Inr (Listening sv), w')
     \<and> sv_auth sv = None \<and> sv_addr sv = ''127.0.0.1:8471''"
proof -
  let ?w = "\<lparr>files = [], sent = [], steps = 0, trail = []\<rparr>"
  have ok: "checkListenAddr ''127.0.0.1:8471'' False False = Inr ()" by code_simp
  obtain sv w' where run: "server_main (Inr []) \<lparr>sql_open = \<lambda>_. None, exec_schema = \<lambda>_. None\<rparr> default_flags calm_os ?w
      = (Inr (Listening sv), w')"
    by (simp add: server_main_def default_flags_def bootstrapOperatorToken_def bindT_def ret_def Let_def ok Open_def)
  show ?thesis using startup_exposure [OF run] run by (auto simp: default_flags_def)
qed

end
