(* ===== verification/Progress.thy ===== *)
theory Progress
  imports ConvergeProps
begin

text \<open>
  A pass completes: when no call fails and the server serves a sound release, every branch of
  \<open>converge\<close> that gives up is out of reach, and the host ends with exactly the release's documents.
  The rules here are the calls of the operating system without failures.
\<close>

section \<open>Calls that do not fail\<close>

definition faultless :: "os_env \<Rightarrow> bool" where
  "faultless e \<longleftrightarrow> (\<forall>n. os_fault e n = None)"

text \<open>The files are \<open>fs\<close> and no request was made.\<close>

definition leads :: "world \<Rightarrow> fs \<Rightarrow> world \<Rightarrow> bool" where
  "leads w fs w' \<longleftrightarrow> files w' = fs \<and> sent w' = sent w"

lemma calm_step:
  assumes "faultless e" "f (files w) = Inr (a, fs)" "\<And>w'. leads w fs w' \<Longrightarrow> N a w'"
  shows "wp (os_step damage f) E N e w"
  using assms by (auto simp: wp_def os_step_def faultless_def leads_def)

lemma calm_miss:
  assumes "faultless e" "f (files w) = Inl x" "\<And>w'. leads w (files w) w' \<Longrightarrow> E x w'"
  shows "wp (os_step damage f) E N e w"
  using assms by (auto simp: wp_def os_step_def faultless_def leads_def)

lemma walk_ok:
  assumes "wf_fs fs" "is_dir fs (butlast (path_key p))"
  shows "walk_error p fs = None"
proof -
  have "is_dir fs q" if "strict_prefix q (path_key p)" for q
  proof (rule is_dir_prefix [OF assms])
    show "prefix q (butlast (path_key p))"
      using that by (cases "path_key p" rule: rev_cases) (auto simp: strict_prefix_def)
  qed
  then show ?thesis by (auto simp: walk_error_def find_None_iff set_ancestors split: option.splits)
qed

text \<open>A name in a directory: the place a call on it works on.\<close>

definition place :: "fs \<Rightarrow> string list \<Rightarrow> bool" where
  "place fs k \<longleftrightarrow> wf_fs fs \<and> k \<noteq> [] \<and> k \<noteq> [''/''] \<and> is_dir fs (butlast k)"

lemma place_set:
  assumes "place fs k" "lookup fs k \<noteq> Some Dir"
  shows "place (set_node k nd fs) k" "lookup (set_node k nd fs) k = Some nd"
proof -
  have k: "wf_fs fs" "k \<noteq> []" "k \<noteq> [''/'']" "is_dir fs (butlast k)" using assms(1) by (simp_all add: place_def)
  then have "\<not> is_dir fs k" using assms(2) by (simp add: is_dir_def)
  then have "wf_fs (set_node k nd fs)" using k by (intro wf_fs_set) auto
  moreover have "butlast k \<noteq> k" using k(2) by (cases k rule: rev_cases) auto
  then have "is_dir (set_node k nd fs) (butlast k)" using k(4) by (simp add: is_dir_def)
  ultimately show "place (set_node k nd fs) k" using k by (simp add: place_def)
qed simp

lemma place_wf: "place fs k \<Longrightarrow> wf_fs fs"
  by (simp add: place_def)

lemma at_place: "place fs (path_key p) \<Longrightarrow> at_path p f fs = f fs (lookup fs (path_key p))"
  by (auto simp: at_path_def place_def walk_ok is_dir_def)

lemma calm_create:
  assumes "faultless e" "place (files w) (path_key p)"
    and "lookup (files w) (path_key p) = None \<or> (\<exists>b. lookup (files w) (path_key p) = Some (File b))"
    and "\<And>w'. leads w (set_node (path_key p) (File []) (files w)) w' \<Longrightarrow> N () w'"
  shows "wp (os_create p) E N e w"
  unfolding os_create_def
  by (rule calm_step [where a = "()" and fs = "set_node (path_key p) (File []) (files w)", OF assms(1)])
     (use assms in \<open>auto simp: at_place\<close>)

lemma calm_write:
  assumes "faultless e" "\<And>w'. leads w (set_node (path_key p) (File bs) (files w)) w' \<Longrightarrow> N () w'"
  shows "wp (os_write p bs) E N e w"
  unfolding os_write_def by (rule calm_step [OF assms(1) refl]) (rule assms(2))

lemma calm_close:
  assumes "faultless e" "\<And>w'. leads w (files w) w' \<Longrightarrow> N () w'"
  shows "wp os_close E N e w"
  unfolding os_close_def by (rule calm_step [OF assms(1) refl]) (rule assms(2))

lemma calm_remove_all:
  assumes "faultless e" "\<And>w'. leads w (drop_tree (path_key p) (files w)) w' \<Longrightarrow> N () w'"
  shows "wp (os_remove_all p) E N e w"
  unfolding os_remove_all_def by (rule calm_step [OF assms(1) refl]) (rule assms(2))

lemma calm_symlink:
  assumes "faultless e" "place (files w) (path_key p)" "lookup (files w) (path_key p) = None"
    and "\<And>w'. leads w (set_node (path_key p) (Link t) (files w)) w' \<Longrightarrow> N () w'"
  shows "wp (os_symlink t p) E N e w"
  unfolding os_symlink_def
  by (rule calm_step [where a = "()" and fs = "set_node (path_key p) (Link t) (files w)", OF assms(1)])
     (use assms in \<open>auto simp: at_place\<close>)

lemma calm_rename:
  assumes "faultless e" "place (files w) (path_key a)" "place (files w) (path_key b)"
    and "lookup (files w) (path_key a) = Some nd" "\<not> prefix (path_key a) (path_key b)"
    and "lookup (files w) (path_key b) = None \<or> nd \<noteq> Dir \<and> lookup (files w) (path_key b) \<noteq> Some Dir"
    and "\<And>w'. leads w (move_tree (path_key a) (path_key b) (files w)) w' \<Longrightarrow> N () w'"
  shows "wp (os_rename a b) E N e w"
  unfolding os_rename_def
  by (rule calm_step [where a = "()" and fs = "move_tree (path_key a) (path_key b) (files w)", OF assms(1)])
     (use assms in \<open>auto simp: place_def walk_ok is_dir_def\<close>)

lemma calm_read_file:
  assumes "faultless e" "place (files w) (path_key p)" "lookup (files w) (path_key p) = Some (File b)"
    and "\<And>w'. leads w (files w) w' \<Longrightarrow> N b w'"
  shows "wp (os_read_file p) E N e w"
  unfolding os_read_file_def
  by (rule calm_step [where a = b and fs = "files w", OF assms(1)]) (use assms in \<open>auto simp: at_place\<close>)

text \<open>A node without children is removed, and an absent one stays absent.\<close>

lemma no_child: "wf_fs fs \<Longrightarrow> place fs k \<Longrightarrow> lookup fs k \<noteq> Some Dir \<Longrightarrow> strict_prefix k q \<Longrightarrow> lookup fs q = None"
  by (rule wf_fs_below) (auto simp: place_def is_dir_def)

lemma calm_unlink:
  assumes "faultless e" "place (files w) (path_key p)" "lookup (files w) (path_key p) \<noteq> Some Dir"
    and "\<And>w'. lookup (files w) (path_key p) = None \<Longrightarrow> leads w (files w) w' \<Longrightarrow> E (NotExist p) w'"
    and "\<And>w'. lookup (files w) (path_key p) \<noteq> None \<Longrightarrow> leads w (drop_tree (path_key p) (files w)) w' \<Longrightarrow> N () w'"
  shows "wp (os_remove p) E N e w"
proof (cases "lookup (files w) (path_key p)")
  case None
  show ?thesis
    unfolding os_remove_def
    by (rule calm_miss [where x = "NotExist p", OF assms(1)]) (use assms(2,4) None in \<open>auto simp: at_place\<close>)
next
  case (Some nd)
  have "\<not> list_ex (\<lambda>kv. strict_prefix (path_key p) (fst kv)) (files w)"
  proof
    assume "list_ex (\<lambda>kv. strict_prefix (path_key p) (fst kv)) (files w)"
    then obtain q x where q: "(q, x) \<in> set (files w)" "strict_prefix (path_key p) q" by (auto simp: list_ex_iff)
    then have "lookup (files w) q \<noteq> None" using weak_map_of_SomeI [of q x] by (auto simp: lookup_def)
    then show False using no_child [OF _ assms(2,3) q(2)] assms(2) by (simp add: place_def)
  qed
  then show ?thesis
    unfolding os_remove_def
    by (intro calm_step [where a = "()" and fs = "drop_tree (path_key p) (files w)", OF assms(1)])
       (use assms(2,5) Some in \<open>auto simp: at_place\<close>)
qed

section \<open>Making directories\<close>

text \<open>\<open>os.MkdirAll\<close> where nothing is in the way: the missing directories of the path appear.\<close>

definition clear_way :: "fs \<Rightarrow> string list \<Rightarrow> bool" where
  "clear_way fs key \<longleftrightarrow> (\<forall>k. prefix k key \<longrightarrow> is_dir fs k \<or> lookup fs k = None)"

definition paved :: "string list \<Rightarrow> fs \<Rightarrow> fs \<Rightarrow> bool" where
  "paved key fs fs' \<longleftrightarrow> wf_fs fs' \<and> (\<forall>k. prefix k key \<longrightarrow> is_dir fs' k)
     \<and> (\<forall>q. lookup fs' q = lookup fs q \<or> prefix q key \<and> lookup fs q = None \<and> lookup fs' q = Some Dir)"

lemma path_prefixes:
  assumes "key \<noteq> []" "ancestors key @ [key] = ys @ k # zs"
  shows "k = take (Suc (length ys)) key" "ys = map (\<lambda>n. take (Suc n) key) [0..<length ys]"
    "length ys < length key" "zs = [] \<Longrightarrow> k = key"
proof -
  have all: "ancestors key @ [key] = map (\<lambda>n. take (Suc n) key) [0..<length key]"
  proof (rule nth_equalityI)
    show "length (ancestors key @ [key]) = length (map (\<lambda>n. take (Suc n) key) [0..<length key])"
      using assms(1) by (simp add: ancestors_def)
    fix i assume "i < length (ancestors key @ [key])"
    then have i: "i < length key" using assms(1) by (simp add: ancestors_def)
    then show "(ancestors key @ [key]) ! i = map (\<lambda>n. take (Suc n) key) [0..<length key] ! i"
    proof (cases "i < length key - 1")
      case False
      then have "i = length key - 1" using i by simp
      then show ?thesis using assms(1) by (simp add: ancestors_def nth_append)
    qed (simp add: ancestors_def nth_append)
  qed
  have "length (ancestors key @ [key]) = length key" by (simp only: all length_map length_upt diff_zero)
  then have l: "length key = length ys + 1 + length zs" unfolding assms(2) by simp
  then show "length ys < length key" by simp
  have "k = (ys @ k # zs) ! length ys" by simp
  also have "\<dots> = take (Suc (length ys)) key"
    using l unfolding assms(2) [symmetric] all by (simp del: take_Suc_conv_app_nth upt_Suc)
  finally show k: "k = take (Suc (length ys)) key" .
  have "ys = take (length ys) (ys @ k # zs)" by simp
  also have "\<dots> = map (\<lambda>n. take (Suc n) key) [0..<length ys]"
    using l unfolding assms(2) [symmetric] all by (simp add: take_map)
  finally show "ys = map (\<lambda>n. take (Suc n) key) [0..<length ys]" .
  show "k = key" if "zs = []" using that k l by simp
qed

text \<open>On the way: the prefixes \<open>ys\<close> of \<open>key\<close> are directories, and nothing else has changed.\<close>

definition laying :: "string list \<Rightarrow> fs \<Rightarrow> string list list \<Rightarrow> fs \<Rightarrow> bool" where
  "laying key fs0 ys fs \<longleftrightarrow> wf_fs fs \<and> (\<forall>k \<in> set ys. is_dir fs k)
     \<and> (\<forall>q. lookup fs q = lookup fs0 q \<or> prefix q key \<and> lookup fs0 q = None \<and> lookup fs q = Some Dir)"

lemma laying_paved: "laying key fs0 ys fs \<Longrightarrow> key \<in> set ys \<Longrightarrow> paved key fs0 fs"
  using is_dir_prefix [of fs key] unfolding paved_def laying_def by blast

lemma laying_parent:
  assumes "key \<noteq> []" "ancestors key @ [key] = ys @ k # zs" "laying key fs0 ys fs"
  shows "is_dir fs (butlast k)"
proof (cases "length ys")
  case 0
  then show ?thesis using path_prefixes(1) [OF assms(1,2)] assms(1) by (cases key) (auto simp: is_dir_def)
next
  case (Suc n)
  have "butlast k = take (length ys) key"
    using path_prefixes(1,3) [OF assms(1,2)] by (simp add: butlast_take)
  then have "butlast k \<in> set ys"
    using path_prefixes(2) [OF assms(1,2)] Suc by (metis image_eqI lessI list.set_map set_upt atLeastLessThan_iff zero_le)
  then show ?thesis using assms(3) by (simp add: laying_def)
qed

lemma laying_next:
  assumes I: "laying key fs0 ys fs" and way: "clear_way fs0 key" and k: "prefix k key" "\<not> is_dir fs k" "is_dir fs (butlast k)"
  shows "lookup fs k = None" "laying key fs0 (ys @ [k]) (set_node k Dir fs)"
proof -
  have "lookup fs k = lookup fs0 k \<or> lookup fs k = Some Dir" using I unfolding laying_def by blast
  then have same: "lookup fs k = lookup fs0 k" using k(2) by (auto simp: is_dir_def)
  then have "\<not> is_dir fs0 k" using k(2) is_dir_cong by blast
  then show none: "lookup fs k = None" using way k(1) same by (auto simp: clear_way_def)
  have "wf_fs (set_node k Dir fs)"
    using I k(2,3) unfolding laying_def by (intro wf_fs_set) (auto simp: is_dir_def)
  moreover have "is_dir (set_node k Dir fs) x" if "x \<in> set (ys @ [k])" for x
    using that I is_dir_set_dir by (auto simp: laying_def is_dir_def [of "set_node k Dir fs" k])
  moreover have "lookup (set_node k Dir fs) q = lookup fs0 q
      \<or> prefix q key \<and> lookup fs0 q = None \<and> lookup (set_node k Dir fs) q = Some Dir" for q
    using I none same k(1) unfolding laying_def by (cases "q = k") simp_all
  ultimately show "laying key fs0 (ys @ [k]) (set_node k Dir fs)" unfolding laying_def by blast
qed

lemma calm_mkdir_all:
  assumes e: "faultless e" and wf: "wf_fs (files w)" and way: "clear_way (files w) (path_key p)" and key: "path_key p \<noteq> []"
    and N: "\<And>w'. leads w (files w') w' \<Longrightarrow> paved (path_key p) (files w) (files w') \<Longrightarrow> N () w'"
  shows "wp (os_mkdir_all p) E N e w"
  unfolding os_mkdir_all_def
proof (rule wp_for_each [where I = "\<lambda>ys w'. sent w' = sent w \<and> laying (path_key p) (files w) ys (files w')"])
  let ?key = "path_key p"
  show "sent w = sent w \<and> laying ?key (files w) [] (files w)" using wf by (simp add: laying_def)
  show "N () w'" if "sent w' = sent w \<and> laying ?key (files w) (ancestors ?key @ [?key]) (files w')" for w'
    using that by (intro N laying_paved) (auto simp: leads_def)
  fix ys k zs and w1 :: world
  assume ks: "ancestors ?key @ [?key] = ys @ k # zs" and I: "sent w1 = sent w \<and> laying ?key (files w) ys (files w1)"
  have k: "prefix k ?key" using path_prefixes(1) [OF key ks] by (simp add: take_is_prefix)
  have up: "is_dir (files w1) (butlast k)" using laying_parent [OF key ks] I by blast
  show "wp (os_mkdir p k) E (\<lambda>_ w'. sent w' = sent w \<and> laying ?key (files w) (ys @ [k]) (files w')) e w1"
  proof (cases "is_dir (files w1) k")
    case True
    then show ?thesis unfolding os_mkdir_def
      by (intro calm_step [where a = "()" and fs = "files w1", OF e]) (use I in \<open>auto simp: leads_def laying_def\<close>)
  next
    case False
    note nxt = laying_next [OF conjunct2 [OF I] way k False up]
    show ?thesis unfolding os_mkdir_def
      by (rule calm_step [where a = "()" and fs = "set_node k Dir (files w1)", OF e])
        (use I nxt False up in \<open>simp_all add: leads_def\<close>)
  qed
qed

lemma paved_dir:
  assumes "paved key fs fs'" "is_dir fs q"
  shows "lookup fs' q = lookup fs q"
proof -
  have "wf_fs fs'" using assms(1) by (simp add: paved_def)
  then show ?thesis using assms unfolding paved_def wf_fs_def is_dir_def by (metis option.distinct(1))
qed

section \<open>Extracting a sound archive\<close>

text \<open>What is below a directory that holds exactly these files.\<close>

definition tree_of :: "(string \<times> string) list \<Rightarrow> string list \<Rightarrow> node option" where
  "tree_of bs q =
     (if q = [] then Some Dir
      else (case List.find (\<lambda>pb. comps (fst pb) = q) bs of
              Some pb \<Rightarrow> Some (File (snd pb))
            | None \<Rightarrow> if list_ex (\<lambda>pb. strict_prefix q (comps (fst pb))) bs then Some Dir else None))"

text \<open>Documents that can be in one directory tree: no file is where another one needs a directory.\<close>

definition sound_docs :: "(string \<times> string) list \<Rightarrow> bool" where
  "sound_docs bs \<longleftrightarrow> (\<forall>pb \<in> set bs. entry_path_ok (fst pb) \<and> comps (fst pb) \<noteq> [])
     \<and> distinct (map (\<lambda>pb. comps (fst pb)) bs)
     \<and> (\<forall>x \<in> set bs. \<forall>y \<in> set bs. \<not> strict_prefix (comps (fst x)) (comps (fst y)))"

lemma sound_docs_append: "sound_docs (xs @ ys) \<Longrightarrow> sound_docs xs"
  by (auto simp: sound_docs_def)

lemma find_path: "distinct (map (\<lambda>pb. comps (fst pb)) bs) \<Longrightarrow> pb \<in> set bs \<Longrightarrow> List.find (\<lambda>x. comps (fst x) = comps (fst pb)) bs = Some pb"
  by (induction bs) auto

lemma find_path_in: "List.find (\<lambda>pb. comps (fst pb) = q) bs = Some x \<Longrightarrow> x \<in> set bs \<and> comps (fst x) = q"
  by (induction bs) (auto split: if_splits)

lemma tree_of_file:
  assumes "sound_docs bs" "(p, b) \<in> set bs"
  shows "tree_of bs (comps p) = Some (File b)"
  using assms find_path [of bs "(p, b)"] by (auto simp: tree_of_def sound_docs_def)

lemma tree_of_snoc:
  assumes "sound_docs (pre @ [(name, body)])"
  shows "tree_of (pre @ [(name, body)]) q =
     (if q = comps name then Some (File body)
      else if strict_prefix q (comps name) then Some Dir else tree_of pre q)"
proof -
  have find: "List.find P (xs @ ys) = (case List.find P xs of None \<Rightarrow> List.find P ys | r \<Rightarrow> r)" for P :: "string \<times> string \<Rightarrow> bool" and xs ys
    by (induction xs) auto
  have none: "List.find (\<lambda>pb. comps (fst pb) = comps name) pre = None"
    using assms by (force simp: find_None_iff sound_docs_def)
  have up: "List.find (\<lambda>pb. comps (fst pb) = q) pre = None" if "strict_prefix q (comps name)"
    using assms that by (auto simp: find_None_iff sound_docs_def)
  have "comps name \<noteq> []" using assms by (auto simp: sound_docs_def)
  then show ?thesis
    using none up by (auto simp: tree_of_def find split: option.splits)
qed

lemma tree_of_above:
  assumes "sound_docs (pre @ [(name, body)])"
  shows "strict_prefix q (comps name) \<Longrightarrow> tree_of pre q \<in> {Some Dir, None}" "tree_of pre (comps name) = None"
proof -
  show "tree_of pre q \<in> {Some Dir, None}" if "strict_prefix q (comps name)"
    using assms that by (auto simp: tree_of_def sound_docs_def find_Some_iff split: option.splits)
  have "comps (fst x) \<noteq> comps name" if "x \<in> set pre" for x using assms that by (force simp: sound_docs_def)
  then have "List.find (\<lambda>pb. comps (fst pb) = comps name) pre = None" unfolding find_None_iff by blast
  moreover have "\<not> list_ex (\<lambda>pb. strict_prefix (comps name) (comps (fst pb))) pre" "comps name \<noteq> []"
    using assms by (auto simp: sound_docs_def list_ex_iff)
  ultimately show "tree_of pre (comps name) = None" by (simp add: tree_of_def)
qed

lemma path_key_target_dir:
  assumes "path_key q = t @ cs" "t \<noteq> []" "cs \<noteq> []"
  shows "path_key (path_dir (Clean q)) = t @ butlast cs"
proof -
  let ?cs = "clean_comps (is_abs q) (comps q)"
  have "?cs \<noteq> []"
  proof
    assume "?cs = []"
    then have "length (path_key q) \<le> 1" by (simp add: path_key_def)
    moreover have "2 \<le> length (path_key q)" using assms(2,3) unfolding assms(1) by (cases t; cases cs) auto
    ultimately show False by simp
  qed
  then obtain ds c where snoc: "?cs = ds @ [c]" by (metis rev_exhaust)
  have p: "\<forall>d \<in> set (ds @ [c]). proper d" using clean_comps_proper [of _ "is_abs q" q] by (simp flip: snoc)
  have can: "canonical (is_abs q) (ds @ [c])" using clean_comps_canonical [of "is_abs q" "comps q"] by (simp only: snoc)
  have "path_key (path_dir (Clean q)) = (if is_abs q then [''/''] else []) @ ds"
    unfolding Clean_def snoc by (rule path_key_dir) (use p can in auto)
  also have "\<dots> = butlast (path_key q)" by (simp add: path_key_def snoc butlast_append)
  finally show ?thesis using assms(3) by (simp add: assms(1) butlast_append)
qed

text \<open>The documents \<open>bs\<close> and nothing else are below \<open>t\<close>; the rest of the tree is as it was.\<close>

definition holds_docs :: "string list \<Rightarrow> fs \<Rightarrow> (string \<times> string) list \<Rightarrow> fs \<Rightarrow> bool" where
  "holds_docs t fs0 bs fs \<longleftrightarrow> only_in t fs0 fs \<and> below fs t = tree_of bs"

lemma holds_docs_way:
  assumes "holds_docs t fs0 pre fs" "sound_docs (pre @ [(name, body)])"
  shows "clear_way fs (t @ butlast (comps name))"
  unfolding clear_way_def
proof (intro allI impI)
  have fs: "wf_fs fs" "lookup fs t = Some Dir" "below fs t = tree_of pre"
    using assms(1) by (simp_all add: holds_docs_def only_in_def)
  have ne: "comps name \<noteq> []" using assms(2) by (simp add: sound_docs_def)
  fix k assume k: "prefix k (t @ butlast (comps name))"
  show "is_dir fs k \<or> lookup fs k = None"
  proof (cases "prefix k t")
    case True
    then show ?thesis using is_dir_prefix [OF fs(1) _ True] fs(2) by (simp add: is_dir_def)
  next
    case False
    then obtain r where r: "k = t @ r" "prefix r (butlast (comps name))" using prefix_cases [OF k] by blast
    then have "strict_prefix r (comps name)"
    proof -
      obtain cs c where "comps name = cs @ [c]" using ne by (metis rev_exhaust)
      then show ?thesis using r(2) prefix_length_le [of r cs] by (auto simp: strict_prefix_def)
    qed
    then have "tree_of pre r \<in> {Some Dir, None}" by (rule tree_of_above(1) [OF assms(2)])
    then show ?thesis using fun_cong [OF fs(3), of r] by (auto simp: below_def r is_dir_def)
  qed
qed

lemma prefix_above: "r \<noteq> [] \<Longrightarrow> prefix q (t @ butlast r) \<longleftrightarrow> prefix q (t @ r) \<and> q \<noteq> t @ r"
proof -
  assume "r \<noteq> []"
  then obtain cs c where "r = cs @ [c]" by (metis rev_exhaust)
  then show ?thesis using prefix_length_le [of q "t @ cs"] prefix_snoc [of q "t @ cs" c] by auto
qed

text \<open>Directories on the way below \<open>t\<close> change nothing outside.\<close>

lemma paved_only_in:
  assumes "only_in t fs0 fs" "paved (t @ r) fs fs1" "t \<noteq> []"
  shows "only_in t fs0 fs1"
proof -
  have fs: "wf_fs fs" "lookup fs t = Some Dir" using assms(1) by (simp_all add: only_in_def)
  have tt: "t \<noteq> [''/'']" using fs by (auto simp: wf_fs_def)
  have "lookup fs1 q = lookup fs q" if q: "\<not> prefix t q" for q
  proof (cases "prefix q t")
    case True
    then show ?thesis using paved_dir [OF assms(2)] is_dir_prefix [OF fs(1) _ True] fs(2) by (simp add: is_dir_def)
  next
    case False
    then have "\<not> prefix q (t @ r)" using q by (auto simp: prefix_append)
    then show ?thesis using assms(2) unfolding paved_def by blast
  qed
  moreover have "lookup fs1 t = Some Dir" using fs(2) paved_dir [OF assms(2), of t] by (simp add: is_dir_def)
  ultimately show ?thesis using assms(1,2) by (simp add: only_in_def paved_def)
qed

lemma tree_with_file:
  assumes tree: "below fs t = tree_of pre" and sound: "sound_docs (pre @ [(name, body)])" and t: "t \<noteq> []" "t \<noteq> [''/'']"
    and paved: "paved (t @ butlast (comps name)) fs fs1"
    and fs2: "\<And>q. lookup fs2 q = (if q = t @ comps name then Some (File body) else lookup fs1 q)"
  shows "below fs2 t = tree_of (pre @ [(name, body)])"
proof
  fix q
  have ne: "comps name \<noteq> []" using sound by (simp add: sound_docs_def)
  consider "q = comps name" | "strict_prefix q (comps name)" | "\<not> prefix q (comps name)" by (auto simp: strict_prefix_def)
  then show "below fs2 t q = tree_of (pre @ [(name, body)]) q"
  proof cases
    case 2
    then have "prefix (t @ q) (t @ butlast (comps name))" unfolding prefix_above [OF ne] by (auto simp: strict_prefix_def)
    then have "is_dir fs1 (t @ q)" using paved by (simp add: paved_def)
    moreover have "t @ q \<noteq> [''/'']" using t by (cases t) auto
    ultimately have "lookup fs1 (t @ q) = Some Dir" using t by (simp add: is_dir_def)
    then show ?thesis using 2 unfolding tree_of_snoc [OF sound] by (auto simp: below_def fs2)
  next
    case 3
    then have "\<not> prefix (t @ q) (t @ butlast (comps name))" unfolding prefix_above [OF ne] by simp
    then have "lookup fs1 (t @ q) = lookup fs (t @ q)" using paved unfolding paved_def by blast
    moreover have "lookup fs (t @ q) = tree_of pre q" using fun_cong [OF tree, of q] by (simp add: below_def)
    ultimately show ?thesis using 3 unfolding tree_of_snoc [OF sound] by (auto simp: below_def fs2 strict_prefix_def)
  qed (simp add: tree_of_snoc [OF sound] below_def fs2)
qed

lemma holds_docs_add:
  assumes h: "holds_docs t fs0 pre fs" and sound: "sound_docs (pre @ [(name, body)])" and t: "t \<noteq> []"
    and paved: "paved (t @ butlast (comps name)) fs fs1"
  shows "place fs1 (t @ comps name)" "lookup fs1 (t @ comps name) = None"
    "holds_docs t fs0 (pre @ [(name, body)]) (set_node (t @ comps name) (File body) (set_node (t @ comps name) (File []) fs1))"
proof -
  let ?k = "t @ comps name"
  have fs: "only_in t fs0 fs" "below fs t = tree_of pre" "wf_fs fs" "lookup fs t = Some Dir"
    using h by (simp_all add: holds_docs_def only_in_def)
  have ne: "comps name \<noteq> []" and kt: "?k \<noteq> t" using sound by (simp_all add: sound_docs_def)
  have fs1: "wf_fs fs1" "is_dir fs1 (butlast ?k)" using paved ne by (simp_all add: paved_def butlast_append)
  have tt: "t \<noteq> [''/'']" using fs(3,4) by (auto simp: wf_fs_def)
  have "?k \<noteq> [''/'']" using t ne by (cases t) auto
  then show place: "place fs1 ?k" using fs1 ne by (simp add: place_def)
  have "lookup fs ?k = None"
    using fun_cong [OF fs(2), of "comps name"] tree_of_above(2) [OF sound] by (simp add: below_def)
  moreover have "lookup fs1 ?k = lookup fs ?k \<or> prefix ?k (t @ butlast (comps name))" using paved unfolding paved_def by blast
  ultimately show free: "lookup fs1 ?k = None" unfolding prefix_above [OF ne] by auto
  let ?fs1' = "set_node ?k (File []) fs1"
  let ?fs2 = "set_node ?k (File body) ?fs1'"
  have p1: "place ?fs1' ?k" using place free by (intro place_set) simp_all
  have "wf_fs ?fs2" using place_wf [OF place_set(1) [OF p1]] by simp
  moreover have "only_in t fs0 fs1" by (rule paved_only_in [OF fs(1) paved t])
  ultimately have "only_in t fs0 ?fs2" using kt by (auto simp: only_in_def)
  moreover have "below ?fs2 t = tree_of (pre @ [(name, body)])"
    by (rule tree_with_file [OF fs(2) sound t tt paved]) simp
  ultimately show "holds_docs t fs0 (pre @ [(name, body)]) ?fs2" by (simp add: holds_docs_def)
qed

lemma leads_trans: "leads w fs w1 \<Longrightarrow> leads w1 fs' w2 \<Longrightarrow> leads w fs' w2"
  by (simp add: leads_def)

lemma leads_files: "leads w fs w' \<Longrightarrow> files w' = fs"
  by (simp add: leads_def)

lemma calm_extract_entry:
  assumes e: "faultless e" and h: "holds_docs t fs0 pre (files w)" and sound: "sound_docs (pre @ [(name, body)])"
    and dest: "destDir \<noteq> []" "path_key destDir = t" "t \<noteq> []"
    and N: "\<And>w'. sent w' = sent w \<Longrightarrow> holds_docs t fs0 (pre @ [(name, body)]) (files w') \<Longrightarrow> N () w'"
  shows "wp (extract_entry (Clean (path_join [destDir, name])) name body None) E N e w"
proof -
  let ?target = "Clean (path_join [destDir, name])" and ?k = "t @ comps name" and ?up = "t @ butlast (comps name)"
  have ok: "comps name \<noteq> []" "entry_path_ok name" using sound by (auto simp: sound_docs_def)
  have key: "path_key ?target = ?k" "path_key (path_join [destDir, name]) = ?k"
    using path_key_join [OF dest(1), of name] ok(2) dest(2) by (simp_all add: entry_path_ok_def)
  have dir: "path_key (path_dir ?target) = ?up"
    by (rule path_key_target_dir [OF key(2) dest(3) ok(1)])
  have way: "wf_fs (files w)" "clear_way (files w) ?up" "?up \<noteq> []"
    using holds_docs_way [OF h sound] h dest(3) by (simp_all add: holds_docs_def only_in_def)
  show ?thesis
    unfolding extract_entry_def tar_copy_def option.case
  proof (rule wp_bindT, rule wp_wrapped, rule calm_mkdir_all [OF e way(1) way(2,3) [folded dir]])
    fix w1 assume w1: "leads w (files w1) w1" and "paved (path_key (path_dir ?target)) (files w) (files w1)"
    then have paved: "paved ?up (files w) (files w1)" by (simp add: dir)
    note added = holds_docs_add [OF h sound dest(3) paved]
    show "wp (bindT (wrapped (''create '' @ go_quote name) (os_create ?target)) (\<lambda>_.
       bindT (tryT (bindT (os_write ?target body) (\<lambda>_. ret ())) (\<lambda>r. case r of
              Inl e \<Rightarrow> tryT os_close (\<lambda>_. fail (OsError (''write '' @ go_quote name @ '': '' @ os_text e)))
            | Inr x \<Rightarrow> ret x)) (\<lambda>_. wrapped (''close '' @ go_quote name) os_close))) E N e w1"
    proof (rule wp_bindT, rule wp_wrapped, rule calm_create [OF e])
      show "place (files w1) (path_key ?target)" "lookup (files w1) (path_key ?target) = None
         \<or> (\<exists>b. lookup (files w1) (path_key ?target) = Some (File b))"
        using added(1,2) by (simp_all add: key)
      fix w2 assume w2: "leads w1 (set_node (path_key ?target) (File []) (files w1)) w2"
      have fin: "N () w4" if "leads w2 (set_node (path_key ?target) (File body) (files w2)) w3" "leads w3 (files w3) w4" for w3 w4
        by (rule N) (use that w1 w2 added(3) in \<open>auto simp: leads_def key\<close>)
      show "wp (bindT (tryT (bindT (os_write ?target body) (\<lambda>_. ret ())) (\<lambda>r. case r of
              Inl e \<Rightarrow> tryT os_close (\<lambda>_. fail (OsError (''write '' @ go_quote name @ '': '' @ os_text e)))
            | Inr x \<Rightarrow> ret x)) (\<lambda>_. wrapped (''close '' @ go_quote name) os_close)) E N e w2"
        by (rule wp_bindT, rule wp_tryT, rule wp_bindT, rule calm_write [OF e])
           (auto intro!: wp_ret wp_wrapped calm_close [OF e] fin)
    qed
  qed
qed

abbreviation tar_files :: "(string \<times> string) list \<Rightarrow> tar_event list" where
  "tar_files bs \<equiv> map (\<lambda>(p, b). TarEntry p True b None) bs"

lemma calm_extract_events:
  assumes e: "faultless e" and dest: "destDir \<noteq> []" "path_key destDir = t" "t \<noteq> []"
      "clean_comps (is_abs destDir) (comps destDir) \<noteq> []"
    and sound: "sound_docs (pre @ bs)" and want: "fst ` set bs \<subseteq> set want"
    and h: "holds_docs t fs0 pre (files w)"
    and N: "\<And>w'. sent w' = sent w \<Longrightarrow> holds_docs t fs0 (pre @ bs) (files w')
       \<Longrightarrow> N (fold (\<lambda>pb seen. List.insert (fst pb) seen) bs seen) w'"
  shows "wp (extract_events destDir want seen (tar_files bs)) E N e w"
  using sound want h N
proof (induction bs arbitrary: pre seen w)
  case Nil
  then show ?case by (auto intro!: wp_ret)
next
  case (Cons pb bs)
  obtain p b where pb: "pb = (p, b)" by (cases pb)
  have s: "sound_docs (pre @ [(p, b)])" "sound_docs ((pre @ [(p, b)]) @ bs)"
    using Cons.prems(1) sound_docs_append [of "pre @ [(p, b)]" bs] by (simp_all add: pb)
  then have ok: "entry_path_ok p" by (auto simp: sound_docs_def)
  show ?case
    unfolding pb list.map prod.case extract_events.simps
    unfolding validateEntryPath_accepts [OF dest(1) ok dest(4)] lift_result_Inr
  proof (rule wp_bindT, rule wp_ret)
    show "wp (if \<not> True then fail (OsError (''refusing non-regular tar entry '' @ go_quote p))
      else if \<not> list_ex (\<lambda>q. q = p) want then fail (OsError (''refusing unmanifested tar entry '' @ go_quote p))
      else bindT (extract_entry (Clean (path_join [destDir, p])) p b None)
             (\<lambda>_. extract_events destDir want (List.insert p seen) (tar_files bs))) E N e w"
    proof (intro wp_if wp_bindT calm_extract_entry [OF e Cons.prems(3) s(1) dest(1-3)])
      fix w1 :: world assume w1: "sent w1 = sent w" "holds_docs t fs0 (pre @ [(p, b)]) (files w1)"
      show "wp (extract_events destDir want (List.insert p seen) (tar_files bs)) E N e w1"
        by (rule Cons.IH [OF s(2) _ w1(2)]) (use Cons.prems(2,4) w1(1) in \<open>auto simp: pb\<close>)
    qed (use Cons.prems(2) in \<open>auto simp: pb list_ex_iff\<close>)
  qed
qed

end
