(* ===== verification/Delivery.thy ===== *)
theory Delivery
  imports Progress PassProps
begin

text \<open>
  A pass without failures against a server that serves a sound release delivers it: extraction, check,
  installation, switch, marker and report, each step with its success as a lemma.
\<close>

section \<open>The archive\<close>

lemma calm_extractTar:
  assumes "faultless e" "destDir \<noteq> []" "path_key destDir = t" "t \<noteq> []"
      "clean_comps (is_abs destDir) (comps destDir) \<noteq> []"
    and "sound_docs bs" "set want = fst ` set bs" "holds_docs t fs0 [] (files w)"
    and N: "\<And>w'. sent w' = sent w \<Longrightarrow> holds_docs t fs0 bs (files w') \<Longrightarrow> N () w'"
  shows "wp (extractTar (tar_files bs) destDir want) E N e w"
proof -
  have seen: "set (fold (\<lambda>pb seen. List.insert (fst pb) seen) bs seen) = set seen \<union> fst ` set bs" for seen
    by (induction bs arbitrary: seen) auto
  have "List.find (\<lambda>p. \<not> list_ex (\<lambda>q. q = p) (fold (\<lambda>pb seen. List.insert (fst pb) seen) bs [])) want = None"
    unfolding find_None_iff using assms(7) seen [of "[]"] by (auto simp: list_ex_iff)
  then show ?thesis
    unfolding extractTar_def
    by (intro wp_bindT calm_extract_events [OF assms(1-5), of "[]"]) (use assms(6-8) N in \<open>auto intro!: wp_ret\<close>)
qed

section \<open>The check of the bytes\<close>

lemma calm_hash_docs:
  assumes e: "faultless e" and dest: "destDir \<noteq> []" "path_key destDir = t"
    and docs: "map sd_path docs = map fst bs"
    and there: "wf_fs (files w)" "\<forall>(p, b) \<in> set bs. entry_path_ok p \<and> lookup (files w) (t @ comps p) = Some (File b)"
    and N: "\<And>w'. leads w (files w) w' \<Longrightarrow> N (h @ content_bytes bs) w'"
  shows "wp (hash_docs destDir docs h) E N e w"
  using docs there N
proof (induction docs arbitrary: bs h w)
  case Nil
  then show ?case by (auto intro!: wp_ret simp: leads_def)
next
  case (Cons d docs)
  obtain p b rest where bs: "bs = (p, b) # rest" "sd_path d = p" "map sd_path docs = map fst rest"
    using Cons.prems(1) by (cases bs) auto
  let ?p = "path_join [destDir, p]"
  have key: "path_key ?p = t @ comps p"
    using path_key_join [OF dest(1), of p] Cons.prems(3) dest(2) by (simp add: bs(1) entry_path_ok_def)
  have there: "lookup (files w) (path_key ?p) = Some (File b)" using Cons.prems(3) by (simp add: bs(1) key)
  have place: "place (files w) (path_key ?p)" using Cons.prems(2) there by (auto simp: place_def wf_fs_def)
  show ?case
    unfolding hash_docs.simps bs(2)
  proof (rule wp_bindT, rule wp_wrapped, rule calm_read_file [OF e place there])
    fix w1 assume w1: "leads w (files w) w1"
    show "wp (hash_docs destDir docs (h @ p @ [CHR 0x00] @ sha256 b)) E N e w1"
    proof (rule Cons.IH [OF bs(3)])
      show "N ((h @ p @ [CHR 0x00] @ sha256 b) @ content_bytes rest) w2" if "leads w1 (files w1) w2" for w2
        using Cons.prems(4) [of w2] that w1 by (simp add: bs(1) leads_def)
    qed (use Cons.prems(2,3) w1 in \<open>auto simp: bs(1) leads_def\<close>)
  qed
qed

lemma calm_hash_check:
  assumes "faultless e" "destDir \<noteq> []" "path_key destDir = t"
    and "map sd_path (elems (cr_docs cur)) = map fst bs" "cr_hash cur = content_hash bs"
    and "sound_docs bs" "holds_docs t fs0 bs (files w)"
    and "\<And>w'. leads w (files w) w' \<Longrightarrow> N () w'"
  shows "wp (hash_check destDir cur) E N e w"
proof -
  have "\<forall>(p, b) \<in> set bs. entry_path_ok p \<and> lookup (files w) (t @ comps p) = Some (File b)"
  proof safe
    fix p b assume pb: "(p, b) \<in> set bs"
    show "entry_path_ok p" using assms(6) pb by (auto simp: sound_docs_def)
    have "below (files w) t (comps p) = Some (File b)"
      using assms(7) tree_of_file [OF assms(6) pb] by (simp add: holds_docs_def)
    then show "lookup (files w) (t @ comps p) = Some (File b)" by (simp add: below_def)
  qed
  moreover have "wf_fs (files w)" using assms(7) by (simp add: holds_docs_def only_in_def)
  ultimately show ?thesis
    unfolding hash_check_def recomputeContentHash_def
    by (intro wp_tryT wp_bindT calm_hash_docs [OF assms(1-4)])
       (auto intro!: wp_ret wp_if assms(8) simp: assms(5) content_hash_def)
qed

section \<open>A free directory\<close>

lemma calm_lstat:
  assumes "faultless e" "place (files w) (path_key p)"
    and "\<And>w'. leads w (files w) w' \<Longrightarrow> E (NotExist p) w'" "\<And>nd w'. leads w (files w) w' \<Longrightarrow> N nd w'"
  shows "wp (os_lstat p) E N e w"
proof (cases "lookup (files w) (path_key p)")
  case None
  show ?thesis
    unfolding os_lstat_def
    by (rule calm_miss [where x = "NotExist p", OF assms(1)]) (use assms None in \<open>auto simp: at_place\<close>)
next
  case (Some nd)
  show ?thesis
    unfolding os_lstat_def
    by (rule calm_step [where a = nd and fs = "files w", OF assms(1)]) (use assms Some in \<open>auto simp: at_place\<close>)
qed

lemma calm_fresh_search:
  assumes "faultless e" "\<And>n. place (files w0) (path_key (path_join [dir, numbered_name ident n]))" "leads w0 (files w0) w"
  shows "wp (fresh_search fuel n dir ident) (\<lambda>_ _. False) (\<lambda>_. leads w0 (files w0)) e w"
  using assms(3)
proof (induction fuel arbitrary: n w)
  case (Suc fuel)
  have "files w = files w0" using Suc.prems by (rule leads_files)
  then show ?case
    unfolding fresh_search.simps Let_def using Suc assms(2)
    by (intro wp_tryT calm_lstat [OF assms(1)]) (auto intro!: wp_ret leads_trans [OF Suc.prems])
qed (auto intro: wp_ret)

lemma calm_pick_dir:
  assumes e: "faultless e" and wf: "wf_fs (files w)" and home: "home \<noteq> []" and dir: "is_dir (files w) (path_key home @ [''releases''])"
    and N: "\<And>name w'. leads w (files w) w' \<Longrightarrow> plain_name name \<Longrightarrow> \<not> taken (files w) (release_key home name)
       \<Longrightarrow> N (path_join [path_join [home, ''releases''], name]) w'"
  shows "wp (pick_dir (path_join [home, ''releases'']) (int_dec i)) E N e w"
proof -
  let ?dir = "path_join [home, ''releases'']"
  have place: "place (files w) (path_key (path_join [?dir, name]))" if "plain_name name" for name
    using path_key_release_dir [OF home that] wf dir
    by (simp add: place_def release_key_def butlast_append Cons_eq_append_conv)
  have "wp (freshReleaseDir (enough_fuel (files w)) ?dir (int_dec i)) (\<lambda>_ _. False) (\<lambda>_. leads w (files w)) e w"
    unfolding freshReleaseDir_def Let_def
    by (intro wp_tryT calm_lstat [OF e place] plain_name_int_dec)
       (auto intro!: wp_ret calm_fresh_search [OF e] place plain_name_numbered)
  moreover have "wp (freshReleaseDir (enough_fuel (files w)) ?dir (int_dec i)) (\<lambda>_ _. True)
     (\<lambda>r _. \<exists>name. r = Some (path_join [?dir, name]) \<and> fresh_name (files w) (path_key ?dir) (int_dec i) name) e w"
    by (rule wp_freshReleaseDir [OF wf]) (use home in \<open>auto simp: path_join_ne path_key_releases\<close>)
  ultimately have both: "wp (freshReleaseDir (enough_fuel (files w)) ?dir (int_dec i)) (\<lambda>x w'. False \<and> True)
     (\<lambda>r w'. leads w (files w) w' \<and> (\<exists>name. r = Some (path_join [?dir, name])
        \<and> fresh_name (files w) (path_key ?dir) (int_dec i) name)) e w"
    by (rule wp_conj)
  have fresh: "plain_name name" "\<not> taken (files w) (release_key home name)"
    if "fresh_name (files w) (path_key ?dir) (int_dec i) name" for name
    using plain_release_names [OF plain_name_int_dec fresh_name_release [OF that]] that home
    by (simp_all add: fresh_name_def path_key_releases release_key_def)
  have "wp (freshReleaseDir (enough_fuel (files w)) ?dir (int_dec i)) E
     (\<lambda>r w'. wp (case r of Some p \<Rightarrow> ret p | None \<Rightarrow> fail (OsError ''no free release directory'')) E N e w') e w"
    by (rule wp_conseq [OF both]) (auto intro!: wp_ret N fresh)
  then show ?thesis by (simp add: pick_dir_def wp_def bindT_def split: prod.splits sum.splits)
qed

section \<open>Installing\<close>

text \<open>A home in which a pass can work: its directory of releases is there, and the names it needs are free or
  hold what an earlier pass left.\<close>

definition own_names :: "string \<Rightarrow> nat \<Rightarrow> fs \<Rightarrow> bool" where
  "own_names home p fs \<longleftrightarrow> lookup fs (corpus_key home) \<noteq> Some Dir \<and> lookup fs (tmp_link_key home p) \<noteq> Some Dir
     \<and> (lookup fs (marker_key home) = None \<or> (\<exists>b. lookup fs (marker_key home) = Some (File b)))"

definition workable :: "string \<Rightarrow> nat \<Rightarrow> fs \<Rightarrow> bool" where
  "workable home p fs \<longleftrightarrow> wf_fs fs \<and> is_dir fs (path_key home @ [''releases'']) \<and> own_names home p fs"

lemma workable_place:
  assumes "workable home p fs" "c \<noteq> ''/''"
  shows "place fs (path_key home @ [c])"
proof -
  have "is_dir fs (path_key home)"
    by (rule is_dir_prefix [of fs "path_key home @ [''releases'']"]) (use assms in \<open>simp_all add: workable_def\<close>)
  then show ?thesis using assms by (auto simp: place_def workable_def Cons_eq_append_conv)
qed

lemmas home_keys = corpus_key_def tmp_link_key_def marker_key_def

lemma own_places:
  assumes "workable home p fs"
  shows "place fs (corpus_key home)" "place fs (tmp_link_key home p)" "place fs (marker_key home)"
  using workable_place [OF assms] by (simp_all add: home_keys)

lemma workable_cong:
  assumes "workable home p fs" "wf_fs fs'" "is_dir fs' (path_key home @ [''releases''])"
    and "lookup fs' (corpus_key home) \<noteq> Some Dir" "lookup fs' (tmp_link_key home p) \<noteq> Some Dir"
    and "lookup fs' (marker_key home) = lookup fs (marker_key home)"
  shows "workable home p fs'"
  using assms by (simp add: workable_def own_names_def)

lemma keys_off_releases:
  "\<not> prefix (release_key home name) (corpus_key home)" "\<not> prefix (release_key home name) (tmp_link_key home p)"
  "\<not> prefix (release_key home name) (marker_key home)" "\<not> prefix (release_key home name) (path_key home @ [''releases''])"
  by (auto simp: home_keys release_key_def)

lemma workable_move:
  assumes w: "workable home p fs" and t: "lookup fs (release_key home a) = Some Dir"
    and ab: "a \<noteq> b" and free: "lookup fs (release_key home b) = None"
  shows "workable home p (move_tree (release_key home a) (release_key home b) fs)"
    "below (move_tree (release_key home a) (release_key home b) fs) (release_key home b) = below fs (release_key home a)"
    "place fs (release_key home a)" "place fs (release_key home b)" "\<not> prefix (release_key home a) (release_key home b)"
proof -
  have off: "\<not> prefix (release_key home a) (release_key home b)" "\<not> prefix (release_key home b) (release_key home a)"
    using ab by (auto simp: release_key_def)
  then show "\<not> prefix (release_key home a) (release_key home b)" by blast
  note look = lookup_move_tree [OF off]
  have releases: "butlast (release_key home x) = path_key home @ [''releases'']" for x by (simp add: release_key_def butlast_append)
  have d: "wf_fs fs" "is_dir fs (path_key home @ [''releases''])" using w by (simp_all add: workable_def)
  show "place fs (release_key home a)" "place fs (release_key home b)"
    using d releases by (auto simp: place_def release_key_def Cons_eq_append_conv)
  have "wf_fs (move_tree (release_key home a) (release_key home b) fs)"
    by (rule wf_fs_move [OF d(1) t off]) (use d releases in \<open>auto simp: release_key_def Cons_eq_append_conv\<close>)
  then show "workable home p (move_tree (release_key home a) (release_key home b) fs)"
    by (rule workable_cong [OF w]) (use w keys_off_releases in \<open>auto simp: look is_dir_def workable_def own_names_def\<close>)
  show "below (move_tree (release_key home a) (release_key home b) fs) (release_key home b) = below fs (release_key home a)"
    by (rule ext) (simp add: below_def look)
qed

lemma keys_apart:
  "corpus_key home \<noteq> tmp_link_key home p" "marker_key home \<noteq> corpus_key home" "marker_key home \<noteq> tmp_link_key home p"
  "path_key home @ [''releases''] \<noteq> tmp_link_key home p" "path_key home @ [''releases''] \<noteq> corpus_key home"
  "path_key home @ [''releases''] \<noteq> marker_key home"
  by (auto simp: home_keys)

lemma prefix_own: "prefix (path_key home @ [c]) (path_key home @ [d]) \<longleftrightarrow> c = d"
  by auto

text \<open>The switch of the corpus.\<close>

text \<open>The link made beside the corpus and moved onto it.\<close>

lemma flipped_tree:
  fixes home name :: string and p :: nat
  defines "t \<equiv> tmp_link_key home p" and "c \<equiv> corpus_key home" and "nd \<equiv> Link (path_join [''releases'', name])"
  defines "fs3 \<equiv> \<lambda>fs1. move_tree t c (set_node t nd fs1)"
  assumes w1: "workable home p fs1" "lookup fs1 t = None" and name: "plain_name name"
  shows "place fs1 t" "place (set_node t nd fs1) t" "place (set_node t nd fs1) c" "lookup (set_node t nd fs1) c \<noteq> Some Dir"
    "\<not> prefix t c" "workable home p (fs3 fs1)" "served home (fs3 fs1) = below fs1 (release_key home name)"
    "corpus_dir home (fs3 fs1) = Some (release_key home name)"
proof -
  let ?fs2 = "set_node t nd fs1" and ?rel = "path_key home @ [''releases'']"
  show apart: "\<not> prefix t c" by (auto simp: t_def c_def home_keys)
  have apart': "\<not> prefix c t" "\<not> prefix t ?rel" "\<not> prefix c ?rel" "\<not> prefix t (marker_key home)" "\<not> prefix c (marker_key home)"
     "\<not> prefix t (release_key home name @ q)" "\<not> prefix c (release_key home name @ q)" for q
    by (auto simp: t_def c_def home_keys release_key_def prefix_Cons)
  show t1: "place fs1 t" using own_places [OF w1(1)] by (simp add: t_def)
  show p2: "place ?fs2 t" using place_set [of fs1 t] t1 w1(2) by (auto simp: nd_def)
  have "\<not> is_dir fs1 t" using t1 w1(2) by (simp add: is_dir_def place_def)
  then have w2: "workable home p ?fs2"
    by (intro workable_cong [OF w1(1) place_wf [OF p2]])
       (use w1(1) keys_apart in \<open>auto simp: workable_def own_names_def is_dir_def t_def nd_def\<close>)
  show c2: "place ?fs2 c" "lookup ?fs2 c \<noteq> Some Dir"
    using own_places(1) [OF w2] w2 by (simp_all add: workable_def own_names_def c_def)
  note look = lookup_move_tree [OF apart apart'(1), unfolded t_def c_def]
  have wf3: "wf_fs (fs3 fs1)"
    unfolding fs3_def by (rule wf_fs_move [OF place_wf [OF p2] _ apart apart'(1), where nd = nd]) (use c2(1) in \<open>simp_all add: place_def\<close>)
  then show w3: "workable home p (fs3 fs1)"
    by (rule workable_cong [OF w2]) (use w2 apart apart' in \<open>auto simp: fs3_def look is_dir_def workable_def t_def c_def nd_def\<close>)
  have off: "release_key home name @ q \<noteq> t" for q using apart'(6) [of q] by auto
  have "switched home name fs1 (fs3 fs1)"
    using wf3 apart' apart'(6,7) [of "[]"] off by (simp add: switched_def fs3_def look below_def t_def c_def nd_def)
  then show "served home (fs3 fs1) = below fs1 (release_key home name)" "corpus_dir home (fs3 fs1) = Some (release_key home name)"
    using switched_served [OF _ name] by auto
qed

lemma calm_flip:
  assumes e: "faultless e" and home: "home \<noteq> []" and w: "workable home (pid e) (files w)" and name: "plain_name name"
    and N: "\<And>w'. sent w' = sent w \<Longrightarrow> workable home (pid e) (files w')
       \<Longrightarrow> served home (files w') = below (files w) (release_key home name)
       \<Longrightarrow> corpus_dir home (files w') = Some (release_key home name) \<Longrightarrow> N () w'"
  shows "wp (flipCorpus home name) E N e w"
proof -
  let ?p = "pid e" and ?t = "tmp_link_key home (pid e)" and ?c = "corpus_key home" and ?l = "path_join [''releases'', name]"
  have keys: "path_key (tmp_link home ?p) = ?t" "path_key (path_join [home, ''corpus'']) = ?c" using home by simp_all
  have link: "wp (bindT (wrapped ''create temp symlink'' (os_symlink ?l (tmp_link home ?p))) (\<lambda>_.
      tryT (os_rename (tmp_link home ?p) (path_join [home, ''corpus''])) (\<lambda>r. case r of
        Inl err \<Rightarrow> tryT (os_remove (tmp_link home ?p)) (\<lambda>_.
          fail (OsError (''rename symlink onto corpus: '' @ os_text err)))
      | Inr _ \<Rightarrow> ret ()))) E N e w1"
    if w1: "sent w1 = sent w" "workable home ?p (files w1)" "lookup (files w1) ?t = None"
      "below (files w1) (release_key home name) = below (files w) (release_key home name)" for w1
  proof (rule wp_bindT, rule wp_wrapped, rule calm_symlink [OF e], unfold keys)
    let ?fs2 = "set_node ?t (Link ?l) (files w1)" let ?fs3 = "move_tree ?t ?c ?fs2"
    note tree = flipped_tree [OF w1(2,3) name]
    show "place (files w1) ?t" "lookup (files w1) ?t = None" using tree(1) w1(3) .
    show "wp (tryT (os_rename (tmp_link home ?p) (path_join [home, ''corpus''])) (\<lambda>r. case r of
        Inl err \<Rightarrow> tryT (os_remove (tmp_link home ?p)) (\<lambda>_. fail (OsError (''rename symlink onto corpus: '' @ os_text err)))
      | Inr _ \<Rightarrow> ret ())) E N e w2" if "leads w1 ?fs2 w2" for w2
      using leads_files [OF that] tree(2-8) w1(1,4) that
      by (intro wp_tryT calm_rename [OF e]) (auto simp: keys leads_def intro!: wp_ret N)
  qed
  show ?thesis
    unfolding flipCorpus_def Let_def
  proof (rule wp_bindT, rule wp_get_pid, rule wp_tryT, rule calm_unlink [OF e], unfold keys, goal_cases)
    case 1
    show ?case using own_places [OF w] by simp
  next
    case 2
    show ?case using w by (simp add: workable_def own_names_def)
  next
    case (3 w1)
    then show ?case using w by (intro link) (simp_all add: leads_def)
  next
    case (4 w1)
    have apart: "\<not> prefix ?t ?c" "\<not> prefix ?t (marker_key home)" "\<not> prefix ?t (path_key home @ [''releases''])"
      "\<not> prefix ?t (release_key home name)" by (auto simp: home_keys release_key_def prefix_Cons)
    have "wf_fs (drop_tree ?t (files w))" using w by (simp add: workable_def wf_fs_drop)
    then have "workable home ?p (drop_tree ?t (files w))"
      by (rule workable_cong [OF w]) (use w apart in \<open>simp_all add: workable_def own_names_def is_dir_def\<close>)
    then show ?case using 4 apart by (intro link) (simp_all add: leads_def below_drop tmp_link_key_apart)
  qed
qed

text \<open>The marker, then the report: what a delivered release is.\<close>

definition delivered :: "string \<Rightarrow> string \<Rightarrow> string \<Rightarrow> cur_release \<Rightarrow> request list \<Rightarrow> world \<Rightarrow> bool" where
  "delivered server home token cur sent0 w' \<longleftrightarrow> marked home cur (files w')
     \<and> (\<exists>gets b. sent w' = sent0 @ gets @ [heartbeat_request server token b] \<and> (\<forall>rq \<in> set gets. rq_method rq = ''GET'')
          \<and> hb_release b = cr_id cur \<and> hb_ok b \<and> hb_error b = None \<and> hb_resync b = cr_resync cur)"

definition asked_only :: "request list \<Rightarrow> world \<Rightarrow> bool" where
  "asked_only sent0 w \<longleftrightarrow> (\<exists>gets. sent w = sent0 @ gets \<and> (\<forall>rq \<in> set gets. rq_method rq = ''GET''))"

lemma asked_only_cong: "asked_only sent0 w \<Longrightarrow> sent w' = sent w \<Longrightarrow> asked_only sent0 w'"
  by (simp add: asked_only_def)

lemma asked_only_get: "asked_only sent0 w \<Longrightarrow> asked w (get_request u token) w' \<Longrightarrow> asked_only sent0 w'"
  by (auto simp: asked_only_def asked_def get_request_def)

lemma wp_ok_report:
  assumes "asked_only sent0 w" "marked home cur (files w)" "rs = cr_resync cur"
    and "\<And>w'. files w' = files w \<Longrightarrow> delivered server home token cur sent0 w' \<Longrightarrow> N () w'"
  shows "wp (heartbeat server host token (cr_id cur) True [] rs) E N e w"
proof (rule wp_heartbeat, rule assms(4))
  let ?b = "\<lparr>hb_host = host, hb_release = cr_id cur, hb_ok = True, hb_error = (if [] \<noteq> ([] :: string) then Some [] else None), hb_resync = rs\<rparr>"
  fix w' assume "asked w (heartbeat_request server token ?b) w'"
  then have w': "files w' = files w" "sent w' = sent w @ [heartbeat_request server token ?b]" by (simp_all add: asked_def)
  then show "files w' = files w" by simp
  show "delivered server home token cur sent0 w'"
    unfolding delivered_def using assms(1-3) w' unfolding asked_only_def
    by (auto intro!: exI [of _ ?b])
qed

lemma calm_write_marker:
  assumes e: "faultless e" and home: "home \<noteq> []" and w: "workable home p (files w)" and hash: "is_word (cr_hash cur)"
    and v: "corpus_dir home (files w) = Some (release_key home name)"
    and N: "\<And>w'. sent w' = sent w \<Longrightarrow> marked home cur (files w') \<Longrightarrow> served home (files w') = served home (files w) \<Longrightarrow> N () w'"
  shows "wp (writeApplied (path_join [home, ''.applied'']) (int_dec (cr_id cur)) (cr_hash cur)) E N e w"
proof -
  let ?m = "marker_key home" and ?text = "marker_text (int_dec (cr_id cur)) (cr_hash cur)"
  have key: "path_key (path_join [home, ''.applied'']) = ?m" using home by simp
  have off: "?m \<noteq> corpus_key home" "\<not> prefix (release_key home name) ?m" using keys_apart keys_off_releases by auto
  have fin: "N () w'" if f: "files w' = set_node ?m (File ?text) (set_node ?m (File []) (files w))" "sent w' = sent w" for w'
  proof (rule N [OF f(2)])
    show "marked home cur (files w')"
      using parse_marker_text [OF is_word_int_dec hash] by (auto simp: marked_def f(1))
    have "corpus_dir home (files w') = corpus_dir home (files w)" using off(1) by (simp add: corpus_dir_def f(1))
    then show "served home (files w') = served home (files w)"
      using off(2) v by (simp add: served_def f(1) below_set)
  qed
  show ?thesis
    unfolding writeApplied_def os_write_file_def
    by (intro wp_bindT calm_create [OF e] calm_write [OF e] calm_close [OF e])
       (use own_places(3) [OF w] w in \<open>auto simp: key workable_def own_names_def leads_def intro!: fin\<close>)
qed

text \<open>From the checked temporary directory to the report.\<close>

lemma calm_install:
  assumes e: "faultless e" and home: "home \<noteq> []" and w: "workable home (pid e) (files w)" and asks: "asked_only sent0 w"
    and tmp: "path_key tmpDir = tmp_key home (cr_id cur) (pid e)" "below (files w) (tmp_key home (cr_id cur) (pid e)) = tree_of bs"
    and hash: "cr_hash cur = content_hash bs"
    and N: "\<And>w'. delivered server home token cur sent0 w' \<Longrightarrow> served home (files w') = tree_of bs \<Longrightarrow> N () w'"
  shows "wp (install server home host token cur (cr_resync cur) (path_join [home, ''releases'']) tmpDir) E N e w"
  unfolding install_def Let_def
proof (rule wp_checked, rule calm_pick_dir [OF e _ home])
  let ?tmp = "CHR ''.'' # int_dec (cr_id cur) @ ''.tmp.'' @ nat_dec (pid e)"
  let ?stop = "give_up server host token (cr_id cur)"
  have t: "tmp_key home (cr_id cur) (pid e) = release_key home ?tmp" by (simp add: tmp_key_def)
  show "wf_fs (files w)" "is_dir (files w) (path_key home @ [''releases''])" using w by (simp_all add: workable_def)
  fix name w1 assume w1: "leads w (files w) w1" and name: "plain_name name" and "\<not> taken (files w) (release_key home name)"
  then have free: "lookup (files w) (release_key home name) = None" by (simp add: taken_def)
  let ?dst = "path_join [path_join [home, ''releases''], name]"
  have key: "path_key ?dst = release_key home name" by (rule path_key_release_dir [OF home name])
  have base: "path_base ?dst = name" by (rule path_base_join [OF path_join_ne [OF home] name])
  have f1: "files w1 = files w" "sent w1 = sent w" using w1 by (simp_all add: leads_def)
  have dir: "lookup (files w) (release_key home ?tmp) = Some Dir"
    using fun_cong [OF tmp(2), of "[]"] by (simp add: below_def tree_of_def t)
  have "?tmp \<noteq> name" using name by (auto simp: plain_name_def)
  note moved = workable_move [OF w dir this free]
  show "wp (checked (os_rename tmpDir ?dst) (\<lambda>err. discarding tmpDir (?stop err)) (\<lambda>_.
      checked (flipCorpus home (path_base ?dst)) ?stop (\<lambda>_.
      checked (writeApplied (path_join [home, ''.applied'']) (int_dec (cr_id cur)) (cr_hash cur)) ?stop (\<lambda>_.
      heartbeat server host token (cr_id cur) True [] (cr_resync cur))))) E N e w1"
    unfolding base
  proof (rule wp_checked, rule calm_rename [OF e], unfold key tmp(1) t f1)
    fix w2 assume w2: "leads w1 (move_tree (release_key home ?tmp) (release_key home name) (files w)) w2"
    then have f2: "workable home (pid e) (files w2)" "below (files w2) (release_key home name) = tree_of bs" "sent w2 = sent w"
      using moved(1,2) tmp(2) f1 by (simp_all add: leads_def t)
    show "wp (checked (flipCorpus home name) ?stop (\<lambda>_.
      checked (writeApplied (path_join [home, ''.applied'']) (int_dec (cr_id cur)) (cr_hash cur)) ?stop (\<lambda>_.
      heartbeat server host token (cr_id cur) True [] (cr_resync cur)))) E N e w2"
    proof (rule wp_checked, rule calm_flip [OF e home f2(1) name])
      fix w3 :: world
      assume w3: "sent w3 = sent w2" "workable home (pid e) (files w3)"
        "served home (files w3) = below (files w2) (release_key home name)" "corpus_dir home (files w3) = Some (release_key home name)"
      have word: "is_word (cr_hash cur)" by (simp add: hash is_word_content_hash)
      show "wp (checked (writeApplied (path_join [home, ''.applied'']) (int_dec (cr_id cur)) (cr_hash cur)) ?stop (\<lambda>_.
        heartbeat server host token (cr_id cur) True [] (cr_resync cur))) E N e w3"
      proof (rule wp_checked, rule calm_write_marker [OF e home w3(2) word w3(4)])
        fix w4 :: world
        assume w4: "sent w4 = sent w3" "marked home cur (files w4)" "served home (files w4) = served home (files w3)"
        have "asked_only sent0 w4" by (rule asked_only_cong [OF asks]) (simp add: w4(1) w3(1) f2(3))
        then show "wp (heartbeat server host token (cr_id cur) True [] (cr_resync cur)) E N e w4"
          by (rule wp_ok_report [OF _ w4(2) refl]) (use w4 w3 f2 N in auto)
      qed
    qed
  qed (use moved(3-5) dir free in auto)
qed

section \<open>The whole pass\<close>

text \<open>The server offers the release \<open>cur\<close> and serves its documents \<open>bs\<close>.\<close>

definition serves :: "os_env \<Rightarrow> string \<Rightarrow> string \<Rightarrow> string \<Rightarrow> cur_release \<Rightarrow> (string \<times> string) list \<Rightarrow> bool" where
  "serves e server host token cur bs \<longleftrightarrow> (\<forall>n. offered e n server host token cur)
     \<and> (\<forall>n. \<exists>r. reply e n (get_request (archive_url server (cr_id cur)) token) = Inr r \<and> accepted r \<and> rs_events r = tar_files bs)
     \<and> map sd_path (elems (cr_docs cur)) = map fst bs \<and> cr_hash cur = content_hash bs \<and> sound_docs bs"

text \<open>Nothing is in the way of the directories and names a pass needs.\<close>

definition ready :: "string \<Rightarrow> nat \<Rightarrow> fs \<Rightarrow> bool" where
  "ready home p fs \<longleftrightarrow> wf_fs fs \<and> clear_way fs (path_key home @ [''releases'']) \<and> own_names home p fs"

lemma calm_api_fetch:
  assumes "reply e (steps w) (get_request u token) = Inr r" "accepted r"
    and "\<And>w'. asked w (get_request u token) w' \<Longrightarrow> N r w'"
  shows "wp (api_fetch u token) E N e w"
proof -
  have "validateProtocolResponse r = Inr ()" "rs_status r = 200"
    using assms(2) by (simp_all add: validateProtocolResponse_iff accepted_def)
  moreover have "wp (apiGet u token) E' (\<lambda>r' w'. r' = r \<and> asked w (get_request u token) w') e w" for E'
    using assms(1) by (simp add: wp_def apiGet_def http_do_def asked_def)
  ultimately show ?thesis
    unfolding api_fetch_def
    by - (rule wp_bindT, rule wp_wrapped, rule wp_conseq, assumption,
      auto simp: lift_result_Inr intro!: wp_bindT wp_wrapped wp_ret assms(3))
qed

lemma ready_tmp:
  assumes w: "workable home p fs"
  shows "clear_way (drop_tree (tmp_key home i p') fs) (tmp_key home i p')"
    "paved (tmp_key home i p') (drop_tree (tmp_key home i p') fs) fs1 \<Longrightarrow> workable home p fs1"
    "paved (tmp_key home i p') (drop_tree (tmp_key home i p') fs) fs1 \<Longrightarrow> holds_docs (tmp_key home i p') fs1 [] fs1"
proof -
  let ?t = "tmp_key home i p'" and ?rel = "path_key home @ [''releases'']" and ?fs0 = "drop_tree (tmp_key home i p') fs"
  have t: "?t = ?rel @ [CHR ''.'' # int_dec i @ ''.tmp.'' @ nat_dec p']" by (simp add: tmp_key_def release_key_def)
  have rel: "wf_fs ?fs0" "is_dir ?fs0 ?rel"
    using w by (auto simp: workable_def wf_fs_drop is_dir_def tmp_key_def release_key_def)
  show "clear_way ?fs0 ?t"
    unfolding clear_way_def
  proof (intro allI impI)
    fix k assume "prefix k ?t"
    then consider "k = ?t" | "prefix k ?rel" unfolding t prefix_snoc by blast
    then show "is_dir ?fs0 k \<or> lookup ?fs0 k = None"
      using is_dir_prefix [OF rel] by cases auto
  qed
  assume fs1: "paved ?t ?fs0 fs1"
  have off: "\<not> prefix (path_key home @ [c]) ?t" if "c \<noteq> ''releases''" for c using that by (auto simp: t)
  have off': "\<not> prefix ?t (path_key home @ [c])" for c by (auto simp: t)
  have same: "lookup fs1 (path_key home @ [c]) = lookup fs (path_key home @ [c])" if "c \<noteq> ''releases''" for c
    using fs1 off [OF that] off' unfolding paved_def by (metis lookup_drop_tree)
  have wf1: "wf_fs fs1" "is_dir fs1 ?rel" "is_dir fs1 ?t" using fs1 by (auto simp: paved_def t)
  show "workable home p fs1"
    by (rule workable_cong [OF w wf1(1,2)]) (use w in \<open>auto simp: home_keys same workable_def own_names_def\<close>)
  have "below fs1 ?t q = tree_of [] q" for q
  proof (cases "q = []")
    case True
    then show ?thesis using wf1(3) by (auto simp: below_def tree_of_def is_dir_def t Cons_eq_append_conv)
  next
    case False
    then have "\<not> prefix (?t @ q) ?t" by (auto dest: prefix_length_le)
    then have "lookup fs1 (?t @ q) = lookup ?fs0 (?t @ q)" using fs1 unfolding paved_def by blast
    then show ?thesis using False by (simp add: below_def tree_of_def)
  qed
  then have "below fs1 ?t = tree_of []" by blast
  moreover from this have "lookup fs1 ?t = Some Dir" using fun_cong [of _ _ "[]"] by (fastforce simp: below_def tree_of_def)
  ultimately show "holds_docs ?t fs1 [] fs1" using wf1(1) by (simp add: holds_docs_def only_in_def)
qed

lemma holds_docs_workable:
  assumes w: "workable home p fs1" and h: "holds_docs (tmp_key home i p') fs1 bs fs2"
  shows "workable home p fs2"
proof -
  have "\<not> prefix (tmp_key home i p') (path_key home @ [c])" for c by (auto simp: tmp_key_def release_key_def)
  then have "lookup fs2 (path_key home @ [c]) = lookup fs1 (path_key home @ [c])" for c
    using h by (simp add: holds_docs_def only_in_def)
  then show ?thesis using w h by (simp add: workable_def own_names_def home_keys holds_docs_def only_in_def is_dir_def)
qed

lemma tmp_dir_path:
  fixes home :: string and i :: int and p :: nat
  assumes "home \<noteq> []"
  defines "tmp \<equiv> tmp_dir (path_join [home, ''releases'']) (int_dec i) p"
  shows "tmp \<noteq> []" "path_key tmp = tmp_key home i p" "tmp_key home i p \<noteq> []"
    "clean_comps (is_abs tmp) (comps tmp) \<noteq> []"
proof -
  show t: "tmp \<noteq> []" "path_key tmp = tmp_key home i p" "tmp_key home i p \<noteq> []"
    using path_key_tmp_dir [OF assms(1)] path_join_ne [OF path_join_ne [OF assms(1)]]
    by (simp_all add: tmp_def tmp_dir_def tmp_key_def release_key_def)
  have "length (tmp_key home i p) \<ge> 2" by (simp add: tmp_key_def release_key_def)
  then show "clean_comps (is_abs tmp) (comps tmp) \<noteq> []"
    unfolding t(2) [symmetric] path_key_def by (auto split: if_splits)
qed

text \<open>Into an empty temporary directory: the archive, the check, the installation.\<close>

lemma calm_unpack:
  fixes w2 :: world
  assumes e: "faultless e" and s: "serves e server host token cur bs" and home: "home \<noteq> []"
    and work: "workable home (pid e) fs1" and w2: "files w2 = drop_tree (tmp_key home (cr_id cur) (pid e)) fs1"
    and asks: "asked_only sent0 w2" and want: "set want = fst ` set bs"
    and N: "\<And>w'. delivered server home token cur sent0 w' \<Longrightarrow> served home (files w') = tree_of bs \<Longrightarrow> N () w'"
  shows "wp (unpack server home host token cur (cr_resync cur) (path_join [home, ''releases''])
      (tmp_dir (path_join [home, ''releases'']) (int_dec (cr_id cur)) (pid e)) want) E N e w2"
proof -
  let ?rd = "path_join [home, ''releases'']" and ?t = "tmp_key home (cr_id cur) (pid e)"
  let ?tmp = "tmp_dir ?rd (int_dec (cr_id cur)) (pid e)" and ?stop = "give_up server host token (cr_id cur)"
  note tmp = tmp_dir_path [OF home, of "cr_id cur" "pid e"]
  have docs: "map sd_path (elems (cr_docs cur)) = map fst bs" "cr_hash cur = content_hash bs" "sound_docs bs"
    using s by (simp_all add: serves_def)
  have way: "wf_fs (files w2)" "clear_way (files w2) (path_key ?tmp)" "path_key ?tmp \<noteq> []"
    using ready_tmp(1) [OF work, of "cr_id cur" "pid e"] work tmp(3) unfolding tmp(2) w2 by (auto simp: workable_def wf_fs_drop)
  show ?thesis
    unfolding unpack_def Let_def
  proof (rule wp_checked, rule calm_mkdir_all [OF e way])
    fix w3 assume w3: "leads w2 (files w3) w3" and paved: "paved (path_key ?tmp) (files w2) (files w3)"
    note fresh = ready_tmp(2,3) [OF work paved [unfolded tmp(2) w2]]
    have a3: "asked_only sent0 w3" by (rule asked_only_cong [OF asks]) (use w3 in \<open>simp add: leads_def\<close>)
    obtain r where r: "reply e (steps w3) (get_request (archive_url server (cr_id cur)) token) = Inr r" "accepted r"
        "rs_events r = tar_files bs"
      using s by (auto simp: serves_def)
    show "wp (checked (fetchAndExtractArchive server token (cr_id cur) ?tmp want) (\<lambda>err. discarding ?tmp (?stop err)) (\<lambda>_.
      checked (hash_check ?tmp cur) (\<lambda>err. discarding ?tmp (?stop err)) (\<lambda>_.
      install server home host token cur (cr_resync cur) ?rd ?tmp))) E N e w3"
      unfolding fetchAndExtractArchive_def
    proof (rule wp_checked, rule wp_bindT, rule calm_api_fetch [OF r(1,2)], unfold r(3), rule calm_extractTar [OF e tmp docs(3) want])
      fix w4 assume w4: "asked w3 (get_request (archive_url server (cr_id cur)) token) w4"
      then have a4: "asked_only sent0 w4" and f4: "files w4 = files w3"
        using asked_only_get [OF a3] by (auto simp: asked_def)
      show "holds_docs ?t (files w3) [] (files w4)" using fresh(2) by (simp add: f4)
      fix w5 :: world assume w5: "sent w5 = sent w4" "holds_docs ?t (files w3) bs (files w5)"
      show "wp (checked (hash_check ?tmp cur) (\<lambda>err. discarding ?tmp (?stop err)) (\<lambda>_.
        install server home host token cur (cr_resync cur) ?rd ?tmp)) E N e w5"
      proof (rule wp_checked, rule calm_hash_check [OF e tmp(1,2) docs w5(2)])
        fix w6 assume "leads w5 (files w5) w6"
        then have w6: "files w6 = files w5" "sent w6 = sent w4" using w5(1) by (simp_all add: leads_def)
        show "wp (install server home host token cur (cr_resync cur) ?rd ?tmp) E N e w6"
        proof (rule calm_install [OF e home _ asked_only_cong [OF a4 w6(2)] tmp(2) _ docs(2)])
          show "workable home (pid e) (files w6)" using holds_docs_workable [OF fresh(1) w5(2)] by (simp add: w6(1))
          show "below (files w6) ?t = tree_of bs" using w5(2) by (simp add: w6(1) holds_docs_def)
        qed (rule N)
      qed
    qed
  qed
qed

lemma served_want:
  assumes s: "serves e server host token cur bs" and home: "home \<noteq> []"
  obtains want where "set want = fst ` set bs"
    "buildWantSet (tmp_dir (path_join [home, ''releases'']) (int_dec (cr_id cur)) p) (elems (cr_docs cur)) = Inr want"
proof -
  note tmp = tmp_dir_path [OF home, of "cr_id cur" p]
  have "map sd_path (elems (cr_docs cur)) = map fst bs" "sound_docs bs" using s by (simp_all add: serves_def)
  then have paths: "sd_path ` set (elems (cr_docs cur)) = fst ` set bs" "\<forall>pb \<in> set bs. entry_path_ok (fst pb)"
    by (metis list.set_map) (use \<open>sound_docs bs\<close> in \<open>simp add: sound_docs_def\<close>)
  then have "\<forall>d \<in> set (elems (cr_docs cur)). entry_path_ok (sd_path d)" by (metis (no_types, lifting) imageE imageI)
  then obtain want where want: "buildWantSet (tmp_dir (path_join [home, ''releases'']) (int_dec (cr_id cur)) p) (elems (cr_docs cur)) = Inr want"
    using buildWantSet_accepts [OF tmp(1,4)] by blast
  then show thesis using that buildWantSet_ok(1) [OF want tmp(1)] paths(1) by simp
qed

lemma calm_materialize:
  assumes e: "faultless e" and s: "serves e server host token cur bs" and home: "home \<noteq> []"
    and ready: "ready home (pid e) (files w)" and asks: "asked_only sent0 w"
    and N: "\<And>w'. delivered server home token cur sent0 w' \<Longrightarrow> served home (files w') = tree_of bs \<Longrightarrow> N () w'"
  shows "wp (materialize server home host token cur (cr_resync cur)) E N e w"
proof -
  let ?rd = "path_join [home, ''releases'']" and ?t = "tmp_key home (cr_id cur) (pid e)"
  let ?tmp = "tmp_dir ?rd (int_dec (cr_id cur)) (pid e)"
  let ?rel = "path_key home @ [''releases'']" and ?stop = "give_up server host token (cr_id cur)"
  have rel: "path_key ?rd = ?rel" by (rule path_key_releases [OF home])
  obtain want where want: "set want = fst ` set bs" "buildWantSet ?tmp (elems (cr_docs cur)) = Inr want"
    by (rule served_want [OF s home])
  have start: "wf_fs (files w)" "clear_way (files w) (path_key ?rd)" "path_key ?rd \<noteq> []"
    using ready by (simp_all add: ready_def rel)
  show ?thesis
    unfolding materialize_def Let_def
  proof (rule wp_checked, rule calm_mkdir_all [OF e start], rule wp_bindT, rule wp_get_pid, rule wp_checked)
    fix w1 assume w1: "leads w (files w1) w1" "paved (path_key ?rd) (files w) (files w1)"
    have "lookup (files w1) (path_key home @ [c]) = lookup (files w) (path_key home @ [c])" if "c \<noteq> ''releases''" for c
      using w1(2) that unfolding paved_def rel by (auto simp: prefix_append prefix_Cons)
    then have work: "workable home (pid e) (files w1)"
      using ready w1(2) by (simp add: workable_def ready_def own_names_def home_keys paved_def rel)
    show "wp (lift_result (buildWantSet ?tmp (elems (cr_docs cur)))) (\<lambda>x. wp (?stop x) E N e)
      (\<lambda>want. wp (discarding ?tmp (unpack server home host token cur (cr_resync cur) ?rd ?tmp want)) E N e) e w1"
      unfolding want(2) lift_result_Inr discarding_def
    proof (rule wp_ret, rule wp_tryT, rule calm_remove_all [OF e], unfold tmp_dir_path(2) [OF home])
      fix w2 assume "leads w1 (drop_tree ?t (files w1)) w2"
      then have w2: "files w2 = drop_tree ?t (files w1)" "sent w2 = sent w" using w1 by (simp_all add: leads_def)
      show "wp (unpack server home host token cur (cr_resync cur) ?rd ?tmp want) E N e w2"
        by (rule calm_unpack [OF e s home work w2(1) asked_only_cong [OF asks w2(2)] want(1)]) (rule N)
    qed
  qed
qed

text \<open>Removing the marker, if a resync was asked for; before the first installation the home may be missing.\<close>

lemma ready_home:
  assumes "ready home p fs" "\<not> is_dir fs (path_key home)"
  shows "\<exists>q. List.find (\<lambda>q. \<not> is_dir fs q) (ancestors (marker_key home)) = Some q \<and> lookup fs q = None"
proof -
  have "path_key home \<in> set (ancestors (marker_key home))"
    using assms(2) by (auto simp: set_ancestors marker_key_def is_dir_def strict_prefix_def)
  then obtain q where q: "List.find (\<lambda>q. \<not> is_dir fs q) (ancestors (marker_key home)) = Some q"
    using assms(2) by (metis find_None_iff not_None_eq)
  then have "q \<in> set (ancestors (marker_key home))" "\<not> is_dir fs q" by (auto simp: find_Some_iff)
  then have "prefix q (path_key home @ [''releases''])" "\<not> is_dir fs q"
    by (auto simp: set_ancestors marker_key_def strict_prefix_def prefix_append prefix_Cons)
  then show ?thesis using q assms(1) by (auto simp: ready_def clear_way_def)
qed

lemma calm_clear_marker:
  assumes e: "faultless e" and home: "home \<noteq> []" and ready: "ready home p (files w)"
    and N: "\<And>w'. ready home p (files w') \<Longrightarrow> sent w' = sent w
       \<Longrightarrow> (if resync then lookup (files w') (marker_key home) = None else files w' = files w) \<Longrightarrow> N resync w'"
  shows "wp (clear_marker resync (path_join [home, ''.applied''])) E N e w"
  unfolding clear_marker_def
proof (rule wp_if)
  assume r: resync
  let ?m = "marker_key home" and ?p = "path_join [home, ''.applied'']"
  have key: "path_key ?p = ?m" using home by simp
  have own: "lookup (files w) ?m \<noteq> Some Dir" using ready by (auto simp: ready_def own_names_def)
  have gone: "N True w'" if "lookup (files w) ?m = None" "leads w (files w) w'" for w'
    using N [of w'] that ready r by (simp add: leads_def)
  show "wp (tryT (os_remove ?p) (\<lambda>r. case r of
          Inl err \<Rightarrow> if is_not_exist err then ret True else fail err | Inr _ \<Rightarrow> ret True)) E N e w"
  proof (cases "is_dir (files w) (path_key home)")
    case True
    have place: "place (files w) (path_key ?p)"
      using ready True by (simp add: key place_def marker_key_def ready_def Cons_eq_append_conv)
    have "N True w'" if "leads w (drop_tree ?m (files w)) w'" for w'
    proof -
      have "ready home p (drop_tree ?m (files w))"
        using ready unfolding ready_def clear_way_def own_names_def
        by (auto simp: wf_fs_drop is_dir_def home_keys prefix_append prefix_Cons)
      then show ?thesis using N [of w'] that r by (simp add: leads_def)
    qed
    then show ?thesis
      by (intro wp_tryT calm_unlink [OF e place]) (use own gone in \<open>auto simp: key intro!: wp_ret\<close>)
  next
    case False
    obtain q where q: "List.find (\<lambda>q. \<not> is_dir (files w) q) (ancestors ?m) = Some q" "lookup (files w) q = None"
      using ready_home [OF ready False] by blast
    have "lookup (files w) ?m = None"
      using ready False wf_fs_parent [of "files w" "path_key home"] by (cases "lookup (files w) ?m") (auto simp: ready_def marker_key_def)
    then show ?thesis
      unfolding os_remove_def
      by (intro wp_tryT calm_miss [where x = "NotExist ?p", OF e])
         (use q gone in \<open>auto simp: at_path_def walk_error_def key intro!: wp_ret\<close>)
  qed
qed (use N ready in \<open>auto intro!: wp_ret\<close>)

lemma calm_converge_on:
  assumes e: "faultless e" and s: "serves e server host token cur bs" and home: "home \<noteq> []"
    and ready: "ready home (pid e) (files w)" and asks: "asked_only sent0 w"
    and N: "\<And>w'. delivered server home token cur sent0 w' \<Longrightarrow> served home (files w') = tree_of bs
         \<or> \<not> cr_resync cur \<and> marked home cur (files w) \<and> files w' = files w \<Longrightarrow> N () w'"
  shows "wp (converge_on server home host token cur) E N e w"
  unfolding converge_on_def Let_def
proof (rule wp_checked, rule calm_clear_marker [OF e home ready])
  fix w1 :: world
  assume w1: "ready home (pid e) (files w1)" "sent w1 = sent w"
    "if cr_resync cur then lookup (files w1) (marker_key home) = None else files w1 = files w"
  show "wp (bindT (readApplied (path_join [home, ''.applied''])) (\<lambda>applied.
      if applied = Some (int_dec (cr_id cur), cr_hash cur) then heartbeat server host token (cr_id cur) True [] False
      else materialize server home host token cur (cr_resync cur))) E N e w1"
  proof (rule wp_bindT, rule wp_readApplied, rule wp_if)
    fix r w2 assume b: "becomes w1 (files w1) w2"
      and m: "\<And>x. r = Some x \<Longrightarrow> \<exists>m. lookup (files w1) (path_key (path_join [home, ''.applied''])) = Some (File m) \<and> parse_marker m = Some x"
    have w2: "files w2 = files w1" "asked_only sent0 w2"
      using b asked_only_cong [OF asks, of w2] w1(2) by (simp_all add: becomes_def)
    show "wp (materialize server home host token cur (cr_resync cur)) E N e w2"
      by (rule calm_materialize [OF e s home _ w2(2)]) (use w1(1) w2(1) N in auto)
    assume "r = Some (int_dec (cr_id cur), cr_hash cur)"
    then have mk: "marked home cur (files w1)" using m home by (simp add: marked_def)
    then have r: "\<not> cr_resync cur" "files w1 = files w" using w1(3) by (auto simp: marked_def split: if_splits)
    show "wp (heartbeat server host token (cr_id cur) True [] False) E N e w2"
      by (rule wp_ok_report [OF w2(2)]) (use mk r w2(1) N in auto)
  qed
qed

lemma calm_converge:
  assumes "faultless e" "serves e server host token cur bs" "home \<noteq> []" "ready home (pid e) (files w)"
  shows "wp (converge server home host token) (\<lambda>_ _. False)
    (\<lambda>u w'. delivered server home token cur (sent w) w' \<and> (served home (files w') = tree_of bs
       \<or> \<not> cr_resync cur \<and> marked home cur (files w) \<and> files w' = files w)) e w"
proof -
  have start: "asked_only (sent w) w" by (simp add: asked_only_def)
  have "wp (fetchCurrent server host token) (\<lambda>_ _. False)
      (\<lambda>c w'. c = cur \<and> asked w (get_request (current_url server host) token) w') e w"
  proof -
    obtain r where r: "reply e (steps w) (get_request (current_url server host) token) = Inr r" "accepted r"
        "decode_current (rs_body r) = Some cur"
      using assms(2) by (auto simp: serves_def offered_def)
    show ?thesis unfolding fetchCurrent_def by (intro wp_bindT calm_api_fetch [OF r(1,2)]) (simp add: r(3) wp_ret)
  qed
  then show ?thesis
    unfolding converge_def
    by (intro wp_checked, elim wp_conseq)
       (use assms asked_only_get [OF start] in \<open>auto simp: asked_def intro!: calm_converge_on\<close>)
qed

text \<open>C12: A pass without failures succeeds.  When no call of the operating system fails and the server answers
  with a release and the documents it lists, a pass ends in the report of success for that release, whatever
  the host had installed and whatever earlier passes left behind: the marker names the release, and the
  corpus holds exactly its documents with exactly their bytes (unless the marker already named it and no
  resync was asked for: then the files stay as they are).\<close>

theorem converge_delivers:
  assumes "faultless e" "serves e server host token cur bs" "home \<noteq> []" "ready home (pid e) (files w)"
  shows "\<exists>w'. converge server home host token e w = (Inr (), w')
    \<and> marked home cur (files w')
    \<and> (served home (files w') = tree_of bs \<or> \<not> cr_resync cur \<and> marked home cur (files w) \<and> files w' = files w)
    \<and> (\<exists>gets b. sent w' = sent w @ gets @ [heartbeat_request server token b] \<and> (\<forall>rq \<in> set gets. rq_method rq = ''GET'')
         \<and> hb_release b = cr_id cur \<and> hb_ok b \<and> hb_error b = None \<and> hb_resync b = cr_resync cur)"
  using calm_converge [OF assms] by (elim wp_elim) (auto simp: delivered_def)

text \<open>A host without anything, and a server with one release of one document.\<close>

lemma decode_current_print:
  assumes "json_ok v" "json_depth v \<le> max_depth"
  shows "decode_current (print_json v @ [CHR 0x0A]) = dec_cur v zero_cur"
proof -
  have "runes (print_json v @ [CHR 0x0A]) = runes (print_json v) @ [(10, [CHR 0x0A])]"
    using print_json_valid [OF assms(1)] by (simp add: runes_append runes_ascii_Cons)
  moreover have "parse_value max_depth (runes (print_json v) @ [(10, [CHR 0x0A])]) = Some (v, [(10, [CHR 0x0A])])"
    by (rule parse_value_print [OF assms]) (simp add: stops_def)
  ultimately show ?thesis by (simp add: decode_current_def decode_first_def)
qed

lemma release_keys [simp]:
  "fold_key ''release_id'' = ''release_id''" "fold_key ''content_hash'' = ''content_hash''"
  "fold_key ''created_at'' = ''created_at''" "fold_key ''docs'' = ''docs''" "fold_key ''resync'' = ''resync''"
  "fold_key ''path'' = ''path''" "fold_key ''sha256'' = ''sha256''"
  by (simp_all add: runes_literal fold_chunk_def)

definition sample_bodies :: "(string \<times> string) list" where
  "sample_bodies = [(''a.md'', ''text'')]"

definition sample_cur :: cur_release where
  "sample_cur = \<lparr>cr_id = 3, cr_hash = content_hash sample_bodies,
     cr_docs = Some [\<lparr>sd_path = ''a.md'', sd_sha = hex_encode (sha256 ''text'')\<rparr>], cr_resync = False\<rparr>"

definition sample_json :: json where
  "sample_json = JObj
     [(''release_id'', json_int 3), (''content_hash'', JStr (content_hash sample_bodies)),
      (''docs'', JArr [JObj [(''path'', JStr ''a.md''), (''sha256'', JStr (hex_encode (sha256 ''text'')))]])]"

definition sample_server :: os_env where
  "sample_server = calm_os\<lparr>reply := \<lambda>n rq. Inr
     \<lparr>rs_status = 200, rs_status_text = ''200 OK'', rs_protocol = [''1''],
      rs_body = print_json sample_json @ [CHR 0x0A], rs_events = tar_files sample_bodies\<rparr>\<rparr>"

lemma sample_decode: "decode_current (print_json sample_json @ [CHR 0x0A]) = Some sample_cur"
proof -
  have "is_ascii (hex_encode s)" for s using hex_encode_visible [of _ s] by (force simp: is_ascii_def list_all_iff)
  moreover have "is_ascii (content_hash bs)" for bs by (rule is_word_ascii [OF is_word_content_hash])
  ultimately have "json_ok sample_json"
    by (auto simp: sample_json_def json_int_def valid_utf8_ascii)
  moreover have "json_depth sample_json \<le> max_depth"
    by (simp add: sample_json_def json_int_def max_depth_def)
  moreover have "parse_int64 (int_dec 3) = Some 3" by (simp add: parse_int64_int_dec int64_range_def)
  then have "dec_cur sample_json zero_cur = Some sample_cur"
    by (simp add: sample_json_def sample_cur_def json_int_def zero_cur_def zero_sub_doc_def)
  ultimately show ?thesis by (simp add: decode_current_print)
qed

lemma sample_serves: "serves sample_server ''http://s'' ''h'' [] sample_cur sample_bodies"
proof -
  have "comps ''a.md'' = [''a.md'']" by (rule comps_single) (simp add: proper_def)
  moreover have "\<not> is_abs ''a.md''" by (simp add: is_abs_def)
  ultimately have "sound_docs sample_bodies"
    by (simp add: sound_docs_def sample_bodies_def entry_path_ok_def)
  then show ?thesis
    by (auto simp: serves_def offered_def sample_server_def accepted_def sample_decode subscriberProtocolVersion_def)
      (auto simp: sample_cur_def sample_bodies_def)
qed

theorem converge_delivers_witness:
  "\<exists>w'. converge ''http://s'' ''k'' ''h'' [] sample_server \<lparr>files = [], sent = [], steps = 0, trail = []\<rparr> = (Inr (), w')
     \<and> served ''k'' (files w') [''a.md''] = Some (File ''text'')"
proof -
  let ?w = "\<lparr>files = [], sent = [], steps = 0, trail = []\<rparr>"
  have e: "faultless sample_server" by (simp add: faultless_def sample_server_def calm_os_def)
  have "ready ''k'' (pid sample_server) (files ?w)"
    by (simp add: ready_def wf_fs_def clear_way_def own_names_def lookup_def)
  from converge_delivers [OF e sample_serves _ this]
  obtain w' where w': "converge ''http://s'' ''k'' ''h'' [] sample_server ?w = (Inr (), w')"
      "served ''k'' (files w') = tree_of sample_bodies \<or> marked ''k'' sample_cur []"
    by auto
  moreover have "\<not> marked ''k'' sample_cur []" by (simp add: marked_def lookup_def)
  moreover have "tree_of sample_bodies [''a.md''] = Some (File ''text'')"
  proof -
    have "comps ''a.md'' = [''a.md'']" by (rule comps_single) (simp add: proper_def)
    then show ?thesis by (simp add: tree_of_def sample_bodies_def)
  qed
  ultimately show ?thesis by auto
qed

end
