(* ===== verification/Wire.thy ===== *)
theory Wire
  imports Delivery ServerProps
begin

text \<open>
  What survives the way between subscriber and server: a host id in the query string
  (\<open>url.QueryEscape\<close> against \<open>ParseQuery\<close>), and the time of a release as JSON text.
\<close>

section \<open>The query string\<close>

lemma hex_digit_upper: "n < 16 \<Longrightarrow> hex_digit_val (hex_upper n) = Some n"
  by (auto simp: hex_digit_val_def hex_upper_def Let_def)

lemma query_char_plain:
  assumes "c' \<in> set (query_char c)"
  shows "c' \<notin> {CHR ''&'', CHR '';'', CHR ''='', CHR ''?'', CHR ''#''}"
proof -
  have "(of_char c :: nat) div 16 < 16" "(of_char c :: nat) mod 16 < 16" by simp_all
  then have "hex_upper ((of_char c :: nat) div 16) \<notin> {CHR ''&'', CHR '';'', CHR ''='', CHR ''?'', CHR ''#''}"
      "hex_upper ((of_char c :: nat) mod 16) \<notin> {CHR ''&'', CHR '';'', CHR ''='', CHR ''?'', CHR ''#''}"
    using hex_digit_upper [of "(of_char c :: nat) div 16"] hex_digit_upper [of "(of_char c :: nat) mod 16"]
    by (auto simp: hex_digit_val_def Let_def)
  then show ?thesis using assms by (auto simp: query_char_def Let_def split: if_splits)
qed

lemma query_unescape_hex:
  "query_unescape ([CHR ''%'', hex_upper ((of_char c :: nat) div 16), hex_upper ((of_char c :: nat) mod 16)] @ s)
     = map_option (\<lambda>u. c # u) (query_unescape s)"
proof -
  have "(of_char c :: nat) div 16 < 16" "(of_char c :: nat) mod 16 < 16" by simp_all
  moreover have "char_of (16 * ((of_char c :: nat) div 16) + (of_char c :: nat) mod 16) = c" by simp
  ultimately show ?thesis by (simp add: hex_digit_upper del: mult_div_mod_eq)
qed

lemma query_unescape_char: "query_unescape (query_char c @ s) = map_option (\<lambda>u. c # u) (query_unescape s)"
proof (cases "query_char c = [CHR ''%'', hex_upper ((of_char c :: nat) div 16), hex_upper ((of_char c :: nat) mod 16)]")
  case True
  then show ?thesis by (simp only: query_unescape_hex)
next
  case False
  then show ?thesis by (auto simp: query_char_def Let_def split: if_splits)
qed

lemma query_unescape_escape: "query_unescape (query_escape s) = Some s"
  by (induction s) (auto simp: query_escape_def query_unescape_char)

lemma query_escape_plain: "c \<in> set (query_escape s) \<Longrightarrow> c \<notin> {CHR ''&'', CHR '';'', CHR ''='', CHR ''?'', CHR ''#''}"
  unfolding query_escape_def set_concat set_map using query_char_plain by blast

lemma query_get_host:
  assumes "hr_query r = (if host \<noteq> [] then ''host='' @ query_escape host else [])"
  shows "query_get r ''host'' = host"
proof (cases "host = []")
  case True
  then show ?thesis using assms by (simp add: query_get_def parse_query_def query_pair_def List.map_filter_simps)
next
  case False
  let ?kv = "''host='' @ query_escape host"
  have "set ?kv \<inter> {CHR ''&'', CHR '';''} = {}" using query_escape_plain [of _ host] by auto
  then have split: "split_on (CHR ''&'') ?kv = [?kv]" and semi: "CHR '';'' \<notin> set ?kv"
    using split_on_free [of "CHR ''&''" ?kv] by auto
  have "cut_pair ?kv = (''host'', query_escape host)" by (simp add: cut_pair_def)
  moreover have "query_unescape ''host'' = Some ''host''" by code_simp
  ultimately have "query_pair ?kv = Some (''host'', host)"
    using semi by (simp add: query_pair_def query_unescape_escape)
  then show ?thesis
    using assms False split by (simp add: query_get_def parse_query_def List.map_filter_simps)
qed

section \<open>The time of a release\<close>

lemma is_ascii_Cons: "is_ascii (c # s) \<longleftrightarrow> (of_char c :: nat) < 128 \<and> is_ascii s"
  by (simp add: is_ascii_def)

lemma digit_ascii: "digit_val c = Some n \<Longrightarrow> (of_char c :: nat) < 128"
  by (auto simp: digit_val_def Let_def split: if_splits)

lemma year_ascii: "year_num s = Some (y, t) \<Longrightarrow> is_ascii t \<Longrightarrow> is_ascii s"
  by (induction s rule: year_num.induct) (auto simp: is_ascii_Cons digit_ascii split: option.splits)

lemma getnum_ascii: "getnum fixed s = Some (x, t) \<Longrightarrow> is_ascii t \<Longrightarrow> is_ascii s"
  by (induction fixed s rule: getnum.induct) (auto simp: is_ascii_Cons digit_ascii split: option.splits if_splits)

lemma expect_ascii: "expect c s = Some t \<Longrightarrow> is_ascii t \<Longrightarrow> (of_char c :: nat) < 128 \<Longrightarrow> is_ascii s"
  by (cases s) (auto simp: is_ascii_Cons split: if_splits)

lemma digits_ascii: "is_ascii (dropWhile (\<lambda>c. digit_val c \<noteq> None) s) \<Longrightarrow> is_ascii s"
  by (induction s) (auto simp: is_ascii_Cons digit_ascii split: if_splits)

lemma skip_fraction_ascii: "is_ascii (skip_fraction s) \<Longrightarrow> is_ascii s"
proof (induction s rule: skip_fraction.induct)
  case (1 p d rest)
  show ?case
  proof (cases "(p = CHR ''.'' \<or> p = CHR '','') \<and> digit_val d \<noteq> None")
    case True
    then have "is_ascii rest" using 1 digits_ascii [of rest] by simp
    then show ?thesis using True digit_ascii [of d] by (auto simp: is_ascii_Cons)
  next
    case False
    then show ?thesis using 1 by (simp only: skip_fraction.simps if_False)
  qed
qed simp_all

lemma zone_ascii: "zone_ok s \<Longrightarrow> is_ascii s"
proof -
  assume z: "zone_ok s"
  show ?thesis
  proof (cases "\<exists>a b c d e f. s = [a, b, c, d, e, f]")
    case True
    then show ?thesis using z by (auto simp: is_ascii_Cons is_ascii_def digit_ascii split: option.splits)
  next
    case False
    then have "s = ''Z''" using z by (elim zone_ok.elims(2)) simp_all
    then show ?thesis by (simp add: is_ascii_def)
  qed
qed

lemma accept_iff: "accept x k \<longleftrightarrow> (\<exists>a. x = Some a \<and> k a)"
  by (cases x) auto

lemma clock_ascii: "clock_ok s \<Longrightarrow> is_ascii s"
proof -
  assume "clock_ok s"
  then obtain h s1 s2 mi s3 s4 sec s5 where
    r: "getnum False s = Some (h, s1)" "expect (CHR '':'') s1 = Some s2" "getnum True s2 = Some (mi, s3)"
      "expect (CHR '':'') s3 = Some s4" "getnum True s4 = Some (sec, s5)" "zone_ok (skip_fraction s5)"
    unfolding clock_ok_def accept_iff by auto
  have "is_ascii s5" by (rule skip_fraction_ascii [OF zone_ascii [OF r(6)]])
  then have "is_ascii s4" by (rule getnum_ascii [OF r(5)])
  then have "is_ascii s3" by (rule expect_ascii [OF r(4)]) simp
  then have "is_ascii s2" by (rule getnum_ascii [OF r(3)])
  then have "is_ascii s1" by (rule expect_ascii [OF r(2)]) simp
  then show ?thesis by (rule getnum_ascii [OF r(1)])
qed

lemma rfc3339_ascii: "rfc3339_ok s \<Longrightarrow> is_ascii s"
proof -
  assume "rfc3339_ok s"
  then obtain y s1 s2 m s3 s4 d s5 s6 where
    r: "year_num s = Some (y, s1)" "expect (CHR ''-'') s1 = Some s2" "getnum True s2 = Some (m, s3)"
      "expect (CHR ''-'') s3 = Some s4" "getnum True s4 = Some (d, s5)" "expect (CHR ''T'') s5 = Some s6" "clock_ok s6"
    unfolding rfc3339_ok_def accept_iff by auto
  have "is_ascii s6" by (rule clock_ascii [OF r(7)])
  then have "is_ascii s5" by (rule expect_ascii [OF r(6)]) simp
  then have "is_ascii s4" by (rule getnum_ascii [OF r(5)])
  then have "is_ascii s3" by (rule expect_ascii [OF r(4)]) simp
  then have "is_ascii s2" by (rule getnum_ascii [OF r(3)])
  then have "is_ascii s1" by (rule expect_ascii [OF r(2)]) simp
  then show ?thesis by (rule year_ascii [OF r(1)])
qed

end
