(* ===== verification/Requests.thy ===== *)
theory Requests
  imports Converge
begin

text \<open>
  The requests of a pass.  Whatever the operating system answers, every request a pass sends goes below
  \<open>/api/\<close> of the server it was given and carries that server's token or none; so any policy that
  such requests satisfy is satisfied by all traffic of the subscriber.
\<close>

section \<open>What an action sends\<close>

definition sends :: "(request \<Rightarrow> bool) \<Rightarrow> 'a os \<Rightarrow> bool" where
  "sends P m \<longleftrightarrow> (\<forall>e w. \<exists>new. sent (snd (m e w)) = sent w @ new \<and> list_all P new)"

named_theorems sends_rules "what is sent, one rule per construct"

lemma sends_silent: "(\<And>e w. sent (snd (m e w)) = sent w) \<Longrightarrow> sends P m"
  by (simp add: sends_def)

lemma sends_ret [sends_rules]: "sends P (ret x)"
  by (simp add: sends_silent ret_def)

lemma sends_fail [sends_rules]: "sends P (fail x)"
  by (simp add: sends_silent fail_def)

lemma sends_lift_result [sends_rules]: "sends P (lift_result r)"
  by (simp add: sends_silent lift_result_def)

lemma sends_os_step [sends_rules]: "sends P (os_step damage f)"
  by (rule sends_silent) (simp add: os_step_def Let_def split: option.splits sum.splits prod.splits)

lemma sends_get_pid [sends_rules]: "sends P get_pid"
  by (simp add: sends_silent get_pid_def)

lemma sends_http_do: "P rq \<Longrightarrow> sends P (http_do rq)"
  by (simp add: sends_def http_do_def)

lemma sends_tryT [sends_rules]:
  assumes "sends P m" "\<And>r. sends P (k r)"
  shows "sends P (tryT m k)"
  unfolding sends_def
proof (intro allI)
  fix e w
  obtain r w1 where m: "m e w = (r, w1)" by (cases "m e w")
  obtain a where "sent w1 = sent w @ a" "list_all P a" using assms(1) m unfolding sends_def by (metis snd_conv)
  moreover obtain b where "sent (snd (k r e w1)) = sent w1 @ b" "list_all P b" using assms(2) unfolding sends_def by metis
  ultimately show "\<exists>new. sent (snd (tryT m k e w)) = sent w @ new \<and> list_all P new"
    by (intro exI [of _ "a @ b"]) (simp add: tryT_def m)
qed

lemma bindT_tryT: "bindT m k = tryT m (\<lambda>r. case r of Inl x \<Rightarrow> fail x | Inr a \<Rightarrow> k a)"
  by (rule ext)+ (simp add: bindT_def tryT_def fail_def split: sum.splits prod.splits)

lemma sends_case_sum [sends_rules]:
  "(\<And>x. sends P (f x)) \<Longrightarrow> (\<And>a. sends P (g a)) \<Longrightarrow> sends P (case r of Inl x \<Rightarrow> f x | Inr a \<Rightarrow> g a)"
  by (cases r) auto

lemma sends_bindT [sends_rules]: "sends P m \<Longrightarrow> (\<And>a. sends P (k a)) \<Longrightarrow> sends P (bindT m k)"
  unfolding bindT_tryT by (intro sends_rules)

lemma sends_case_option [sends_rules]:
  "sends P m \<Longrightarrow> (\<And>a. sends P (f a)) \<Longrightarrow> sends P (case x of None \<Rightarrow> m | Some a \<Rightarrow> f a)"
  by (cases x) auto

lemma sends_if [sends_rules]: "sends P m \<Longrightarrow> sends P m' \<Longrightarrow> sends P (if b then m else m')"
  by simp

lemma sends_for_each [sends_rules]: "(\<And>x. sends P (f x)) \<Longrightarrow> sends P (for_each f xs)"
  by (induction xs) (auto intro: sends_rules)

lemma sends_wrapped [sends_rules]: "sends P m \<Longrightarrow> sends P (wrapped msg m)"
  unfolding wrapped_def by (intro sends_rules)

lemma sends_checked [sends_rules]:
  "sends P m \<Longrightarrow> (\<And>x. sends P (stop x)) \<Longrightarrow> (\<And>a. sends P (k a)) \<Longrightarrow> sends P (checked m stop k)"
  unfolding checked_def by (intro sends_rules)

section \<open>The silent parts of a pass\<close>

lemmas os_calls = os_lstat_def os_read_file_def os_mkdir_def os_mkdir_all_def os_remove_def os_remove_all_def
  os_create_def os_write_def os_close_def os_write_file_def os_symlink_def os_rename_def

lemma sends_os [sends_rules]:
  "sends P (os_lstat p)" "sends P (os_read_file p)" "sends P (os_mkdir_all p)" "sends P (os_remove p)"
  "sends P (os_remove_all p)" "sends P (os_create p)" "sends P (os_write p b)" "sends P os_close"
  "sends P (os_write_file p b)" "sends P (os_symlink q p)" "sends P (os_rename p q)"
  unfolding os_calls by (intro sends_rules)+

lemma sends_extract [sends_rules]: "sends P (extractTar evs destDir want)"
proof -
  have "sends P (extract_events destDir want seen evs)" for seen
  proof (induction evs arbitrary: seen)
    case (Cons ev evs)
    show ?case
      by (cases ev) (simp_all add: extract_entry_def tar_copy_def sends_rules Cons.IH)
  qed (simp add: sends_ret)
  then show ?thesis unfolding extractTar_def by (intro sends_rules)
qed

lemma sends_fresh [sends_rules]: "sends P (freshReleaseDir fuel releasesDir ident)"
proof -
  have "sends P (fresh_search fuel n releasesDir ident)" for n
    by (induction fuel arbitrary: n) (auto simp: Let_def intro!: sends_rules)
  then show ?thesis unfolding freshReleaseDir_def Let_def by (intro sends_rules)
qed

lemma sends_pick_dir [sends_rules]: "sends P (pick_dir releasesDir ident)"
proof -
  have "sends P (\<lambda>e w. freshReleaseDir (enough_fuel (files w)) releasesDir ident e w)"
    using sends_fresh by (auto simp: sends_def)
  then show ?thesis unfolding pick_dir_def by (intro sends_rules)
qed

lemma sends_hash_check [sends_rules]: "sends P (hash_check tmpDir cur)"
proof -
  have "sends P (hash_docs tmpDir docs h)" for docs h
    by (induction docs arbitrary: h) (auto intro!: sends_rules)
  then show ?thesis unfolding hash_check_def recomputeContentHash_def by (intro sends_rules)
qed

lemma sends_corpus [sends_rules]:
  "sends P (flipCorpus home d)" "sends P (readApplied p)" "sends P (writeApplied p ident hash)" "sends P (clear_marker b p)"
  unfolding flipCorpus_def readApplied_def writeApplied_def clear_marker_def Let_def by (intro sends_rules)+

section \<open>The requests\<close>

text \<open>A policy that every request to the API of the server satisfies.\<close>

locale request_policy =
  fixes P :: "request \<Rightarrow> bool" and server token :: string
  assumes gets: "P (get_request (server @ ''/api/'' @ path) token)"
    and reports: "P (heartbeat_request server token b)"
begin

lemma sends_get: "sends P (api_fetch (server @ ''/api/'' @ path) token)"
  unfolding api_fetch_def apiGet_def by (intro sends_rules sends_http_do gets)

lemma sends_current: "sends P (fetchCurrent server host token)"
  using sends_get [of "''releases/current'' @ (if host \<noteq> [] then ''?host='' @ query_escape host else [])"]
  unfolding fetchCurrent_def current_url_def by (intro sends_rules) simp

lemma sends_archive: "sends P (fetchAndExtractArchive server token releaseID destDir want)"
  using sends_get [of "''releases/'' @ int_dec releaseID @ ''/archive''"]
  unfolding fetchAndExtractArchive_def archive_url_def by (intro sends_rules) simp

lemma sends_report: "sends P (Fetch.heartbeat server host token releaseID good msg resyncApplied)"
  unfolding Fetch.heartbeat_def by (intro sends_rules sends_http_do reports)

lemma sends_materialize: "sends P (materialize server home host token cur resyncFired)"
  unfolding materialize_def unpack_def install_def give_up_def discarding_def Let_def
  by (intro sends_rules sends_archive sends_report)

lemma sends_converge: "sends P (converge server home host token)"
  unfolding converge_def converge_on_def give_up_def Let_def
  by (intro sends_rules sends_current sends_report sends_materialize)

end

text \<open>Below \<open>/api/\<close> of the server, with its token and no other.\<close>

definition addressed :: "string \<Rightarrow> string \<Rightarrow> request \<Rightarrow> bool" where
  "addressed server token rq \<longleftrightarrow> (\<exists>path. rq_url rq = server @ ''/api/'' @ path)
     \<and> filter (\<lambda>h. fst h = ''Authorization'') (rq_headers rq) = bearer token"

interpretation api: request_policy "addressed server token" server token for server token
  by unfold_locales
    (auto simp: addressed_def get_request_def heartbeat_request_def bearer_def subscriberProtocolHeader_def)

end
