(* ===== verification/GoUrl.thy ===== *)
theory GoUrl
  imports GoNet
begin

text \<open>
  Go's \<open>net/url\<close> as far as the subscriber uses it on its server address: \<open>Parse\<close> with the errors it can
  end in, and of its result the scheme and the host (\<open>URL.Hostname\<close>).  The lemmas at the end say which
  text of a URL decides them.
\<close>

section \<open>Escapes\<close>

datatype url_part = InHost | InZone | Elsewhere

definition ascii_alnum :: "char \<Rightarrow> bool" where
  "ascii_alnum c =
     (let n = of_char c :: nat in (48 \<le> n \<and> n \<le> 57) \<or> (65 \<le> n \<and> n \<le> 90) \<or> (97 \<le> n \<and> n \<le> 122))"

text \<open>The characters that may stand for themselves in a host (\<open>shouldEscape\<close>).\<close>

definition host_char :: "char \<Rightarrow> bool" where
  "host_char c = (ascii_alnum c \<or> c \<in> set (CHR 0x22 # CHR 0x27 # ''!$&()*+,;=:[]<>-_.~'') \<or> 128 \<le> (of_char c :: nat))"

definition escape_error :: "string \<Rightarrow> string" where
  "escape_error s = ''invalid URL escape '' @ go_quote s"

fun unescape :: "url_part \<Rightarrow> string \<Rightarrow> string + string" where
  "unescape part [] = Inr []"
| "unescape part (c # s) =
     (if c = CHR ''%'' then
        (case s of
           a # b # t \<Rightarrow>
             (case (hex_digit_val a, hex_digit_val b) of
                (Some m, Some n) \<Rightarrow>
                  if part = InHost \<and> m < 8 \<and> [a, b] \<noteq> ''25'' then Inl (escape_error [c, a, b])
                  else if part = InZone \<and> [a, b] \<noteq> ''25'' \<and> 16 * m + n \<noteq> 32
                     \<and> (128 \<le> 16 * m + n \<or> \<not> host_char (char_of (16 * m + n)))
                  then Inl (escape_error [c, a, b])
                  else (case unescape part t of Inl err \<Rightarrow> Inl err | Inr u \<Rightarrow> Inr (char_of (16 * m + n) # u))
              | _ \<Rightarrow> Inl (escape_error [c, a, b]))
         | _ \<Rightarrow> Inl (escape_error (c # s)))
      else if part \<noteq> Elsewhere \<and> \<not> host_char c
      then Inl (''invalid character '' @ go_quote [c] @ '' in host name'')
      else (case unescape part s of Inl err \<Rightarrow> Inl err | Inr u \<Rightarrow> Inr (c # u)))"

section \<open>The authority\<close>

fun valid_optional_port :: "string \<Rightarrow> bool" where
  "valid_optional_port [] = True"
| "valid_optional_port (c # s) = (c = CHR '':'' \<and> list_all (\<lambda>d. digit_val d \<noteq> None) s)"

definition last_index :: "char \<Rightarrow> string \<Rightarrow> nat option" where
  "last_index c s =
     (if c \<in> set s then Some (length s - Suc (length (takeWhile (\<lambda>d. d \<noteq> c) (rev s)))) else None)"

fun sub_index :: "string \<Rightarrow> string \<Rightarrow> nat option" where
  "sub_index [] p = (if p = [] then Some 0 else None)"
| "sub_index (c # s) p = (if has_prefix (c # s) p then Some 0 else map_option Suc (sub_index s p))"

definition port_error :: "string \<Rightarrow> string" where
  "port_error p = ''invalid port '' @ go_quote p @ '' after host''"

definition parse_host :: "string \<Rightarrow> string + string" where
  "parse_host host =
     (if has_prefix host ''['' then
        (case last_index (CHR '']'') host of
           None \<Rightarrow> Inl ''missing ']' in host''
         | Some i \<Rightarrow>
             if \<not> valid_optional_port (drop (Suc i) host) then Inl (port_error (drop (Suc i) host))
             else
               (case sub_index (take i host) ''%25'' of
                  None \<Rightarrow> unescape InHost host
                | Some z \<Rightarrow>
                    (case unescape InHost (take z host) of Inl err \<Rightarrow> Inl err | Inr h1 \<Rightarrow>
                     case unescape InZone (drop z (take i host)) of Inl err \<Rightarrow> Inl err | Inr h2 \<Rightarrow>
                     case unescape InHost (drop i host) of Inl err \<Rightarrow> Inl err | Inr h3 \<Rightarrow> Inr (h1 @ h2 @ h3))))
      else
        (case last_colon host of
           None \<Rightarrow> unescape InHost host
         | Some i \<Rightarrow>
             if \<not> valid_optional_port (drop i host) then Inl (port_error (drop i host))
             else unescape InHost host))"

definition valid_userinfo :: "string \<Rightarrow> bool" where
  "valid_userinfo s = list_all (\<lambda>c. ascii_alnum c \<or> c \<in> set (CHR 0x27 # ''-._:~!$&()*+,;=%@'')) s"

text \<open>The user information is checked and left aside; the value is the host.\<close>

definition parse_authority :: "string \<Rightarrow> string + string" where
  "parse_authority authority =
     (case last_index (CHR ''@'') authority of
        None \<Rightarrow> parse_host authority
      | Some i \<Rightarrow>
          (case parse_host (drop (Suc i) authority) of
             Inl err \<Rightarrow> Inl err
           | Inr host \<Rightarrow>
               (let info = take i authority;
                    name = takeWhile (\<lambda>c. c \<noteq> CHR '':'') info;
                    pass = drop (Suc (length name)) info
                in if \<not> valid_userinfo info then Inl ''net/url: invalid userinfo''
                   else (case unescape Elsewhere name of Inl err \<Rightarrow> Inl err | Inr _ \<Rightarrow>
                         case unescape Elsewhere pass of Inl err \<Rightarrow> Inl err | Inr _ \<Rightarrow> Inr host))))"

section \<open>\<open>url.Parse\<close>\<close>

record go_url =
  u_scheme :: string
  u_host :: string

definition ascii_letter :: "char \<Rightarrow> bool" where
  "ascii_letter c = (let n = of_char c :: nat in (65 \<le> n \<and> n \<le> 90) \<or> (97 \<le> n \<and> n \<le> 122))"

definition scheme_char :: "char \<Rightarrow> bool" where
  "scheme_char c = (ascii_alnum c \<or> c \<in> {CHR ''+'', CHR ''-'', CHR ''.''})"

definition lower_char :: "char \<Rightarrow> char" where
  "lower_char c = (let n = of_char c :: nat in if 65 \<le> n \<and> n \<le> 90 then char_of (n + 32) else c)"

definition get_scheme :: "string \<Rightarrow> string + string \<times> string" where
  "get_scheme raw =
     (let name = takeWhile scheme_char raw in
      case drop (length name) raw of
        [] \<Rightarrow> Inr ([], raw)
      | d # rest \<Rightarrow>
          if name \<noteq> [] \<and> \<not> ascii_letter (hd name) then Inr ([], raw)
          else if d \<noteq> CHR '':'' then Inr ([], raw)
          else if name = [] then Inl ''missing protocol scheme''
          else Inr (name, rest))"

definition before_char :: "char \<Rightarrow> string \<Rightarrow> string" where
  "before_char c s = takeWhile (\<lambda>d. d \<noteq> c) s"

definition after_char :: "char \<Rightarrow> string \<Rightarrow> string" where
  "after_char c s = drop (Suc (length (before_char c s))) s"

text \<open>Behind the scheme; \<open>rest\<close> has lost its query.\<close>

definition parse_rest :: "string \<Rightarrow> string \<Rightarrow> string + go_url" where
  "parse_rest scheme rest =
     (if \<not> has_prefix rest ''/'' \<and> scheme \<noteq> [] then Inr \<lparr>u_scheme = scheme, u_host = []\<rparr>
      else if \<not> has_prefix rest ''/'' \<and> CHR '':'' \<in> set (before_char (CHR ''/'') rest)
      then Inl ''first path segment in URL cannot contain colon''
      else
        (let authority = (scheme \<noteq> [] \<or> \<not> has_prefix rest ''///'') \<and> has_prefix rest ''//'';
             auth = before_char (CHR ''/'') (drop 2 rest);
             path = (if authority then drop (length auth) (drop 2 rest) else rest)
         in case (if authority then parse_authority auth else Inr []) of
              Inl err \<Rightarrow> Inl err
            | Inr host \<Rightarrow>
                (case unescape Elsewhere path of
                   Inl err \<Rightarrow> Inl err
                 | Inr _ \<Rightarrow> Inr \<lparr>u_scheme = scheme, u_host = host\<rparr>)))"

definition parse_url :: "string \<Rightarrow> string + go_url" where
  "parse_url raw =
     (if list_ex (\<lambda>c. (of_char c :: nat) < 32 \<or> of_char c = (127 :: nat)) raw
      then Inl ''net/url: invalid control character in URL''
      else if raw = ''*'' then Inr \<lparr>u_scheme = [], u_host = []\<rparr>
      else
        (case get_scheme raw of
           Inl err \<Rightarrow> Inl err
         | Inr (scheme, rest) \<Rightarrow> parse_rest (map lower_char scheme) (before_char (CHR ''?'') rest)))"

definition url_error :: "string \<Rightarrow> string \<Rightarrow> string" where
  "url_error u err = ''parse '' @ go_quote u @ '': '' @ err"

definition url_Parse :: "string \<Rightarrow> string + go_url" where
  "url_Parse raw =
     (let u = before_char (CHR ''#'') raw in
      case parse_url u of
        Inl err \<Rightarrow> Inl (url_error u err)
      | Inr url \<Rightarrow>
          (case unescape Elsewhere (after_char (CHR ''#'') raw) of
             Inl err \<Rightarrow> Inl (url_error raw err)
           | Inr _ \<Rightarrow> Inr url))"

text \<open>\<open>URL.Hostname\<close>: without the port and without brackets.\<close>

definition Hostname :: "go_url \<Rightarrow> string" where
  "Hostname u =
     (let hp = u_host u;
          h = (case last_colon hp of
                 Some i \<Rightarrow> if valid_optional_port (drop i hp) then take i hp else hp
               | None \<Rightarrow> hp)
      in if has_prefix h ''['' \<and> h \<noteq> [] \<and> last h = CHR '']'' then drop 1 (butlast h) else h)"

section \<open>The text that decides\<close>

lemma before_char_append: "c \<notin> set a \<Longrightarrow> before_char c (a @ s) = a @ before_char c s"
  by (auto simp: before_char_def takeWhile_append)

lemma before_char_split: "\<exists>t. s = before_char c s @ t \<and> (t = [] \<or> hd t = c)"
  unfolding before_char_def by (metis (full_types) hd_dropWhile takeWhile_dropWhile_id)

lemma not_in_before_char: "c \<notin> set (before_char c s)"
  by (auto simp: before_char_def dest: set_takeWhileD)

lemma before_char_subset: "set (before_char c s) \<subseteq> set s"
  by (auto simp: before_char_def dest: set_takeWhileD)

lemma before_char_stop: "hd s = c \<Longrightarrow> before_char c s = []"
  by (cases s) (simp_all add: before_char_def)

definition scheme_name :: "string \<Rightarrow> bool" where
  "scheme_name n \<longleftrightarrow> n \<noteq> [] \<and> ascii_letter (hd n) \<and> list_all scheme_char n"

lemma scheme_name_free: "scheme_name n \<Longrightarrow> CHR '':'' \<notin> set n \<and> CHR ''#'' \<notin> set n \<and> CHR ''?'' \<notin> set n \<and> CHR ''*'' \<notin> set n"
  by (auto simp: scheme_name_def list_all_iff scheme_char_def ascii_alnum_def)

lemma get_scheme_name:
  assumes "get_scheme s = Inr (n, r)" "n \<noteq> []"
  shows "scheme_name n \<and> s = n @ CHR '':'' # r"
proof -
  let ?n = "takeWhile scheme_char s"
  have s: "s = ?n @ drop (length ?n) s" by (simp add: dropWhile_eq_drop [symmetric])
  obtain d where d: "drop (length ?n) s = d # r" "n = ?n" "ascii_letter (hd ?n)" "d = CHR '':''"
    using assms by (auto simp: get_scheme_def Let_def split: list.splits if_splits)
  then have "list_all scheme_char n" by (auto simp: list_all_iff dest: set_takeWhileD)
  then show ?thesis using d s assms(2) by (metis scheme_name_def)
qed

lemma get_scheme_of: "scheme_name n \<Longrightarrow> get_scheme (n @ CHR '':'' # r) = Inr (n, r)"
  by (auto simp: get_scheme_def scheme_name_def list_all_iff takeWhile_append scheme_char_def ascii_alnum_def)

text \<open>What ends an authority.\<close>

definition ends_authority :: "string \<Rightarrow> bool" where
  "ends_authority t \<longleftrightarrow> t = [] \<or> hd t \<in> {CHR ''/'', CHR ''?'', CHR ''#''}"

definition authority :: "string \<Rightarrow> bool" where
  "authority a \<longleftrightarrow> set a \<inter> {CHR ''/'', CHR ''?'', CHR ''#''} = {}"

lemma parse_rest_scheme: "parse_rest sch rest = Inr u \<Longrightarrow> u_scheme u = sch"
  by (auto simp: parse_rest_def Let_def split: if_splits sum.splits)

lemma parse_rest_authority:
  assumes "parse_rest sch rest = Inr u" "u_host u \<noteq> []"
  obtains a t where "rest = ''//'' @ a @ t" "t = [] \<or> hd t = CHR ''/''" "CHR ''/'' \<notin> set a" "parse_authority a = Inr (u_host u)"
proof -
  let ?a = "before_char (CHR ''/'') (drop 2 rest)"
  have "has_prefix rest ''//'' \<and> parse_authority ?a = Inr (u_host u)"
    using assms by (auto simp: parse_rest_def Let_def split: if_splits sum.splits)
  then have "rest = ''//'' @ drop 2 rest" "parse_authority ?a = Inr (u_host u)" by (auto simp: has_prefix_iff)
  then show thesis using that before_char_split [of "drop 2 rest" "CHR ''/''"] not_in_before_char by metis
qed

lemma parse_rest_host:
  assumes "parse_rest sch (''//'' @ a @ t) = Inr u" "sch \<noteq> []" "CHR ''/'' \<notin> set a" "t = [] \<or> hd t = CHR ''/''"
  shows "parse_authority a = Inr (u_host u)"
proof -
  have "before_char (CHR ''/'') (a @ t) = a"
    using assms(3,4) by (auto simp: before_char_append before_char_stop) (simp add: before_char_def)
  then show ?thesis using assms(1,2)
    by (auto simp: parse_rest_def Let_def split: if_splits sum.splits)
qed

lemma url_Parse_parts:
  assumes "url_Parse s = Inr u" "u_scheme u \<noteq> []"
  obtains n r where "scheme_name n" "before_char (CHR ''#'') s = n @ CHR '':'' # r"
    "parse_rest (map lower_char n) (before_char (CHR ''?'') r) = Inr u" "u_scheme u = map lower_char n"
proof -
  let ?b = "before_char (CHR ''#'') s"
  have "parse_url ?b = Inr u" using assms(1) by (auto simp: url_Parse_def Let_def split: sum.splits)
  then obtain n r where nr: "get_scheme ?b = Inr (n, r)" "parse_rest (map lower_char n) (before_char (CHR ''?'') r) = Inr u"
    using assms(2) by (auto simp: parse_url_def split: if_splits sum.splits prod.splits)
  then have "n \<noteq> []" using parse_rest_scheme assms(2) by fastforce
  then show thesis using that get_scheme_name [OF nr(1)] nr(2) parse_rest_scheme by blast
qed

lemma url_Parse_of:
  assumes "url_Parse (n @ CHR '':'' # r) = Inr u" "scheme_name n"
  shows "parse_rest (map lower_char n) (before_char (CHR ''?'') (before_char (CHR ''#'') r)) = Inr u"
proof -
  have b: "before_char (CHR ''#'') (n @ CHR '':'' # r) = n @ CHR '':'' # before_char (CHR ''#'') r"
    using scheme_name_free [OF assms(2)] before_char_append [of "CHR ''#''" "n @ '':''" r] by simp
  have "parse_url (n @ CHR '':'' # before_char (CHR ''#'') r) = Inr u"
    using assms(1) by (auto simp: url_Parse_def Let_def b split: sum.splits)
  moreover have "n @ CHR '':'' # q \<noteq> ''*''" for q using assms(2) by (cases n) (auto simp: scheme_name_def)
  ultimately show ?thesis by (auto simp: parse_url_def get_scheme_of [OF assms(2)] split: if_splits)
qed

text \<open>A URL has the scheme of its beginning, and with a host its authority.\<close>

lemma url_scheme:
  assumes "url_Parse s = Inr u" "u_scheme u \<noteq> []"
  obtains n r where "scheme_name n" "s = n @ CHR '':'' # r" "u_scheme u = map lower_char n"
proof -
  obtain n r where nr: "scheme_name n" "before_char (CHR ''#'') s = n @ CHR '':'' # r" "u_scheme u = map lower_char n"
    using url_Parse_parts [OF assms] by blast
  moreover obtain t where "s = before_char (CHR ''#'') s @ t" using before_char_split by blast
  ultimately have "s = n @ CHR '':'' # (r @ t)" by simp
  with nr that show thesis by blast
qed

lemma url_scheme_of: "url_Parse (n @ CHR '':'' # r) = Inr u \<Longrightarrow> scheme_name n \<Longrightarrow> u_scheme u = map lower_char n"
  using url_Parse_of parse_rest_scheme by blast

lemma url_authority:
  assumes "url_Parse s = Inr u" "u_scheme u \<noteq> []" "u_host u \<noteq> []"
  obtains n a t where "scheme_name n" "s = n @ ''://'' @ a @ t" "authority a" "ends_authority t"
    "u_scheme u = map lower_char n" "parse_authority a = Inr (u_host u)"
proof -
  obtain n r where nr: "scheme_name n" "before_char (CHR ''#'') s = n @ CHR '':'' # r"
      "parse_rest (map lower_char n) (before_char (CHR ''?'') r) = Inr u" "u_scheme u = map lower_char n"
    using url_Parse_parts [OF assms(1,2)] by blast
  obtain a t where at: "before_char (CHR ''?'') r = ''//'' @ a @ t" "t = [] \<or> hd t = CHR ''/''" "CHR ''/'' \<notin> set a"
      "parse_authority a = Inr (u_host u)"
    by (rule parse_rest_authority [OF nr(3) assms(3)])
  obtain q where q: "r = before_char (CHR ''?'') r @ q" "q = [] \<or> hd q = CHR ''?''" using before_char_split by blast
  obtain f where f: "s = before_char (CHR ''#'') s @ f" "f = [] \<or> hd f = CHR ''#''" using before_char_split by blast
  have "s = n @ ''://'' @ a @ (t @ q @ f)" using f(1) q(1) at(1) nr(2) by simp
  moreover have "ends_authority (t @ q @ f)" using at(2) q(2) f(2) by (auto simp: ends_authority_def hd_append)
  moreover have "CHR ''?'' \<notin> set a" using not_in_before_char [of "CHR ''?''" r] at(1) by auto
  moreover have "CHR ''#'' \<notin> set a"
    using not_in_before_char [of "CHR ''#''" s] nr(2) before_char_subset [of "CHR ''?''" r] at(1) by auto
  ultimately show thesis using that nr(1,4) at(3,4) by (auto simp: authority_def)
qed

lemma url_authority_of:
  assumes "url_Parse (n @ ''://'' @ a @ t) = Inr u" "scheme_name n" "authority a" "ends_authority t"
  shows "parse_authority a = Inr (u_host u)"
proof -
  let ?t = "before_char (CHR ''?'') (before_char (CHR ''#'') t)"
  have "before_char (CHR ''?'') (before_char (CHR ''#'') (''//'' @ a @ t)) = ''//'' @ a @ ?t"
    using assms(3) before_char_append [of _ "''//'' @ a"] by (simp add: authority_def)
  moreover have "?t = [] \<or> hd ?t = CHR ''/''"
    using assms(4) by (cases t) (auto simp: ends_authority_def before_char_def)
  ultimately show ?thesis
    using url_Parse_of [of n "''//'' @ a @ t"] assms(1-3) parse_rest_host [of "map lower_char n" a ?t u]
    by (auto simp: authority_def scheme_name_def)
qed

lemma trim_right_append: "a \<noteq> [] \<Longrightarrow> last a \<noteq> c \<Longrightarrow> trim_right c (a @ s) = a @ trim_right c s"
  by (cases a rule: rev_cases) (auto simp: trim_right_def dropWhile_append)

lemma trim_right_prefix: "\<exists>t. s = trim_right c s @ t"
  by (metis rev_append rev_rev_ident takeWhile_dropWhile_id trim_right_def)

text \<open>So a request below the address, with its last slashes removed, goes where the address says.\<close>

lemma same_scheme:
  assumes "url_Parse s = Inr u" "u_scheme u \<noteq> []" "url_Parse (trim_right (CHR ''/'') s @ p) = Inr v"
  shows "u_scheme v = u_scheme u"
proof -
  obtain n r where nr: "scheme_name n" "s = n @ CHR '':'' # r" "u_scheme u = map lower_char n"
    by (rule url_scheme [OF assms(1,2)])
  have "trim_right (CHR ''/'') s = n @ CHR '':'' # trim_right (CHR ''/'') r"
    using trim_right_append [of "n @ '':''" "CHR ''/''" r] by (simp add: nr(2))
  then show ?thesis using url_scheme_of [of n "trim_right (CHR ''/'') r @ p"] assms(3) nr by simp
qed

lemma same_host:
  assumes "url_Parse s = Inr u" "u_scheme u \<noteq> []" "u_host u \<noteq> []"
    and "url_Parse (trim_right (CHR ''/'') s @ CHR ''/'' # p) = Inr v"
  shows "u_host v = u_host u"
proof -
  obtain n a t where nat: "scheme_name n" "s = n @ ''://'' @ a @ t" "authority a" "ends_authority t"
      "parse_authority a = Inr (u_host u)"
    using url_authority [OF assms(1-3)] by blast
  have "a \<noteq> []" using nat(5) assms(3) by (auto simp: parse_authority_def parse_host_def last_index_def last_colon_def)
  then have "last (n @ ''://'' @ a) \<noteq> CHR ''/''" using nat(3) \<open>a \<noteq> []\<close> last_in_set [of a] by (metis Int_iff append_is_Nil_conv authority_def empty_iff insertI1 last_appendR)
  then have "trim_right (CHR ''/'') s = n @ ''://'' @ a @ trim_right (CHR ''/'') t"
    using trim_right_append [of "n @ ''://'' @ a" "CHR ''/''" t] by (simp add: nat(2))
  moreover obtain t' where "t = trim_right (CHR ''/'') t @ t'" using trim_right_prefix by blast
  then have "ends_authority (trim_right (CHR ''/'') t @ CHR ''/'' # p)"
    using nat(4) by (cases "trim_right (CHR ''/'') t") (auto simp: ends_authority_def)
  ultimately have "parse_authority a = Inr (u_host v)"
    using url_authority_of [of n a] assms(4) nat(1,3) by simp
  then show ?thesis using nat(5) by simp
qed

end
