(* ===== verification/SubStart.thy ===== *)
theory SubStart
  imports Requests GoUrl
begin

text \<open>
  The subscriber's \<open>main\<close>: its flags and their defaults, the token file, the check of the server address
  (\<open>validateServerURL\<close>), the HTTP client (\<open>newHTTPClient\<close>), and the loop of passes.  Reading PEM bundles is
  \<open>crypto/x509\<close>: whether a file holds a certificate is a parameter.  What the client does on the wire is
  the environment's \<open>reply\<close>, in which a redirect is an error like any other.
\<close>

section \<open>Flags\<close>

definition defaultHome :: "(string \<Rightarrow> string) \<Rightarrow> string" where
  "defaultHome getenv =
     (let h = getenv ''KNOWLEDGE_HOME'' in
      if h \<noteq> [] then h else path_join [getenv ''HOME'', ''.config'', ''agent-knowledge''])"

definition defaultHost :: "string + string \<Rightarrow> string" where
  "defaultHost hostname = (case hostname of Inl err \<Rightarrow> [] | Inr h \<Rightarrow> h)"

text \<open>The interval is in seconds.\<close>

record sub_flags =
  sf_server :: string
  sf_home :: string
  sf_host :: string
  sf_token_file :: string
  sf_ca_file :: string
  sf_interval :: int
  sf_once :: bool

definition sub_defaults :: "(string \<Rightarrow> string) \<Rightarrow> string + string \<Rightarrow> sub_flags" where
  "sub_defaults getenv hostname =
     \<lparr>sf_server = [], sf_home = defaultHome getenv, sf_host = defaultHost hostname, sf_token_file = [],
      sf_ca_file = [], sf_interval = 60, sf_once = False\<rparr>"

section \<open>Checks\<close>

definition isLoopbackHost :: "string \<Rightarrow> bool" where
  "isLoopbackHost host =
     (if host = ''localhost'' then True
      else (case parse_ip host of Some ip \<Rightarrow> is_loopback ip | None \<Rightarrow> False))"

definition validateServerURL :: "string \<Rightarrow> string \<Rightarrow> string + unit" where
  "validateServerURL server token =
     (if token = [] then Inr ()
      else
        (case url_Parse server of
           Inl err \<Rightarrow> Inl (''invalid -server URL: '' @ err)
         | Inr u \<Rightarrow>
             if u_scheme u = ''https'' then Inr ()
             else if u_scheme u = ''http'' \<and> isLoopbackHost (Hostname u) then Inr ()
             else Inl (''refusing to send bearer token over '' @ u_scheme u @ '' to non-loopback host '' @
                    go_quote (Hostname u) @ '' (use https, or http to a loopback address)'')))"

text \<open>A redirect is always refused; with a CA file its bundle replaces the system roots.\<close>

record http_client =
  hc_timeout :: nat
  hc_follows_redirects :: bool
  hc_root_cas :: "string option"

definition newHTTPClient :: "(string \<Rightarrow> bool) \<Rightarrow> string \<Rightarrow> http_client os" where
  "newHTTPClient has_certs caFile =
     (let hc = \<lparr>hc_timeout = 30, hc_follows_redirects = False, hc_root_cas = None\<rparr> in
      if caFile \<noteq> [] then
        bindT (wrapped ''read -ca-file'' (os_read_file caFile)) (\<lambda>pem.
        if \<not> has_certs pem then fail (OsError (''-ca-file '' @ caFile @ '': no certificates found''))
        else ret (hc\<lparr>hc_root_cas := Some pem\<rparr>))
      else ret hc)"

section \<open>\<open>main\<close>\<close>

definition read_token :: "string \<Rightarrow> string os" where
  "read_token tokenFile =
     (if tokenFile \<noteq> [] then
        bindT (wrapped ''read -token-file'' (os_read_file tokenFile)) (\<lambda>b.
        let token = trim_space b in
        if token = [] then fail (OsError (''-token-file '' @ tokenFile @ '' is empty'')) else ret token)
      else ret [])"

record sub_setup =
  su_base :: string
  su_home :: string
  su_wire_host :: string
  su_token :: string
  su_client :: http_client

definition sub_start :: "(string \<Rightarrow> bool) \<Rightarrow> sub_flags \<Rightarrow> sub_setup os" where
  "sub_start has_certs fl =
     (if sf_server fl = [] then fail (OsError ''-server is required'')
      else
        bindT (read_token (sf_token_file fl)) (\<lambda>token.
        case validateServerURL (sf_server fl) token of
          Inl err \<Rightarrow> fail (OsError err)
        | Inr _ \<Rightarrow>
            bindT (newHTTPClient has_certs (sf_ca_file fl)) (\<lambda>hc.
            ret \<lparr>su_base = trim_right (CHR ''/'') (sf_server fl), su_home = sf_home fl,
                 su_wire_host = (if token \<noteq> [] then [] else sf_host fl), su_token = token, su_client = hc\<rparr>)))"

definition sub_pass :: "sub_setup \<Rightarrow> unit os" where
  "sub_pass su = converge (su_base su) (su_home su) (su_wire_host su) (su_token su)"

text \<open>The endless loop, after \<open>n\<close> rounds of it; a pass returns nothing.\<close>

fun sub_rounds :: "nat \<Rightarrow> sub_setup \<Rightarrow> unit os" where
  "sub_rounds 0 su = ret ()"
| "sub_rounds (Suc n) su = tryT (sub_pass su) (\<lambda>_. sub_rounds n su)"

definition sub_main :: "(string \<Rightarrow> bool) \<Rightarrow> sub_flags \<Rightarrow> nat \<Rightarrow> unit os" where
  "sub_main has_certs fl n =
     bindT (sub_start has_certs fl) (\<lambda>su.
     tryT (sub_pass su) (\<lambda>_. if sf_once fl then ret () else sub_rounds n su))"

section \<open>Where the token goes\<close>

text \<open>The network cannot read it there: the URL, when it is one, is \<open>https\<close>, or a loopback host.\<close>

definition unexposed :: "string \<Rightarrow> bool" where
  "unexposed url \<longleftrightarrow>
     (case url_Parse url of
        Inl err \<Rightarrow> True
      | Inr u \<Rightarrow> u_scheme u = ''https'' \<or> u_scheme u = ''http'' \<and> loopback_text (Hostname u))"

lemma loopback_host_text: "isLoopbackHost h \<Longrightarrow> loopback_text h"
  by (rule loopback_textI) (auto simp: isLoopbackHost_def split: if_splits option.splits)

lemma Hostname_nonempty: "Hostname u \<noteq> [] \<Longrightarrow> u_host u \<noteq> []"
  by (auto simp: Hostname_def last_colon_def)

lemma validated_unexposed:
  assumes "validateServerURL server token = Inr x" "token \<noteq> []"
  shows "unexposed (trim_right (CHR ''/'') server @ CHR ''/'' # p)"
proof -
  obtain u where u: "url_Parse server = Inr u"
      "u_scheme u = ''https'' \<or> u_scheme u = ''http'' \<and> loopback_text (Hostname u)"
    using assms by (auto simp: validateServerURL_def loopback_host_text split: sum.splits if_splits)
  then have sch: "u_scheme u \<noteq> []" by auto
  have "u_scheme v = ''https'' \<or> u_scheme v = ''http'' \<and> loopback_text (Hostname v)"
    if v: "url_Parse (trim_right (CHR ''/'') server @ CHR ''/'' # p) = Inr v" for v
  proof (cases "u_scheme u = ''https''")
    case False
    then have h: "loopback_text (Hostname u)" using u(2) by simp
    then have "u_host u \<noteq> []" using loopback_text_nonempty Hostname_nonempty by blast
    then have "u_host v = u_host u" using same_host [OF u(1) sch _ v] by simp
    then show ?thesis using h u(2) same_scheme [OF u(1) sch v] by (simp add: Hostname_def)
  qed (simp add: same_scheme [OF u(1) sch v])
  then show ?thesis by (simp add: unexposed_def split: sum.split)
qed

text \<open>What start-up establishes, without a request.\<close>

definition token_of :: "fs \<Rightarrow> string \<Rightarrow> string \<Rightarrow> bool" where
  "token_of fs tokenFile token \<longleftrightarrow>
     (if tokenFile = [] then token = []
      else token \<noteq> [] \<and> (\<exists>b. lookup fs (path_key tokenFile) = Some (File b) \<and> token = trim_space b))"

definition set_up :: "sub_flags \<Rightarrow> fs \<Rightarrow> sub_setup \<Rightarrow> bool" where
  "set_up fl fs su \<longleftrightarrow> token_of fs (sf_token_file fl) (su_token su)
     \<and> su_base su = trim_right (CHR ''/'') (sf_server fl)
     \<and> (\<exists>x. validateServerURL (sf_server fl) (su_token su) = Inr x)
     \<and> (su_token su \<noteq> [] \<longrightarrow> su_wire_host su = [])
     \<and> \<not> hc_follows_redirects (su_client su)"

lemma wp_read_token:
  assumes "\<And>x w'. sent w' = sent w \<Longrightarrow> E x w'"
    and "\<And>t w'. sent w' = sent w \<Longrightarrow> token_of (files w) tokenFile t \<Longrightarrow> N t w'"
  shows "wp (read_token tokenFile) E N e w"
  unfolding read_token_def Let_def
  by (intro wp_if wp_bindT wp_wrapped wp_os_read_file wp_ret wp_fail)
    (auto intro!: assms simp: token_of_def becomes_def)

lemma wp_newHTTPClient:
  assumes "\<And>x w'. sent w' = sent w \<Longrightarrow> E x w'"
    and "\<And>hc w'. sent w' = sent w \<Longrightarrow> \<not> hc_follows_redirects hc \<Longrightarrow> N hc w'"
  shows "wp (newHTTPClient has_certs caFile) E N e w"
  unfolding newHTTPClient_def Let_def
  by (intro wp_if wp_bindT wp_wrapped wp_os_read_file wp_ret wp_fail) (auto intro!: assms simp: becomes_def)

lemma wp_sub_start:
  assumes "\<And>x w'. sent w' = sent w \<Longrightarrow> E x w'"
    and "\<And>su w'. sent w' = sent w \<Longrightarrow> set_up fl (files w) su \<Longrightarrow> N su w'"
  shows "wp (sub_start has_certs fl) E N e w"
  unfolding sub_start_def
  by (intro wp_if wp_fail wp_bindT wp_read_token wp_case_sum wp_newHTTPClient wp_ret)
    (auto intro!: assms simp: set_up_def)

lemma sends_rounds: "sends P (sub_pass su) \<Longrightarrow> sends P (sub_rounds n su)"
  by (induction n) (auto intro: sends_rules)

lemma sends_passes:
  "sends (addressed (su_base su) (su_token su))
     (tryT (sub_pass su) (\<lambda>_. if once then ret () else sub_rounds n su))"
  using api.sends_converge by (intro sends_rules sends_rounds) (simp_all add: sub_pass_def)

text \<open>C6: The token never crosses the network in the clear.  Whatever the flags, the files and the answers
  are and however many passes run, every request of the subscriber with an \<open>Authorization\<close> header carries
  the token of the token file, as configured, and goes to a URL that is \<open>https\<close>, or \<open>http\<close> with a host that
  is \<open>localhost\<close>, in 127.0.0.0/8 or a loopback IPv6 address -- of the URL that is requested, not only of the
  address that was checked.  A text that is no URL
  counts as such: \<open>http.NewRequest\<close> refuses it.  Without a token file no request carries the header.\<close>

theorem token_unexposed:
  assumes "sub_main has_certs fl n e w = (r, w')" "sent w' = sent w @ new" "rq \<in> set new"
    and "(''Authorization'', v) \<in> set (rq_headers rq)"
  shows "sf_token_file fl \<noteq> [] \<and> unexposed (rq_url rq)
    \<and> (\<exists>b. lookup (files w) (path_key (sf_token_file fl)) = Some (File b) \<and> v = ''Bearer '' @ trim_space b)"
proof -
  let ?after = "\<lambda>w'. \<exists>su new. sent w' = sent w @ new \<and> list_all (addressed (su_base su) (su_token su)) new
     \<and> (new = [] \<or> set_up fl (files w) su)"
  have step: "?after w2" if "sent w1 = sent w" "set_up fl (files w) su"
      "tryT (sub_pass su) (\<lambda>_. if sf_once fl then ret () else sub_rounds n su) e w1 = (r', w2)" for su w1 w2 r'
    using sends_passes [of su "sf_once fl" n] that unfolding sends_def by (metis snd_conv)
  have "wp (sub_main has_certs fl n) (\<lambda>_. ?after) (\<lambda>_. ?after) e w"
    unfolding sub_main_def by (intro wp_bindT wp_sub_start) (auto intro!: wpI elim: step)
  then obtain su where su: "list_all (addressed (su_base su) (su_token su)) new" "set_up fl (files w) su"
    using assms(1-3) by (auto simp: wp_def split: sum.splits)
  then have a: "addressed (su_base su) (su_token su) rq" using assms(3) by (auto simp: list_all_iff)
  have "(''Authorization'', v) \<in> set (filter (\<lambda>h. fst h = ''Authorization'') (rq_headers rq))" using assms(4) by simp
  also have "filter (\<lambda>h. fst h = ''Authorization'') (rq_headers rq) = bearer (su_token su)"
    using a by (simp add: addressed_def)
  finally have "(''Authorization'', v) \<in> set (bearer (su_token su))" .
  then have t: "su_token su \<noteq> []" "v = ''Bearer '' @ su_token su" by (auto simp: bearer_def split: if_splits)
  then have "unexposed (rq_url rq)"
    using a su(2) validated_unexposed [of "sf_server fl" "su_token su"] by (auto simp: addressed_def set_up_def)
  then show ?thesis using su(2) t by (auto simp: set_up_def token_of_def split: if_splits)
qed

definition sample_flags :: sub_flags where
  "sample_flags = \<lparr>sf_server = ''http://localhost:8471/'', sf_home = ''k'', sf_host = ''h'', sf_token_file = ''t'',
     sf_ca_file = [], sf_interval = 60, sf_once = True\<rparr>"

theorem token_unexposed_witness:
  "\<exists>r w' rq. sub_main (\<lambda>_. False) sample_flags 0 calm_os \<lparr>files = [([''t''], File ''secret '')], sent = [], steps = 0, trail = []\<rparr>
       = (r, w') \<and> rq \<in> set (sent w') \<and> (''Authorization'', ''Bearer secret'') \<in> set (rq_headers rq)
     \<and> unexposed (rq_url rq)"
proof -
  let ?w = "\<lparr>files = [([''t''], File ''secret '')], sent = [], steps = 0, trail = []\<rparr>"
  let ?run = "sub_main (\<lambda>_. False) sample_flags 0 calm_os ?w"
  let ?rq = "get_request (current_url ''http://localhost:8471'' []) ''secret''"
  have start: "trim_space ''secret '' = ''secret''" "validateServerURL ''http://localhost:8471/'' ''secret'' = Inr ()"
      "trim_right (CHR ''/'') ''http://localhost:8471/'' = ''http://localhost:8471''" "path_key ''t'' = [''t'']"
    by code_simp+
  have "\<exists>rq'. sent (snd ?run) = [?rq, rq']"
    by (simp add: sub_main_def sub_start_def sample_flags_def read_token_def newHTTPClient_def sub_pass_def
        converge_def checked_def fetchCurrent_def api_fetch_def apiGet_def give_up_def Fetch.heartbeat_def wrapped_def
        http_do_def os_read_file_def os_step_def at_path_def walk_error_def ancestors_def is_dir_def lookup_def
        calm_os_def intact_def bindT_def tryT_def ret_def fail_def Let_def start)
  then obtain rq' where sent: "sent (snd ?run) = [?rq, rq']" by blast
  have rq: "?rq \<in> set [?rq, rq']" "(''Authorization'', ''Bearer secret'') \<in> set (rq_headers ?rq)"
    by (simp_all add: get_request_def bearer_def)
  show ?thesis
    using token_unexposed [OF surjective_pairing _ rq, of "\<lambda>_. False" sample_flags 0 calm_os ?w] sent rq
    by (intro exI [of _ "fst ?run"] exI [of _ "snd ?run"] exI [of _ ?rq]) simp
qed

end
