(* ===== verification/EndToEnd.thy ===== *)
theory EndToEnd
  imports Wire SubStart
begin

text \<open>
  Server and subscriber joined: the requests of a pass, answered by the server's handlers on its database,
  leave the consumer host with the server's current release.
\<close>

section \<open>The connection\<close>

text \<open>A request as \<open>net/http\<close> hands it to the server: the target behind the server's address is the path and
  the query.\<close>

definition to_hreq :: "string \<Rightarrow> request \<Rightarrow> hreq" where
  "to_hreq server rq =
     (let target = drop (length server) (rq_url rq);
          path = before_char (CHR ''?'') target
      in \<lparr>hr_method = rq_method rq, hr_path = split_on (CHR ''/'') (drop 1 path),
          hr_query = after_char (CHR ''?'') target, hr_headers = rq_headers rq, hr_body = rq_body rq\<rparr>)"

text \<open>What \<open>archive/tar\<close> reads from a body.  An archive that was cut off between two entries ends like a
  complete one: the reader takes the end of the body for the end of the archive.\<close>

fun tar_stream :: "hbody \<Rightarrow> tar_event list" where
  "tar_stream (Tar out cutoff) = map (\<lambda>x. TarEntry (te_name x) True (te_body x) None) out"
| "tar_stream (Text s) = (if s = [] then [] else [TarError ''archive/tar: invalid tar header''])"

definition to_response :: "hres \<Rightarrow> response" where
  "to_response res =
     \<lparr>rs_status = rp_code res, rs_status_text = nat_dec (rp_code res),
      rs_protocol = map snd (filter (\<lambda>h. fst h = subscriberProtocolHeader) (rp_headers res)),
      rs_body = (case rp_body res of Text s \<Rightarrow> s | Tar out cutoff \<Rightarrow> []), rs_events = tar_stream (rp_body res)\<rparr>"

text \<open>The subscriber's \<open>GET\<close> requests reach a server whose database is \<open>db\<close> and does not fail.\<close>

definition answered_by :: "os_env \<Rightarrow> string \<Rightarrow> scanner \<Rightarrow> (string \<Rightarrow> string) \<Rightarrow> auth_state option \<Rightarrow> db \<Rightarrow> bool" where
  "answered_by e server viable assets auth db \<longleftrightarrow>
     (\<forall>n rq. rq_method rq = ''GET'' \<longrightarrow>
        (\<exists>env s res s'. \<not> faulty env \<and> \<not> busy s \<and> committed s = db
           \<and> newMux viable assets auth (to_hreq server rq) env s = (Inr res, s')
           \<and> reply e n rq = Inr (to_response res)))"

text \<open>The caller's token is accepted, and its host is the one it asks for, if it asks for one.\<close>

definition admitted :: "auth_state option \<Rightarrow> db \<Rightarrow> string \<Rightarrow> string \<Rightarrow> bool" where
  "admitted auth db token host \<longleftrightarrow>
     (case auth of
        None \<Rightarrow> True
      | Some a \<Rightarrow> token \<noteq> [] \<and> (sha256 token = operatorHash a
          \<or> (\<exists>h. token_host db token = Some h \<and> host \<in> {[], h})))"

text \<open>The host the server takes the caller for, and whether it wants that host to install again.\<close>

definition caller_host :: "auth_state option \<Rightarrow> db \<Rightarrow> string \<Rightarrow> string \<Rightarrow> string" where
  "caller_host auth db token host =
     (case auth of
        None \<Rightarrow> host
      | Some a \<Rightarrow>
          if sha256 token = operatorHash a then host
          else (case token_host db token of Some h \<Rightarrow> h | None \<Rightarrow> []))"

definition resync_due :: "auth_state option \<Rightarrow> db \<Rightarrow> string \<Rightarrow> string \<Rightarrow> bool" where
  "resync_due auth db token host \<longleftrightarrow>
     caller_host auth db token host \<noteq> [] \<and> resync_pending db (caller_host auth db token host)"

section \<open>The server's answers\<close>

lemma to_hreq_get:
  assumes "set path \<inter> {CHR ''?''} = {}"
  shows "to_hreq server (get_request (server @ CHR ''/'' # path @ (if q = [] then [] else CHR ''?'' # q)) token)
    = \<lparr>hr_method = ''GET'', hr_path = split_on (CHR ''/'') path, hr_query = q,
       hr_headers = bearer token @ [(subscriberProtocolHeader, subscriberProtocolVersion)], hr_body = []\<rparr>"
proof -
  have "before_char (CHR ''?'') (CHR ''/'' # path @ (if q = [] then [] else CHR ''?'' # q)) = CHR ''/'' # path"
    using assms by (auto simp: before_char_def takeWhile_append)
  then show ?thesis by (simp add: to_hreq_def Let_def get_request_def after_char_def)
qed

lemma get_bearer:
  "hr_headers r = bearer token @ [(subscriberProtocolHeader, subscriberProtocolVersion)] \<Longrightarrow> bearer_token r = token"
  by (auto simp: bearer_token_def header_get_def header_values_def bearer_def cut_prefix_def subscriberProtocolHeader_def)

text \<open>The answer of a route that any token may ask for, to a caller that is admitted.\<close>

lemma calm_secure:
  assumes s: "\<not> busy s" "\<not> faulty env" and adm: "admitted auth (committed s) token host"
    and r: "hr_headers r = bearer token @ [(subscriberProtocolHeader, subscriberProtocolVersion)]"
    and h: "\<And>p s'. \<not> busy s' \<Longrightarrow> committed s' = committed s \<Longrightarrow> bound_host p host = Inr (caller_host auth (committed s) token host)
        \<Longrightarrow> wp (h p r (set_header subscriberProtocolHeader subscriberProtocolVersion [])) E N env s'"
  shows "wp (secure auth False (subscriberProtocol h) r) E N env s"
  unfolding secure_def
proof (rule wp_tryT, rule wp_authenticate [OF s(1), where auth = auth and r = r])
  note token = get_bearer [OF r]
  have "\<exists>p. entitled auth (committed s) r p"
  proof (cases auth)
    case (Some a)
    let ?h = "the (token_host (committed s) token)"
    let ?p = "if sha256 token = operatorHash a then operator_principal else \<lparr>is_operator = False, p_host = ?h\<rparr>"
    have "entitled auth (committed s) r ?p" using adm Some by (auto simp: entitled_def token admitted_def)
    then show ?thesis ..
  qed (simp add: entitled_def)
  then show "wp (case Inl x of Inl err \<Rightarrow> ret (writeErr [] err)
       | Inr p \<Rightarrow> if False \<and> \<not> is_operator p then ret (writeErr [] (Wrapf ErrForbidden ''operator credential required''))
           else subscriberProtocol h p r []) E N env s'"
    if "faulty env \<and> (\<exists>m. x = Opaque m) \<or> x = Sentinel ErrUnauthorized \<and> (\<forall>p. \<not> entitled auth (committed s) r p)" for x s'
    using that s(2) by auto
  fix p and s' :: "db sess" assume s': "\<not> busy s'" "committed s' = committed s" and p: "entitled auth (committed s) r p"
  have "header_values r subscriberProtocolHeader = [subscriberProtocolVersion]"
    by (auto simp: header_values_def r bearer_def subscriberProtocolHeader_def)
  moreover have "bound_host p host = Inr (caller_host auth (committed s) token host)"
    using adm p by (auto simp: admitted_def entitled_def bound_host_def caller_host_def token operator_principal_def split: option.splits if_splits)
  ultimately show "wp (case Inr p of Inl err \<Rightarrow> ret (writeErr [] err)
       | Inr p \<Rightarrow> if False \<and> \<not> is_operator p then ret (writeErr [] (Wrapf ErrForbidden ''operator credential required''))
           else subscriberProtocol h p r []) E N env s'"
    using h [OF s'] by (simp add: subscriberProtocol_def subscriberProtocolHeader_def subscriberProtocolVersion_def Let_def)
qed

text \<open>The body is the manifest of the release, with the caller's pending resync.\<close>

lemma current_answer:
  assumes s: "\<not> busy s" "\<not> faulty env" and adm: "admitted auth (committed s) token host"
    and row: "current_release (committed s) = Some row"
    and run: "newMux viable assets auth (to_hreq server (get_request (current_url server host) token)) env s = (Inr res, s')"
  shows "to_response res = \<lparr>rs_status = 200, rs_status_text = ''200'', rs_protocol = [subscriberProtocolVersion],
      rs_body = print_json (manifest_json ((stored_manifest (committed s) row)\<lparr>m_resync := resync_due auth (committed s) token host\<rparr>)) @ [CHR 0x0A],
      rs_events = [TarError ''archive/tar: invalid tar header'']\<rparr>"
proof -
  let ?r = "to_hreq server (get_request (current_url server host) token)"
  let ?m = "stored_manifest (committed s) row"
  define q where "q = (if host = [] then [] else ''host='' @ query_escape host)"
  have url: "current_url server host = server @ CHR ''/'' # ''api/releases/current'' @ (if q = [] then [] else CHR ''?'' # q)"
    by (auto simp: current_url_def q_def)
  have r: "hr_method ?r = ''GET''" "hr_path ?r = [''api'', ''releases'', ''current'']" "hr_query ?r = q"
      "hr_headers ?r = bearer token @ [(subscriberProtocolHeader, subscriberProtocolVersion)]"
    unfolding url by (subst to_hreq_get; simp)+
  have route: "find_route viable ?r = Some (Secured AnyToken (subscriberProtocol currentRelease))"
    by (simp add: find_route_def routes_def api_routes_def r method_matches_def)
  have mux: "newMux viable assets auth ?r = secure auth False (subscriberProtocol currentRelease) ?r"
    by (simp add: newMux_def route policy_operator_def)
  have host: "query_get ?r ''host'' = host" by (rule query_get_host) (simp add: r(3) q_def)
  let ?hs = "set_header subscriberProtocolHeader subscriberProtocolVersion []"
  let ?due = "resync_due auth (committed s) token host"
  let ?N = "\<lambda>res (_ :: db sess). res = writeJSON ?hs 200 (manifest_json (?m\<lparr>m_resync := ?due\<rparr>))"
  have m: "?m\<lparr>m_resync := False\<rparr> = ?m" by (simp add: stored_manifest_def Let_def)
  have "wp (newMux viable assets auth ?r) (\<lambda>_ _. False) ?N env s"
    unfolding mux
  proof (rule calm_secure [OF s adm r(4)])
    fix p and s1 :: "db sess"
    assume s1: "\<not> busy s1" "committed s1 = committed s"
      and b: "bound_host p host = Inr (caller_host auth (committed s) token host)"
    have cur: "wp CurrentRelease (\<lambda>_ _. False) (\<lambda>m s2. m = ?m \<and> \<not> busy s2 \<and> committed s2 = committed s) env s1"
      using wp_read_manifest [OF s1(1), of current_release env] s(2) row s1(2)
      unfolding CurrentRelease_def by (auto elim!: wp_conseq)
    show "wp (currentRelease p ?r ?hs) (\<lambda>_ _. False) ?N env s1"
      unfolding currentRelease_def or_err_def host b ResyncPending_def
      by (intro wp_tryT wp_conseq [OF cur])
        (auto intro!: wp_lift_result wp_if wp_tryT wp_db_query wp_ret simp: s(2) m resync_due_def)
  qed
  then have res: "?N res s" using run by (simp add: wp_def)
  have "nat_dec 200 = ''200''" by code_simp
  then show ?thesis
    by (simp add: res to_response_def writeJSON_def set_header_def subscriberProtocolHeader_def)
qed

text \<open>The archive is the files of the release.\<close>

lemma archive_answer:
  assumes s: "\<not> busy s" "\<not> faulty env" and adm: "admitted auth (committed s) token host"
    and inv: "releases_inv (committed s)" and row: "find_release (committed s) i = Some row" and i: "int64_range i"
    and run: "newMux viable assets auth (to_hreq server (get_request (archive_url server i) token)) env s = (Inr res, s')"
  shows "to_response res = \<lparr>rs_status = 200, rs_status_text = ''200'', rs_protocol = [subscriberProtocolVersion],
      rs_body = [], rs_events = tar_files (map (\<lambda>x. (re_path x, re_body x)) (release_rows (committed s) i))\<rparr>"
proof -
  let ?r = "to_hreq server (get_request (archive_url server i) token)"
  let ?rows = "release_rows (committed s) i"
  have plain: "CHR ''/'' \<notin> set (int_dec i)" "CHR ''?'' \<notin> set (int_dec i)"
    using is_word_int_dec [of i] int_dec_no_slash nat_dec_digits [of "CHR ''?''"] by (auto simp: int_dec_def)
  have split: "split_on (CHR ''/'') (''api/releases/'' @ int_dec i @ ''/archive'') = [''api'', ''releases'', int_dec i, ''archive'']"
    using split_on_append [OF plain(1), of "''archive''"] by simp
  have r: "hr_method ?r = ''GET''" "hr_path ?r = [''api'', ''releases'', int_dec i, ''archive'']"
      "hr_headers ?r = bearer token @ [(subscriberProtocolHeader, subscriberProtocolVersion)]"
    using to_hreq_get [of "''api/releases/'' @ int_dec i @ ''/archive''" server "[]" token] plain(2) split
    by (simp_all add: archive_url_def)
  have ne: "int_dec i \<noteq> []" using is_word_int_dec [of i] by (auto simp: is_word_def)
  have route: "find_route viable ?r = Some (Secured AnyToken (subscriberProtocol (archive (int_dec i))))"
    using ne by (simp add: find_route_def routes_def api_routes_def r method_matches_def)
  have mux: "newMux viable assets auth ?r = secure auth False (subscriberProtocol (archive (int_dec i))) ?r"
    by (simp add: newMux_def route policy_operator_def)
  let ?hs = "set_header subscriberProtocolHeader subscriberProtocolVersion []"
  let ?N = "\<lambda>res (_ :: db sess). res = \<lparr>rp_code = 200, rp_headers = set_header ''Content-Type'' ''application/x-tar'' ?hs,
       rp_body = Tar (map tar_of ?rows) None\<rparr>"
  have "wp (newMux viable assets auth ?r) (\<lambda>_ _. False) ?N env s"
    unfolding mux
  proof (rule calm_secure [OF s adm r(3)])
    fix p and s1 :: "db sess" assume s1: "\<not> busy s1" "committed s1 = committed s"
    have rel: "wp (Release i) (\<lambda>_ _. False) (\<lambda>_ s2. committed s2 = committed s \<and> \<not> busy s2) env s1"
      using wp_read_manifest [OF s1(1), of "\<lambda>db. find_release db i" env] s(2) row s1(2)
      unfolding Release_def by (auto elim!: wp_conseq)
    have tar: "wp (WriteArchive i) (\<lambda>_ _. False) (\<lambda>a _. a = (map tar_of ?rows, None)) env s2"
      if "\<not> busy s2" "committed s2 = committed s" for s2 :: "db sess"
      using WriteArchive_calm [OF that(1) _ s(2), of i row] inv row that(2)
      by (auto simp: wp_def split: prod.splits sum.splits)
    show "wp (archive (int_dec i) p ?r ?hs) (\<lambda>_ _. False) ?N env s1"
      unfolding archive_def or_err_def parse_int64_int_dec [OF i] option.case
      by (intro wp_tryT wp_conseq [OF rel]) (auto intro!: wp_tryT wp_conseq [OF tar] wp_ret)
  qed
  then have "?N res s" using run by (simp add: wp_def)
  moreover have "nat_dec 200 = ''200''" by code_simp
  ultimately show ?thesis
    by (simp add: to_response_def set_header_def subscriberProtocolHeader_def tar_of_def)
qed

section \<open>What the subscriber reads\<close>

definition offer :: "db \<Rightarrow> release_row \<Rightarrow> bool \<Rightarrow> cur_release" where
  "offer db row b =
     \<lparr>cr_id = r_id row, cr_hash = r_hash row,
      cr_docs = Some (map (\<lambda>x. \<lparr>sd_path = re_path x, sd_sha = re_sha x\<rparr>) (release_rows db (r_id row))), cr_resync = b\<rparr>"

definition documents :: "db \<Rightarrow> release_row \<Rightarrow> (string \<times> string) list" where
  "documents db row = map (\<lambda>x. (re_path x, re_body x)) (release_rows db (r_id row))"

lemma more_keys [simp]: "fold_key ''family_id'' = ''family_id''" "fold_key ''version'' = ''version''"
  by (simp_all add: runes_literal fold_chunk_def)

lemma is_ascii_append: "is_ascii (a @ b) \<longleftrightarrow> is_ascii a \<and> is_ascii b"
  by (auto simp: is_ascii_def)

lemma is_ascii_hex: "is_ascii (hex_encode s)"
  using hex_encode_visible [of _ s] by (force simp: is_ascii_def list_all_iff)

lemma entry_ascii: "entry_ok x \<Longrightarrow> is_ascii (re_path x) \<and> is_ascii (re_family x) \<and> is_ascii (re_sha x)"
  using valid_ident_ascii
  by (auto simp: entry_ok_def doc_path_def is_ascii_append is_ascii_Cons is_ascii_hex)

lemma manifest_read:
  assumes inv: "releases_inv db" and row: "row \<in> set (releases db)" and i: "int64_range (r_id row)"
  shows "decode_current (print_json (manifest_json ((stored_manifest db row)\<lparr>m_resync := b\<rparr>)) @ [CHR 0x0A]) = Some (offer db row b)"
proof -
  let ?rows = "release_rows db (r_id row)"
  let ?v = "manifest_json ((stored_manifest db row)\<lparr>m_resync := b\<rparr>)"
  have rel: "?rows \<noteq> []" "rfc3339_ok (r_created row)" "\<forall>x \<in> set ?rows. entry_ok x" "is_ascii (r_hash row)"
    using inv row is_word_ascii [OF is_word_content_hash] by (auto simp: releases_inv_def release_ok_def Let_def)
  have docs: "json_slice manifest_doc_json (m_docs ((stored_manifest db row)\<lparr>m_resync := b\<rparr>))
      = JArr (map (\<lambda>x. manifest_doc_json (entry_doc x)) ?rows)"
    using rel(1) by (simp add: stored_manifest_def Let_def comp_def)
  have v: "?v = JObj ([(''release_id'', json_int (r_id row)), (''content_hash'', JStr (r_hash row)), (''created_at'', JStr (r_created row)),
       (''docs'', JArr (map (\<lambda>x. manifest_doc_json (entry_doc x)) ?rows))] @ (if b then [(''resync'', JBool True)] else []))"
    unfolding manifest_json_def docs by (simp add: stored_manifest_def Let_def)
  have doc: "json_ok (manifest_doc_json (entry_doc x))" "json_depth (manifest_doc_json (entry_doc x)) \<le> 1"
      "dec_sub_doc (manifest_doc_json (entry_doc x)) zero_sub_doc = Some \<lparr>sd_path = re_path x, sd_sha = re_sha x\<rparr>"
    if "x \<in> set ?rows" for x
    using entry_ascii [of x] rel(3) that
    by (auto simp: manifest_doc_json_def entry_doc_def json_int_def valid_utf8_ascii zero_sub_doc_def)
  have "json_ok ?v"
    using doc(1) rel(2,4) rfc3339_ascii by (auto simp: v json_int_def valid_utf8_ascii)
  moreover have "json_depth ?v \<le> Suc (Suc 1)"
    unfolding v json_depth_le using doc(2) by (auto simp: json_int_def json_depth_le simp del: json_depth.simps(1,2))
  then have "json_depth ?v \<le> max_depth" by (simp add: max_depth_def)
  moreover have "dec_list dec_sub_doc zero_sub_doc (map (\<lambda>x. manifest_doc_json (entry_doc x)) xs)
      = Some (map (\<lambda>x. \<lparr>sd_path = re_path x, sd_sha = re_sha x\<rparr>) xs)" if "set xs \<subseteq> set ?rows" for xs
    using that by (induction xs) (auto simp: doc(3))
  from this [OF subset_refl] have "dec_cur ?v zero_cur = Some (offer db row b)"
    by (simp add: v offer_def zero_cur_def json_int_def parse_int64_int_dec [OF i])
  ultimately show ?thesis by (simp add: decode_current_print)
qed

lemma path_components: "valid_ident c \<Longrightarrow> valid_ident f \<Longrightarrow> comps (doc_path c f) = [c, f @ ''.md''] \<and> entry_path_ok (doc_path c f)"
proof -
  assume v: "valid_ident c" "valid_ident f"
  then have "proper c" "proper (f @ ''.md'')" "c \<noteq> ''..''"
    by (auto simp: valid_ident_def proper_def)
  moreover have "f @ ''.md'' \<noteq> ''..''" by (auto simp: append_eq_Cons_conv)
  moreover have "\<not> is_abs (doc_path c f)" using v(1) by (cases c) (auto simp: doc_path_def is_abs_def valid_ident_def)
  ultimately show "comps (doc_path c f) = [c, f @ ''.md''] \<and> entry_path_ok (doc_path c f)"
    using comps_append [of c "f @ ''.md''"] by (auto simp: doc_path_def entry_path_ok_def comps_single)
qed

lemma documents_sound:
  assumes "releases_inv db" "row \<in> set (releases db)"
  shows "sound_docs (documents db row)"
proof -
  let ?rows = "release_rows db (r_id row)"
  have rel: "\<forall>x \<in> set ?rows. entry_ok x" "distinct (map entry_family ?rows)"
    using assms by (auto simp: releases_inv_def release_ok_def Let_def)
  have c: "comps (re_path x) = [re_collection x, re_family x @ ''.md''] \<and> entry_path_ok (re_path x)" if "x \<in> set ?rows" for x
    using rel(1) that path_components by (auto simp: entry_ok_def)
  have "map (\<lambda>x. comps (re_path x)) ?rows = map ((\<lambda>(c, f). [c, f @ ''.md'']) \<circ> entry_family) ?rows"
    using c by (simp add: entry_family_def)
  then have "distinct (map (\<lambda>x. comps (re_path x)) ?rows)"
    using rel(2) by (auto simp: distinct_map inj_on_def split: prod.splits)
  then show ?thesis
    using c by (auto simp: sound_docs_def documents_def comp_def dest: prefix_length_less)
qed

section \<open>A release reaches the host\<close>

lemma current_row:
  assumes "rel_refs db" "current_release db = Some row"
  shows "row \<in> set (releases db)" "find_release db (r_id row) = Some row"
  using assms find_release_iff [OF assms(1)] by (auto simp: current_release_def split: option.splits)

lemma joined_serves:
  assumes inv: "server_inv db" and row: "current_release db = Some row" and i: "int64_range (r_id row)"
    and adm: "admitted auth db token host" and joined: "answered_by e server viable assets auth db"
  shows "serves e server host token (offer db row (resync_due auth db token host)) (documents db row)"
proof -
  let ?cur = "offer db row (resync_due auth db token host)"
  have rel: "releases_inv db" "rel_refs db" using inv by (simp_all add: server_inv_def store_invD)
  note r = current_row [OF rel(2) row]
  have answer: "\<exists>env s res s'. \<not> faulty env \<and> \<not> busy s \<and> committed s = db
           \<and> newMux viable assets auth (to_hreq server (get_request u token)) env s = (Inr res, s')
           \<and> reply e n (get_request u token) = Inr (to_response res)" for n u
    using joined unfolding answered_by_def by (auto simp: get_request_def)
  have "offered e n server host token ?cur" for n
  proof -
    obtain env s res s' where s: "\<not> faulty env" "\<not> busy s" "committed s = db"
        "newMux viable assets auth (to_hreq server (get_request (current_url server host) token)) env s = (Inr res, s')"
        "reply e n (get_request (current_url server host) token) = Inr (to_response res)"
      using answer by blast
    have a: "to_response res = \<lparr>rs_status = 200, rs_status_text = ''200'', rs_protocol = [subscriberProtocolVersion],
        rs_body = print_json (manifest_json ((stored_manifest db row)\<lparr>m_resync := resync_due auth db token host\<rparr>)) @ [CHR 0x0A],
        rs_events = [TarError ''archive/tar: invalid tar header'']\<rparr>"
      using current_answer [OF s(2,1) _ _ s(4)] adm row by (simp add: s(3))
    show ?thesis using s(5) manifest_read [OF rel(1) r(1) i] by (auto simp: offered_def a accepted_def)
  qed
  moreover have "\<exists>r. reply e n (get_request (archive_url server (cr_id ?cur)) token) = Inr r \<and> accepted r
      \<and> rs_events r = tar_files (documents db row)" for n
  proof -
    obtain env s res s' where s: "\<not> faulty env" "\<not> busy s" "committed s = db"
        "newMux viable assets auth (to_hreq server (get_request (archive_url server (r_id row)) token)) env s = (Inr res, s')"
        "reply e n (get_request (archive_url server (r_id row)) token) = Inr (to_response res)"
      using answer by blast
    have a: "to_response res = \<lparr>rs_status = 200, rs_status_text = ''200'', rs_protocol = [subscriberProtocolVersion],
        rs_body = [], rs_events = tar_files (documents db row)\<rparr>"
      using archive_answer [OF s(2,1) _ _ _ i s(4)] adm r(2) rel(1) by (simp add: s(3) documents_def)
    show ?thesis using s(5) by (simp add: offer_def a accepted_def)
  qed
  moreover have "cr_hash ?cur = content_hash (documents db row)"
    using rel(1) r(1) by (auto simp: offer_def documents_def releases_inv_def release_ok_def Let_def)
  ultimately show ?thesis
    using documents_sound [OF rel(1) r(1)] by (simp add: serves_def) (simp add: offer_def documents_def)
qed

text \<open>C4: A published release reaches the host.  When the requests of a pass are answered by the server's own
  handlers on a database with a release, the subscriber's token is accepted, and no call fails on either
  side, the pass ends in the report of success for the server's current release: the marker names it, and
  the corpus is exactly its documents, byte for byte as they are stored -- unless the host had the release
  already and no resync is due.  A resync that is due is carried out and reported as such.\<close>

theorem release_reaches_host:
  assumes "server_inv db" "current_release db = Some row" "int64_range (r_id row)"
    and "admitted auth db token host" "answered_by e server viable assets auth db"
    and "faultless e" "home \<noteq> []" "ready home (pid e) (files w)"
  shows "\<exists>w' b due. due = resync_due auth db token host \<and> converge server home host token e w = (Inr (), w')
    \<and> marked home (offer db row due) (files w')
    \<and> (served home (files w') = tree_of (documents db row)
        \<or> \<not> due \<and> marked home (offer db row due) (files w) \<and> files w' = files w)
    \<and> last (sent w') = heartbeat_request server token b
    \<and> hb_release b = r_id row \<and> hb_ok b \<and> hb_error b = None \<and> hb_resync b = due"
  using calm_converge [OF assms(6) joined_serves [OF assms(1-5)] assms(7,8)]
  by (elim wp_elim) (auto simp: delivered_def offer_def)

text \<open>A server with one release, without authentication, and a host without anything.\<close>

lemma released_example:
  obtains db row where "server_inv db" "current_release db = Some row" "r_id row = 1"
proof -
  let ?s = "idle plain_db 0" and ?e = "calm ''2024-01-01T00:00:00Z'' []"
  have inv: "server_inv (committed ?s)"
    using plain_db_inv by (simp add: server_inv_def) (simp add: plain_db_def hosts_inv_def initial_db_def)
  obtain m s' where run: "CutRelease [] ''ann'' ?e ?s = (Inr m, s')"
    using CutRelease_succeeds [of ?s ?e "[]"] plain_db_inv plain_candidate(2) by auto
  have "wp (CutRelease [] ''ann'') (\<lambda>x s'. x \<noteq> Deadlock \<and> settled server_inv history_kept (committed ?s) s')
      (\<lambda>_. settled server_inv history_kept (committed ?s)) ?e ?s"
    by (rule CutRelease_moves [OF sample_clock, unfolded moves_def, rule_format, OF _ inv]) simp
  then have "server_inv (committed s')" using run by (simp add: wp_def settled_def)
  moreover obtain n at where "committed s' = cut_db plain_db (clock_at ?e n) ''ann'' at"
    by (rule CutRelease_ok [OF _ _ run]) (use plain_db_inv in simp_all)
  then have "current_release (committed s') = Some
      \<lparr>r_id = next_id (map r_id (releases plain_db)), r_hash = m_hash (candidate_manifest (candidate_docs plain_db) (clock_at ?e n)),
       r_created = clock_at ?e n\<rparr>"
    using current_release_cut store_invD(4) [OF plain_db_inv] by simp
  moreover have "next_id (map r_id (releases plain_db)) = 1" by code_simp
  ultimately show thesis using that by simp
qed

definition joined_os :: "db \<Rightarrow> os_env" where
  "joined_os db = calm_os\<lparr>reply := \<lambda>n rq.
     (case fst (newMux (\<lambda>_. True) (\<lambda>_. []) None (to_hreq ''http://s'' rq) (calm ''2024-01-01T00:00:00Z'' []) (idle db n)) of
        Inr res \<Rightarrow> Inr (to_response res)
      | Inl err \<Rightarrow> Inl [])\<rparr>"

lemma joined_os_answers:
  assumes "server_inv db"
  shows "answered_by (joined_os db) ''http://s'' (\<lambda>_. True) (\<lambda>_. []) None db"
  unfolding answered_by_def
proof (intro allI impI)
  fix n rq
  let ?e = "calm ''2024-01-01T00:00:00Z'' []"
  obtain res s' where "newMux (\<lambda>_. True) (\<lambda>_. []) None (to_hreq ''http://s'' rq) ?e (idle db n) = (Inr res, s')"
    by (rule answersD [OF newMux_good [OF sample_clock], of "idle db n"]) (use assms in auto)
  then show "\<exists>env s res s'. \<not> faulty env \<and> \<not> busy s \<and> committed s = db
      \<and> newMux (\<lambda>_. True) (\<lambda>_. []) None (to_hreq ''http://s'' rq) env s = (Inr res, s')
      \<and> reply (joined_os db) n rq = Inr (to_response res)"
    by (intro exI [of _ ?e] exI [of _ "idle db n"] exI [of _ res] exI [of _ s']) (simp add: joined_os_def)
qed

theorem release_reaches_host_witness:
  "\<exists>db row w'. current_release db = Some row \<and> documents db row \<noteq> []
     \<and> converge ''http://s'' ''k'' ''h'' [] (joined_os db) \<lparr>files = [], sent = [], steps = 0, trail = []\<rparr> = (Inr (), w')
     \<and> served ''k'' (files w') = tree_of (documents db row)"
proof -
  let ?w = "\<lparr>files = [], sent = [], steps = 0, trail = []\<rparr>"
  obtain db row where db: "server_inv db" "current_release db = Some row" "r_id row = 1" by (rule released_example)
  have "rel_refs db" "releases_inv db" using db(1) by (simp_all add: server_inv_def store_invD)
  then have "documents db row \<noteq> []"
    using current_row(1) [OF _ db(2)] by (auto simp: documents_def releases_inv_def release_ok_def Let_def)
  moreover have "int64_range (r_id row)" "admitted None db [] ''h''" by (simp_all add: db(3) int64_range_def admitted_def)
  moreover have "faultless (joined_os db)" by (simp add: faultless_def joined_os_def calm_os_def)
  moreover have "ready ''k'' (pid (joined_os db)) (files ?w)"
    by (simp add: ready_def wf_fs_def clear_way_def own_names_def lookup_def)
  moreover have "\<not> marked ''k'' cur []" for cur by (simp add: marked_def lookup_def)
  ultimately show ?thesis
    using release_reaches_host [OF db(1,2) _ _ joined_os_answers [OF db(1)], of "[]" "''h''" "''k''" ?w] db(2) by auto
qed

end
