(* ===== verification/Spec2Isabelle.thy ===== *)
theory Spec2Isabelle
  imports ReleaseConflicts Hosts PassProps ServerProps AuthProps Startup EndToEnd
begin

text \<open>
  A verification library for the knowledge server (\<open>src/knowledge-server\<close>, in Go): a server that keeps
  versioned knowledge documents in SQLite and cuts them into immutable releases, and a subscriber that
  installs the current release on a consumer host.

  \<^bold>\<open>The program.\<close>  Three parts work together.
  \<^item> The store (\<open>store/store.go\<close>) owns the database.  Editors save document versions (\<open>SaveDoc\<close>, with an
    optimistic lock; a stale save becomes a conflict record that \<open>ResolveConflict\<close> settles), \<open>CutRelease\<close>
    lints the active documents and freezes them under a content hash, and releases are read back as a
    manifest and as a tar archive.  It also keeps the subscribers' heartbeats, force-resync flags and token
    digests.
  \<^item> The server (\<open>main.go\<close>, \<open>api.go\<close>, \<open>auth.go\<close>, \<open>ui.go\<close>) puts HTTP in front of the store: credentials,
    access policy per route, JSON in and out, error envelopes, the embedded UI.
  \<^item> The subscriber (\<open>subscriber/main.go\<close>) polls: it fetches the manifest of the current release, and unless
    its marker names that release already, extracts the archive into a fresh directory, checks the content
    hash, switches the \<open>corpus\<close> symbolic link to it, writes the marker and reports with a heartbeat.

  \<^bold>\<open>How code is modelled.\<close>  A function that has effects is an action (\<open>GoMonad\<close>): it takes an environment
  and a state and returns an error or a value, with the state after it; the error paths of the code are
  its branches, and weakest-precondition rules, one per construct, carry the proofs.  The store's state is
  the session of \<open>GoTx\<close> (committed database, working copy of the open transaction, whether the one pooled
  connection is taken), the subscriber's is the world of \<open>GoOs\<close> (file tree, requests sent, the trail of
  all states of the tree).  The environment decides by the number of each call whether it fails and what a
  failed call left behind, so a theorem about every environment covers a failure of every statement,
  \<open>Begin\<close>, \<open>Commit\<close>, system call and request.  Tables are lists of rows, rows and structs are records with a
  prefix per type, SQL statements are functions on the tables that check the schema's constraints and
  triggers.  Go strings are byte strings; \<open>int64\<close> values are integers whose range is checked where they are
  parsed; \<open>time\<close> values are the texts the clock yields.

  \<^bold>\<open>Theories and source.\<close>
  \<^item> Shared: \<open>Prelude\<close> (SQL aggregates, \<open>first_row\<close>, hint collections), \<open>GoMonad\<close>.
  \<^item> Go's library as the program uses it: \<open>GoStrings\<close>, \<open>Utf8\<close>, \<open>GoRunes\<close>, \<open>Sha256\<close>, \<open>Json\<close> (printer and
    decoder with their round trip), \<open>GoTime\<close> (RFC 3339), \<open>GoPath\<close>, \<open>GoOs\<close>, \<open>GoNet\<close> (\<open>SplitHostPort\<close>,
    \<open>ParseIP\<close>), \<open>GoUrl\<close> (\<open>url.Parse\<close>), \<open>GoErrors\<close> (sentinels and wrapping), \<open>GoTx\<close> (\<open>database/sql\<close>).
  \<^item> \<open>store.go\<close>: \<open>Db\<close> (schema and rows), \<open>DocTypes\<close> (structs and their JSON), \<open>Validate\<close>, \<open>History\<close> (what no
    operation may do to stored data), \<open>SaveTx\<close> and \<open>Docs\<close> (saving and reading documents), \<open>Conflicts\<close>,
    \<open>Releases\<close> with \<open>ReleaseFacts\<close>, \<open>ReleaseProps\<close> and \<open>ReleaseConflicts\<close>, \<open>Hosts\<close>; \<open>Open\<close> is in \<open>Startup\<close>.
  \<^item> \<open>api.go\<close>, \<open>auth.go\<close>, \<open>ui.go\<close>, \<open>main.go\<close>: \<open>Http\<close> (requests, responses, bodies), \<open>Auth\<close>, \<open>Handlers\<close> (one
    definition per handler, and the routes), \<open>Server\<close> (the UI and \<open>newMux\<close>), \<open>Startup\<close> (\<open>main\<close>,
    \<open>checkListenAddr\<close>); \<open>JsonWf\<close>, \<open>StoreOps\<close>, \<open>ServerProps\<close> and \<open>AuthProps\<close> hold what is proved of them.
  \<^item> \<open>subscriber/main.go\<close>: \<open>EntryPath\<close>, \<open>Extract\<close>, \<open>Fetch\<close> (requests and decoding), \<open>Install\<close>, \<open>Corpus\<close>, \<open>Marker\<close>,
    \<open>Converge\<close> (the pass), \<open>SubStart\<close> (\<open>main\<close>, \<open>validateServerURL\<close>, \<open>newHTTPClient\<close>); \<open>ConvergeProps\<close>,
    \<open>PassProps\<close>, \<open>Requests\<close>, \<open>Progress\<close> and \<open>Delivery\<close> hold what is proved of them.
  \<^item> Both sides: \<open>Wire\<close> and \<open>EndToEnd\<close>.

  \<^bold>\<open>What is proved.\<close>
  \<^item> Store: every operation keeps the invariant of its tables and the history, and is all or nothing under
    any failure of the database; the optimistic lock, the conflict records and their resolution behave as a
    compare-and-set; reading gives back what was written; a cut publishes exactly what was previewed, within
    the kernel caps and with sound links; what is published never changes, and manifest, archive and content
    hash agree.
  \<^item> Server: every request gets a well-formed answer; no sequence of requests breaks the database; without the
    operator's token nothing but the three subscriber routes is reachable, and a host's token acts for its own
    host only; a credential file is never replaced; a server that listens without the override either checks
    credentials over TLS or listens on a loopback address.
  \<^item> Subscriber: an archive cannot leave its directory; at every moment, under any failure and any answer of
    the server, and even when the process is killed, the corpus is the old one or a completely checked
    release; a report of success is true; the token leaves the host over TLS or to a loopback address only.
  \<^item> Both: without failures a pass completes, and the host then has the server's current release byte for
    byte.

  \<^bold>\<open>Interfaces.\<close>  \<open>database_contract\<close> and \<open>store_method\<close> (\<open>StoreOps\<close>) are what the handlers rely on: run on
  an idle session, a method ends on an idle session and its effect lies in a relation that composes.  They are
  interpreted on every method of the store, once for the invariant with the history, once for reads, and once for
  what a host may change.  \<open>request_policy\<close> (\<open>Requests\<close>) is what all traffic of a pass satisfies, interpreted
  on the requests the code builds.

  \<^bold>\<open>Bounds and fuel.\<close>  The loop of \<open>freshReleaseDir\<close> runs with fuel one more than there are nodes in the
  tree; it is proved that it then returns and that more fuel changes nothing.  The JSON decoder nests at
  most 10000 deep, as \<open>encoding/json\<close> does.  The subscriber's endless loop is the sequence of its states after
  \<open>n\<close> rounds.  All other loops are structural recursions.

  \<^bold>\<open>Parameters.\<close>  The answers of the SQLite driver, of the kernel and of the network, the clock and the random
  source; how far the JSON scanner looks behind a value when a body was cut at the limit; the contents of
  the embedded UI files; whether a PEM bundle holds a certificate.  None of them is assumed to succeed unless
  a theorem says so.

  \<^bold>\<open>Not modelled.\<close>
  \<^item> Log output, flag parsing, waiting between passes, time-outs, and the accept loop of \<open>net/http\<close>; requests
    are handled one after another, so nothing is claimed of two requests that interleave (the store's single
    connection serialises their transactions).
  \<^item> File modes and ownership; symbolic links in the middle of a path (an error here).
  \<^item> The byte format of tar: an archive is the list of its complete entries and the error that ends it.
  \<^item> The wording of JSON decoding errors.  A request that cannot be built counts as one without an
    answer, and an error while iterating over rows as one of the query.
  \<^item> \<open>ServeMux\<close>'s redirects to clean paths, range and precondition headers of UI files, the empty body of
    answers to \<open>HEAD\<close>.
  \<^item> The order in which Go visits the wanted documents when it names one that is missing (here the manifest's), and
    the timing of the comparison of token digests.
  \<^item> \<open>url.Parse\<close> is the one of the Go release that \<open>go.mod\<close> names; later releases refuse more bracketed hosts.
  \<^item> The browser UI in JavaScript, the shell adapters and the Go tests.
\<close>

end
